(* ===== verification/Prelude.thy ===== *)
theory Prelude
  imports Main "HOL-Library.AList" "HOL-Library.Char_ord" "HOL-Library.List_Lexorder"
begin

text \<open>
  Shared vocabulary of the development: the theorem collections, Go maps as association
  lists with distinct keys, the interface every component uses them through, and the
  generic list facts the component proofs share.

  A Go \<^verbatim>\<open>map[K]V\<close> is an association list. The order of the list stands for the
  (unspecified) iteration order of the runtime; an operation whose result depends on the
  iteration order takes that order as an argument constrained by \<open>range_order\<close>.
  Go strings are byte strings, hence \<open>string\<close>; their \<^verbatim>\<open><\<close> is the lexicographic
  order of the bytes, which is the order \<open>HOL-Library.List_Lexorder\<close> and
  \<open>HOL-Library.Char_ord\<close> give to \<open>string\<close>.
\<close>

section \<open>Collections\<close>

named_theorems go_simps \<open>characteristic equations of the Go runtime model\<close>
named_theorems inv_intros \<open>operations that keep their component's invariant\<close>

section \<open>Go maps\<close>

type_synonym ('k, 'v) gomap = "('k \<times> 'v) list"

definition gm_empty :: "('k, 'v) gomap" where
  "gm_empty = []"

definition gm_get :: "('k, 'v) gomap \<Rightarrow> 'k \<Rightarrow> 'v option" where
  "gm_get m k = map_of m k"

definition gm_put :: "'k \<Rightarrow> 'v \<Rightarrow> ('k, 'v) gomap \<Rightarrow> ('k, 'v) gomap" where
  "gm_put k v m = AList.update k v m"

definition gm_del :: "'k \<Rightarrow> ('k, 'v) gomap \<Rightarrow> ('k, 'v) gomap" where
  "gm_del k m = filter (\<lambda>e. fst e \<noteq> k) m"

definition gm_len :: "('k, 'v) gomap \<Rightarrow> nat" where
  "gm_len m = length m"

definition gm_keys :: "('k, 'v) gomap \<Rightarrow> 'k list" where
  "gm_keys m = map fst m"

definition gm_has :: "('k, 'v) gomap \<Rightarrow> 'k \<Rightarrow> bool" where
  "gm_has m k \<longleftrightarrow> gm_get m k \<noteq> None"

text \<open>Every value updated in place, as a loop over the map with pointer values does.\<close>

definition gm_map :: "('v \<Rightarrow> 'w) \<Rightarrow> ('k, 'v) gomap \<Rightarrow> ('k, 'w) gomap" where
  "gm_map f m = map (\<lambda>(k, v). (k, f v)) m"

definition gm_wf :: "('k, 'v) gomap \<Rightarrow> bool" where
  "gm_wf m \<longleftrightarrow> distinct (map fst m)"

text \<open>A possible order of the keys in a \<^verbatim>\<open>range\<close> loop over the map.\<close>

definition range_order :: "('k, 'v) gomap \<Rightarrow> 'k list \<Rightarrow> bool" where
  "range_order m ks \<longleftrightarrow> distinct ks \<and> set ks = set (gm_keys m)"

text \<open>\<^verbatim>\<open>sort.Slice\<close> with a comparison function, as insertion sort.\<close>

fun insert_by :: "('a \<Rightarrow> 'a \<Rightarrow> bool) \<Rightarrow> 'a \<Rightarrow> 'a list \<Rightarrow> 'a list" where
  "insert_by lt x [] = [x]"
| "insert_by lt x (y # ys) = (if lt y x then y # insert_by lt x ys else x # y # ys)"

fun sort_by :: "('a \<Rightarrow> 'a \<Rightarrow> bool) \<Rightarrow> 'a list \<Rightarrow> 'a list" where
  "sort_by lt [] = []"
| "sort_by lt (x # xs) = insert_by lt x (sort_by lt xs)"

text \<open>The answer of the file system to reading a file.\<close>

datatype file_read = FileMissing | FileError | FileData string

text \<open>A sequence of operations each of which is allowed in the state where it runs.\<close>

fun ops_ok :: "('op \<Rightarrow> 's \<Rightarrow> 's) \<Rightarrow> ('op \<Rightarrow> 's \<Rightarrow> bool) \<Rightarrow> 'op list \<Rightarrow> 's \<Rightarrow> bool" where
  "ops_ok step ok [] s = True"
| "ops_ok step ok (op # ops) s = (ok op s \<and> ops_ok step ok ops (step op s))"

section \<open>Components and their histories\<close>

text \<open>
  A component that refines an abstract machine operation by operation, and one that keeps an invariant;
  both then do so over every history of allowed operations. The second is the first with a trivial machine.
\<close>

locale simulation =
  fixes step :: "'op \<Rightarrow> 's \<Rightarrow> 's" and ok :: "'op \<Rightarrow> 's \<Rightarrow> bool"
    and spec :: "'op \<Rightarrow> 'a \<Rightarrow> 'a" and rel :: "'s \<Rightarrow> 'a \<Rightarrow> bool"
  assumes simulates: "rel s a \<Longrightarrow> ok op s \<Longrightarrow> rel (step op s) (spec op a)"
begin

lemma history_simulates: "rel s a \<Longrightarrow> ops_ok step ok ops s \<Longrightarrow> rel (fold step ops s) (fold spec ops a)"
  by (induction ops arbitrary: s a) (auto intro: simulates)

end

locale component =
  fixes step :: "'op \<Rightarrow> 's \<Rightarrow> 's" and ok :: "'op \<Rightarrow> 's \<Rightarrow> bool" and inv :: "'s \<Rightarrow> bool"
  assumes keeps: "inv s \<Longrightarrow> ok op s \<Longrightarrow> inv (step op s)"

sublocale component \<subseteq> simulation step ok "\<lambda>op (u :: unit). u" "\<lambda>s u. inv s"
  by unfold_locales (rule keeps)

context component
begin

lemma history_keeps: "inv s \<Longrightarrow> ops_ok step ok ops s \<Longrightarrow> inv (fold step ops s)"
  by (rule history_simulates)

end

section \<open>The map interface\<close>

locale go_map =
  fixes empty :: "'m"
    and get :: "'m \<Rightarrow> 'k \<Rightarrow> 'v option"
    and put :: "'k \<Rightarrow> 'v \<Rightarrow> 'm \<Rightarrow> 'm"
    and del :: "'k \<Rightarrow> 'm \<Rightarrow> 'm"
    and len :: "'m \<Rightarrow> nat"
    and wf :: "'m \<Rightarrow> bool"
  assumes get_empty: "get empty k = None"
    and get_put: "get (put k v m) k' = (if k' = k then Some v else get m k')"
    and get_del: "get (del k m) k' = (if k' = k then None else get m k')"
    and len_card: "wf m \<Longrightarrow> len m = card (dom (get m))"
    and fin: "finite (dom (get m))"
    and wf_empty: "wf empty"
    and wf_put: "wf m \<Longrightarrow> wf (put k v m)"
    and wf_del: "wf m \<Longrightarrow> wf (del k m)"
begin

lemma get_empty_fun: "get empty = Map.empty"
  by (simp add: fun_eq_iff get_empty)

lemma get_put_fun: "get (put k v m) = (get m)(k \<mapsto> v)"
  by (simp add: fun_eq_iff get_put)

lemma get_del_fun: "get (del k m) = (get m)(k := None)"
  by (simp add: fun_eq_iff get_del)

lemma dom_put: "dom (get (put k v m)) = insert k (dom (get m))"
  by (auto simp: get_put dom_def)

lemma dom_del: "dom (get (del k m)) = dom (get m) - {k}"
  by (auto simp: get_del dom_def split: if_splits)

lemma len_put:
  assumes "wf m"
  shows "len (put k v m) = (if get m k = None then Suc (len m) else len m)"
proof -
  have "len (put k v m) = card (insert k (dom (get m)))"
    using assms by (simp add: len_card wf_put dom_put)
  then show ?thesis
    using assms fin [of m] by (auto simp: len_card domIff insert_absorb card_insert_if)
qed

lemma len_del:
  assumes "wf m"
  shows "len (del k m) = (if get m k = None then len m else len m - 1)"
proof -
  have "len (del k m) = card (dom (get m) - {k})"
    using assms by (simp add: len_card wf_del dom_del)
  then show ?thesis
    using assms fin [of m] by (auto simp: len_card domIff card_Diff_singleton_if)
qed

lemma len_del_less: "wf m \<Longrightarrow> get m k = Some v \<Longrightarrow> len (del k m) < len m"
proof -
  assume wf: "wf m" and k: "get m k = Some v"
  have "0 < len m"
    using wf k fin [of m] by (auto simp: len_card card_gt_0_iff)
  then show ?thesis
    using wf k by (simp add: len_del)
qed

lemma len_empty: "len empty = 0"
  using len_card [OF wf_empty] by (simp add: get_empty dom_def)

end

section \<open>Association lists implement it\<close>

lemma gm_get_map_of: "gm_get m = map_of m"
  by (rule ext) (simp add: gm_get_def)

lemma gm_get_put: "gm_get (gm_put k v m) k' = (if k' = k then Some v else gm_get m k')"
  by (simp add: gm_get_def gm_put_def update_conv')

lemma gm_get_del: "gm_get (gm_del k m) k' = (if k' = k then None else gm_get m k')"
  unfolding gm_get_def gm_del_def by (induction m) auto

lemma gm_wf_put: "gm_wf m \<Longrightarrow> gm_wf (gm_put k v m)"
  by (simp add: gm_wf_def gm_put_def distinct_update)

lemma gm_wf_del: "gm_wf m \<Longrightarrow> gm_wf (gm_del k m)"
  by (simp add: gm_wf_def gm_del_def distinct_map_filter)

lemma gm_len_card: "gm_wf m \<Longrightarrow> gm_len m = card (dom (gm_get m))"
proof -
  assume "gm_wf m"
  then have "length m = card (set (map fst m))"
    unfolding gm_wf_def by (metis distinct_card length_map)
  then show ?thesis
    by (simp add: gm_len_def gm_get_map_of dom_map_of_conv_image_fst)
qed

interpretation gm: go_map gm_empty gm_get gm_put gm_del gm_len gm_wf
proof unfold_locales
  show "gm_get gm_empty k = None" for k :: 'k
    by (simp add: gm_empty_def gm_get_def)
  show "finite (dom (gm_get m))" for m :: "('k, 'v) gomap"
    by (simp add: gm_get_map_of finite_dom_map_of)
  show "gm_wf gm_empty"
    by (simp add: gm_empty_def gm_wf_def)
qed (rule gm_get_put gm_get_del gm_len_card gm_wf_put gm_wf_del; assumption?)+

lemmas gm_laws [go_simps] =
  gm.get_empty gm.get_put gm.get_del gm.wf_empty gm.wf_put gm.wf_del gm.dom_put gm.dom_del
  gm.len_empty

lemmas gm_fun_laws = gm.get_empty_fun gm.get_put_fun gm.get_del_fun

section \<open>More facts about the association lists\<close>

lemma set_gm_keys [simp]: "set (gm_keys m) = dom (gm_get m)"
  by (simp add: gm_keys_def gm_get_map_of dom_map_of_conv_image_fst)

lemma gm_has_iff: "gm_has m k \<longleftrightarrow> k \<in> dom (gm_get m)"
  by (auto simp: gm_has_def)

lemma gm_get_SomeD: "gm_get m k = Some v \<Longrightarrow> (k, v) \<in> set m"
  by (simp add: gm_get_def map_of_SomeD)

lemma gm_get_eq_Some: "gm_wf m \<Longrightarrow> gm_get m k = Some v \<longleftrightarrow> (k, v) \<in> set m"
  by (simp add: gm_get_def gm_wf_def)

lemma gm_get_map [go_simps]: "gm_get (gm_map f m) k = map_option f (gm_get m k)"
  unfolding gm_get_def gm_map_def by (induction m) auto

lemma gm_keys_map [go_simps]: "gm_keys (gm_map f m) = gm_keys m"
  by (simp add: gm_keys_def gm_map_def case_prod_beta)

lemma gm_wf_map [go_simps]: "gm_wf (gm_map f m) = gm_wf m"
  by (simp add: gm_wf_def gm_map_def case_prod_beta comp_def)

lemma gm_len_map [go_simps]: "gm_len (gm_map f m) = gm_len m"
  by (simp add: gm_len_def gm_map_def)

lemma range_order_keys: "gm_wf m \<Longrightarrow> range_order m (gm_keys m)"
  by (simp add: range_order_def gm_wf_def gm_keys_def)

lemma range_order_set: "range_order m ks \<Longrightarrow> set ks = dom (gm_get m)"
  by (simp add: range_order_def)

lemma sort_gm_keys: "gm_wf m \<Longrightarrow> sort (gm_keys m) = sorted_list_of_set (dom (gm_get m))"
  by (metis gm_keys_def gm_wf_def set_gm_keys sorted_list_of_set_sort_remdups distinct_remdups_id)

section \<open>Lists\<close>

lemma set_insert_by [simp]: "set (insert_by lt x xs) = insert x (set xs)"
  by (induction xs) auto

lemma set_sort_by [simp]: "set (sort_by lt xs) = set xs"
  by (induction xs) auto

lemma length_insert_by [simp]: "length (insert_by lt x xs) = Suc (length xs)"
  by (induction xs) auto

lemma length_sort_by [simp]: "length (sort_by lt xs) = length xs"
  by (induction xs) auto

lemma distinct_sort_by [simp]: "distinct (sort_by lt xs) = distinct xs"
  by (metis card_distinct distinct_card length_sort_by set_sort_by)

lemma filter_all_id: "(\<And>x. x \<in> set xs \<Longrightarrow> P x) \<Longrightarrow> filter P xs = xs"
  by (simp add: filter_id_conv)

lemma dropWhile_hd: "dropWhile P xs = x # ys \<Longrightarrow> \<not> P x"
  using hd_dropWhile [of P xs] by auto

lemma length_le_1_cases: "length xs \<le> 1 \<Longrightarrow> xs = [] \<or> (\<exists>x. xs = [x])"
  by (cases xs) auto

lemma append_eq_same_length:
  "length a = length c \<Longrightarrow> a @ b = c @ d \<longleftrightarrow> a = c \<and> b = d"
  by simp

end
