(* ===== verification/GoStrings.thy ===== *)
theory GoStrings
  imports Prelude "HOL-Library.Word"
begin

text \<open>
  What the program uses of Go's \<^verbatim>\<open>unicode/utf8\<close>, \<^verbatim>\<open>strings\<close>,
  \<^verbatim>\<open>strconv\<close> and \<^verbatim>\<open>encoding/hex\<close>. A Go string is a list of bytes
  (\<open>string\<close>); a rune is a natural number. An invalid UTF-8 byte decodes to the
  replacement rune U+FFFD with width 1, as in Go.

  The Unicode tables above U+007F (simple lower case, simple case folding) are a
  parameter of type \<open>unicode\<close>; the ASCII range and the white-space property are
  written out. The theorems hold for every table.
\<close>

section \<open>Bytes and runes\<close>

definition bytes_of :: "string \<Rightarrow> nat list" where
  "bytes_of s = map of_char s"

definition str_of :: "nat list \<Rightarrow> string" where
  "str_of bs = map char_of bs"

definition RuneError :: nat where
  "RuneError = 0xFFFD"

definition cont_byte :: "nat \<Rightarrow> bool" where
  "cont_byte b \<longleftrightarrow> 0x80 \<le> b \<and> b \<le> 0xBF"

definition decode2 :: "nat \<Rightarrow> nat list \<Rightarrow> nat \<times> nat" where
  "decode2 b0 bs =
     (case bs of
        b1 # _ \<Rightarrow>
          if cont_byte b1 then ((b0 - 0xC0) * 64 + (b1 - 0x80), 2) else (RuneError, 1)
      | [] \<Rightarrow> (RuneError, 1))"

definition decode3 :: "nat \<Rightarrow> nat list \<Rightarrow> nat \<times> nat" where
  "decode3 b0 bs =
     (case bs of
        b1 # b2 # _ \<Rightarrow>
          if (if b0 = 0xE0 then 0xA0 else 0x80) \<le> b1
             \<and> b1 \<le> (if b0 = 0xED then 0x9F else 0xBF) \<and> cont_byte b2
          then ((b0 - 0xE0) * 4096 + (b1 - 0x80) * 64 + (b2 - 0x80), 3) else (RuneError, 1)
      | _ \<Rightarrow> (RuneError, 1))"

definition decode4 :: "nat \<Rightarrow> nat list \<Rightarrow> nat \<times> nat" where
  "decode4 b0 bs =
     (case bs of
        b1 # b2 # b3 # _ \<Rightarrow>
          if (if b0 = 0xF0 then 0x90 else 0x80) \<le> b1
             \<and> b1 \<le> (if b0 = 0xF4 then 0x8F else 0xBF) \<and> cont_byte b2 \<and> cont_byte b3
          then ((b0 - 0xF0) * 262144 + (b1 - 0x80) * 4096 + (b2 - 0x80) * 64 + (b3 - 0x80), 4)
          else (RuneError, 1)
      | _ \<Rightarrow> (RuneError, 1))"

text \<open>\<^verbatim>\<open>utf8.DecodeRune\<close>: the first rune and its width in bytes.\<close>

definition decode_rune :: "nat list \<Rightarrow> nat \<times> nat" where
  "decode_rune s =
     (case s of
        [] \<Rightarrow> (RuneError, 0)
      | b0 # bs \<Rightarrow>
          if b0 < 0x80 then (b0, 1)
          else if 0xC2 \<le> b0 \<and> b0 \<le> 0xDF then decode2 b0 bs
          else if 0xE0 \<le> b0 \<and> b0 \<le> 0xEF then decode3 b0 bs
          else if 0xF0 \<le> b0 \<and> b0 \<le> 0xF4 then decode4 b0 bs
          else (RuneError, 1))"

text \<open>The runes of a \<^verbatim>\<open>range\<close> loop over a string.\<close>

function runes_b :: "nat list \<Rightarrow> nat list" where
  "runes_b [] = []"
| "runes_b (b # bs) =
     fst (decode_rune (b # bs)) # runes_b (drop (snd (decode_rune (b # bs)) - 1) bs)"
  by pat_completeness auto
termination
  by (relation "measure length") auto

definition runes :: "string \<Rightarrow> nat list" where
  "runes s = runes_b (bytes_of s)"

definition RuneCount :: "string \<Rightarrow> nat" where
  "RuneCount s = length (runes s)"

text \<open>\<^verbatim>\<open>utf8.AppendRune\<close>: surrogates and out-of-range runes become U+FFFD.\<close>

definition encode_rune :: "nat \<Rightarrow> nat list" where
  "encode_rune r =
     (if r < 0x80 then [r]
      else if r < 0x800 then [0xC0 + r div 64, 0x80 + r mod 64]
      else if 0xD800 \<le> r \<and> r \<le> 0xDFFF \<or> 0x10FFFF < r then [0xEF, 0xBF, 0xBD]
      else if r < 0x10000 then [0xE0 + r div 4096, 0x80 + r div 64 mod 64, 0x80 + r mod 64]
      else [0xF0 + r div 262144, 0x80 + r div 4096 mod 64, 0x80 + r div 64 mod 64, 0x80 + r mod 64])"

definition valid_rune :: "nat \<Rightarrow> bool" where
  "valid_rune r \<longleftrightarrow> r \<le> 0x10FFFF \<and> \<not> (0xD800 \<le> r \<and> r \<le> 0xDFFF)"

definition encode_runes :: "nat list \<Rightarrow> string" where
  "encode_runes rs = str_of (concat (map encode_rune rs))"

text \<open>The last rune of a byte string, \<^verbatim>\<open>utf8.DecodeLastRune\<close>.\<close>

definition last_start :: "nat list \<Rightarrow> nat" where
  "last_start bs =
     (let e = length bs in
      if 2 \<le> e \<and> \<not> cont_byte (bs ! (e - 2)) then e - 2
      else if 3 \<le> e \<and> \<not> cont_byte (bs ! (e - 3)) then e - 3
      else if 4 \<le> e \<and> \<not> cont_byte (bs ! (e - 4)) then e - 4
      else e - 5)"

definition decode_last_rune :: "nat list \<Rightarrow> nat \<times> nat" where
  "decode_last_rune bs =
     (if bs = [] then (RuneError, 0)
      else if last bs < 0x80 then (last bs, 1)
      else
        (let st = last_start bs; (r, size) = decode_rune (drop st bs) in
         if st + size \<noteq> length bs then (RuneError, 1) else (r, size)))"

section \<open>Package strings\<close>

record unicode =
  uc_lower :: "nat \<Rightarrow> nat"
  uc_fold :: "nat \<Rightarrow> nat"

text \<open>\<^verbatim>\<open>unicode.IsSpace\<close>.\<close>

definition is_space :: "nat \<Rightarrow> bool" where
  "is_space r \<longleftrightarrow>
     (0x09 \<le> r \<and> r \<le> 0x0D) \<or> r = 0x20 \<or> r = 0x85 \<or> r = 0xA0 \<or> r = 0x1680
     \<or> (0x2000 \<le> r \<and> r \<le> 0x200A) \<or> r = 0x2028 \<or> r = 0x2029 \<or> r = 0x202F \<or> r = 0x205F
     \<or> r = 0x3000"

function trim_left_b :: "nat list \<Rightarrow> nat list" where
  "trim_left_b [] = []"
| "trim_left_b (b # bs) =
     (if is_space (fst (decode_rune (b # bs)))
      then trim_left_b (drop (snd (decode_rune (b # bs)) - 1) bs) else b # bs)"
  by pat_completeness auto
termination
  by (relation "measure length") auto

text \<open>A nonempty string has a last rune of width at least 1, so \<open>max 1\<close> changes nothing.\<close>

function trim_right_b :: "nat list \<Rightarrow> nat list" where
  "trim_right_b bs =
     (if bs \<noteq> [] \<and> is_space (fst (decode_last_rune bs))
      then trim_right_b (take (length bs - max 1 (snd (decode_last_rune bs))) bs) else bs)"
  by pat_completeness auto
termination
  by (relation "measure length") auto

declare trim_right_b.simps [simp del]

definition TrimSpace :: "string \<Rightarrow> string" where
  "TrimSpace s = str_of (trim_right_b (trim_left_b (bytes_of s)))"

text \<open>\<^verbatim>\<open>strings.TrimRight\<close> with an ASCII cutset.\<close>

definition TrimRight :: "string \<Rightarrow> string \<Rightarrow> string" where
  "TrimRight s cutset = rev (dropWhile (\<lambda>c. c \<in> set cutset) (rev s))"

definition HasPrefix :: "string \<Rightarrow> string \<Rightarrow> bool" where
  "HasPrefix s p \<longleftrightarrow> take (length p) s = p"

definition TrimPrefix :: "string \<Rightarrow> string \<Rightarrow> string" where
  "TrimPrefix s p = (if HasPrefix s p then drop (length p) s else s)"

definition lower_rune :: "unicode \<Rightarrow> nat \<Rightarrow> nat" where
  "lower_rune uc r =
     (if r < 0x80 then (if 65 \<le> r \<and> r \<le> 90 then r + 32 else r) else uc_lower uc r)"

text \<open>
  \<^verbatim>\<open>strings.ToLower\<close>: \<^verbatim>\<open>strings.Map(unicode.ToLower, s)\<close>, which re-encodes every
  rune and so replaces an invalid byte by the encoding of U+FFFD.
\<close>

definition ToLower :: "unicode \<Rightarrow> string \<Rightarrow> string" where
  "ToLower uc s = encode_runes (map (lower_rune uc) (runes s))"

text \<open>
  \<^verbatim>\<open>strings.EqualFold\<close>: the runes agree up to simple folding; \<open>uc_fold\<close> picks one
  representative of each folding orbit, the lower-case letter where it has an ASCII one.
\<close>

definition fold_rune :: "unicode \<Rightarrow> nat \<Rightarrow> nat" where
  "fold_rune uc r =
     (if r < 0x80 then (if 65 \<le> r \<and> r \<le> 90 then r + 32 else r) else uc_fold uc r)"

definition EqualFold :: "unicode \<Rightarrow> string \<Rightarrow> string \<Rightarrow> bool" where
  "EqualFold uc s t \<longleftrightarrow> map (fold_rune uc) (runes s) = map (fold_rune uc) (runes t)"

text \<open>\<^verbatim>\<open>strings.Fields\<close>: the maximal runs of non-space runes.\<close>

function fields_b :: "nat list \<Rightarrow> nat list \<Rightarrow> nat list list" where
  "fields_b cur [] = (if cur = [] then [] else [cur])"
| "fields_b cur (b # bs) =
     (let w = snd (decode_rune (b # bs)); rest = drop (w - 1) bs in
      if is_space (fst (decode_rune (b # bs)))
      then (if cur = [] then fields_b [] rest else cur # fields_b [] rest)
      else fields_b (cur @ b # take (w - 1) bs) rest)"
  by pat_completeness auto
termination
  by (relation "measure (\<lambda>(cur, bs). length bs)") auto

definition Fields :: "string \<Rightarrow> string list" where
  "Fields s = map str_of (fields_b [] (bytes_of s))"

fun Join :: "string list \<Rightarrow> string \<Rightarrow> string" where
  "Join [] sep = []"
| "Join [x] sep = x"
| "Join (x # y # ys) sep = x @ sep @ Join (y # ys) sep"

section \<open>Packages strconv and encoding/hex\<close>

fun dec_nat :: "nat \<Rightarrow> string" where
  "dec_nat n =
     (if n < 10 then [char_of (48 + n)] else dec_nat (n div 10) @ [char_of (48 + n mod 10)])"

declare dec_nat.simps [simp del]

text \<open>\<^verbatim>\<open>strconv.FormatInt(i, 10)\<close> and \<^verbatim>\<open>strconv.Itoa\<close>.\<close>

definition FormatInt :: "int \<Rightarrow> string" where
  "FormatInt i = (if i < 0 then CHR ''-'' # dec_nat (nat (- i)) else dec_nat (nat i))"

definition hex_digit :: "nat \<Rightarrow> char" where
  "hex_digit n = char_of (if n < 10 then 48 + n else 87 + n)"

definition hex_val :: "char \<Rightarrow> nat option" where
  "hex_val c =
     (let n = (of_char c :: nat) in
      if 48 \<le> n \<and> n \<le> 57 then Some (n - 48)
      else if 97 \<le> n \<and> n \<le> 102 then Some (n - 87)
      else if 65 \<le> n \<and> n \<le> 70 then Some (n - 55)
      else None)"

text \<open>\<^verbatim>\<open>hex.EncodeToString\<close> and \<^verbatim>\<open>hex.DecodeString\<close> (\<open>None\<close> is its error).\<close>

fun hex_encode :: "string \<Rightarrow> string" where
  "hex_encode [] = []"
| "hex_encode (c # cs) =
     hex_digit (of_char c div 16) # hex_digit (of_char c mod 16) # hex_encode cs"

fun hex_decode :: "string \<Rightarrow> string option" where
  "hex_decode [] = Some []"
| "hex_decode [c] = None"
| "hex_decode (a # b # cs) =
     (case (hex_val a, hex_val b) of
        (Some h, Some l) \<Rightarrow>
          (case hex_decode cs of None \<Rightarrow> None | Some r \<Rightarrow> Some (char_of (16 * h + l) # r))
      | _ \<Rightarrow> None)"

text \<open>\<^verbatim>\<open>binary.BigEndian.PutUint64\<close>.\<close>

definition be64 :: "64 word \<Rightarrow> string" where
  "be64 w = map (\<lambda>i. char_of (unat (drop_bit (8 * i) w))) [7, 6, 5, 4, 3, 2, 1, 0]"

definition ascii :: "string \<Rightarrow> bool" where
  "ascii s \<longleftrightarrow> (\<forall>c \<in> set s. (of_char c :: nat) < 0x80)"

definition lower_char :: "char \<Rightarrow> char" where
  "lower_char c =
     (if 65 \<le> (of_char c :: nat) \<and> (of_char c :: nat) \<le> 90 then char_of ((of_char c :: nat) + 32) else c)"

section \<open>Bytes and strings\<close>

lemma str_of_bytes_of [simp]: "str_of (bytes_of s) = s"
  by (simp add: str_of_def bytes_of_def comp_def)

lemma bytes_of_str_of: "\<forall>b \<in> set bs. b < 256 \<Longrightarrow> bytes_of (str_of bs) = bs"
  unfolding bytes_of_def str_of_def by (induction bs) auto

lemma bytes_of_simps [simp]:
  "bytes_of [] = []" "bytes_of (c # cs) = of_char c # bytes_of cs"
  "bytes_of (s @ t) = bytes_of s @ bytes_of t" "length (bytes_of s) = length s"
  by (simp_all add: bytes_of_def)

lemma bytes_of_inj [simp]: "bytes_of s = bytes_of t \<longleftrightarrow> s = t"
  by (metis str_of_bytes_of)

lemma length_str_of [simp]: "length (str_of bs) = length bs"
  by (simp add: str_of_def)

lemma ascii_simps [simp]:
  "ascii []" "ascii (c # cs) \<longleftrightarrow> (of_char c :: nat) < 0x80 \<and> ascii cs"
  "ascii (s @ t) \<longleftrightarrow> ascii s \<and> ascii t"
  by (auto simp: ascii_def)

section \<open>Runes\<close>

lemma decode_rune_ascii [simp]: "b < 0x80 \<Longrightarrow> decode_rune (b # bs) = (b, 1)"
  by (simp add: decode_rune_def)

lemma runes_b_ascii: "\<forall>b \<in> set bs. b < 0x80 \<Longrightarrow> runes_b bs = bs"
  by (induction bs) auto

lemma ascii_bytes: "ascii s \<Longrightarrow> b \<in> set (bytes_of s) \<Longrightarrow> b < 0x80"
  by (auto simp: ascii_def bytes_of_def)

lemma runes_ascii: "ascii s \<Longrightarrow> runes s = bytes_of s"
  unfolding runes_def by (rule runes_b_ascii) (auto dest: ascii_bytes)

lemma RuneCount_ascii: "ascii s \<Longrightarrow> RuneCount s = length s"
  by (simp add: RuneCount_def runes_ascii)

lemma length_runes_b: "length (runes_b bs) \<le> length bs"
proof (induction bs rule: runes_b.induct)
  case (2 b bs)
  have "length (runes_b (drop (snd (decode_rune (b # bs)) - 1) bs)) \<le> length bs"
    using "2.IH" by (rule order_trans) simp
  then show ?case by simp
qed simp

lemma RuneCount_le: "RuneCount s \<le> length s"
  using length_runes_b [of "bytes_of s"] by (simp add: RuneCount_def runes_def)

lemma runes_b_eq_Nil [simp]: "runes_b bs = [] \<longleftrightarrow> bs = []"
  by (cases bs) auto

text \<open>A rune below U+0080 comes from an ASCII byte only.\<close>

lemma decode2_ge: "0xC2 \<le> b \<Longrightarrow> 0x80 \<le> fst (decode2 b bs)"
  by (auto simp: decode2_def RuneError_def split: list.split)

lemma decode3_ge: "0xE0 \<le> b \<Longrightarrow> 0x80 \<le> fst (decode3 b bs)"
  by (cases "b = 0xE0") (auto simp: decode3_def RuneError_def split: list.split)

lemma decode4_ge:
  assumes "0xF0 \<le> b"
  shows "0x80 \<le> fst (decode4 b bs)"
proof -
  have err: "0x80 \<le> RuneError" by (simp add: RuneError_def)
  define lo where "lo = (if b = 0xF0 then 0x90 else 0x80 :: nat)"
  have "0x80 \<le> (b - 0xF0) * 262144 + (b1 - 0x80) * 4096 + c + d" if "lo \<le> b1" for b1 c d
  proof (cases "b = 0xF0")
    case True
    with that have "16 \<le> b1 - 0x80" by (simp add: lo_def)
    then show ?thesis by linarith
  next
    case False
    with assms have "1 \<le> b - 0xF0" by simp
    then show ?thesis by linarith
  qed
  then show ?thesis
    unfolding decode4_def lo_def [symmetric] using err by (simp split: list.split)
qed

lemma decode_rune_lt_0x80: "fst (decode_rune (b # bs)) < 0x80 \<Longrightarrow> b < 0x80"
proof (rule ccontr)
  assume r: "fst (decode_rune (b # bs)) < 0x80" and b: "\<not> b < 0x80"
  have eq: "decode_rune (b # bs) =
      (if 0xC2 \<le> b \<and> b \<le> 0xDF then decode2 b bs
       else if 0xE0 \<le> b \<and> b \<le> 0xEF then decode3 b bs
       else if 0xF0 \<le> b \<and> b \<le> 0xF4 then decode4 b bs else (RuneError, 1))"
    using b by (simp add: decode_rune_def)
  have "0x80 \<le> fst (decode_rune (b # bs))"
    unfolding eq using decode2_ge decode3_ge decode4_ge by (simp add: RuneError_def)
  with r show False by simp
qed

lemma runes_b_ascii_iff: "\<forall>r \<in> set (runes_b bs). r < 0x80 \<Longrightarrow> runes_b bs = bs"
proof (induction bs rule: runes_b.induct)
  case (2 b bs)
  have "fst (decode_rune (b # bs)) < 0x80"
    using "2.prems" by (simp only: runes_b.simps list.set ball_simps)
  then have "b < 0x80" by (rule decode_rune_lt_0x80)
  then have d: "decode_rune (b # bs) = (b, 1)" by (rule decode_rune_ascii)
  then have e: "runes_b (b # bs) = b # runes_b bs"
    by (simp only: runes_b.simps fst_conv snd_conv diff_self_eq_0 drop_0)
  have "\<forall>r \<in> set (runes_b bs). r < 0x80"
    using "2.prems" unfolding e by simp
  then have "runes_b bs = bs"
    using "2.IH" by (simp only: d fst_conv snd_conv diff_self_eq_0 drop_0)
  then show ?case by (simp only: e)
qed simp

lemma runes_all_ascii: "\<forall>r \<in> set (runes s). r < 0x80 \<Longrightarrow> ascii s \<and> runes s = bytes_of s"
proof -
  assume a: "\<forall>r \<in> set (runes s). r < 0x80"
  then have "runes s = bytes_of s"
    unfolding runes_def by (rule runes_b_ascii_iff)
  with a show ?thesis by (auto simp: ascii_def bytes_of_def)
qed

lemma decode_rune_2:
  "2 \<le> a \<Longrightarrow> a < 32 \<Longrightarrow> b < 64 \<Longrightarrow>
   decode_rune ((0xC0 + a) # (0x80 + b) # bs) = (a * 64 + b, 2)"
  by (simp add: decode_rune_def decode2_def cont_byte_def)

lemma decode_rune_3:
  assumes "a < 16" "b < 64" "c < 64" "a = 0 \<Longrightarrow> 32 \<le> b" "a = 13 \<Longrightarrow> b < 32"
  shows "decode_rune ((0xE0 + a) # (0x80 + b) # (0x80 + c) # bs) = (a * 4096 + b * 64 + c, 3)"
proof -
  have "(if 0xE0 + a = 0xE0 then 0xA0 else 0x80) \<le> 0x80 + b"
    using assms(4) by auto
  moreover have "0x80 + b \<le> (if 0xE0 + a = 0xED then 0x9F else 0xBF)"
    using assms(2,5) by auto
  ultimately show ?thesis
    using assms(1-3) by (simp add: decode_rune_def decode3_def cont_byte_def)
qed

lemma decode_rune_4:
  assumes "a \<le> 4" "b < 64" "c < 64" "d < 64" "a = 0 \<Longrightarrow> 16 \<le> b" "a = 4 \<Longrightarrow> b < 16"
  shows "decode_rune ((0xF0 + a) # (0x80 + b) # (0x80 + c) # (0x80 + d) # bs)
    = (a * 262144 + b * 4096 + c * 64 + d, 4)"
proof -
  have "(if 0xF0 + a = 0xF0 then 0x90 else 0x80) \<le> 0x80 + b"
    using assms(5) by auto
  moreover have "0x80 + b \<le> (if 0xF0 + a = 0xF4 then 0x8F else 0xBF)"
    using assms(2,6) by auto
  ultimately show ?thesis
    using assms(1-4) by (simp add: decode_rune_def decode4_def cont_byte_def)
qed

lemma div_mod_64: "64 * (r div (64 * k)) + r div k mod 64 = (r :: nat) div k"
  using div_mult_mod_eq [of "r div k" 64] by (simp add: div_mult2_eq mult.commute)

lemma decode_encode_rune:
  assumes "valid_rune r"
  shows "decode_rune (encode_rune r @ bs) = (r, length (encode_rune r))"
proof -
  have q: "64 * (r div 262144) + r div 4096 mod 64 = r div 4096"
    "64 * (r div 4096) + r div 64 mod 64 = r div 64" "64 * (r div 64) + r mod 64 = r"
    using div_mod_64 [of r 4096] div_mod_64 [of r 64] div_mod_64 [of r 1] by simp_all
  have m: "r div 4096 mod 64 < 64" "r div 64 mod 64 < 64" "r mod 64 < 64" by simp_all
  consider "r < 0x80" | "0x80 \<le> r" "r < 0x800" | "0x800 \<le> r" "r < 0x10000" | "0x10000 \<le> r"
    by linarith
  then show ?thesis
  proof cases
    case 2
    then have "decode_rune (encode_rune r @ bs) = (r div 64 * 64 + r mod 64, 2)"
      using decode_rune_2 [of "r div 64" "r mod 64" bs] by (simp add: encode_rune_def)
    then show ?thesis using 2 by (simp add: encode_rune_def)
  next
    case 3
    have e: "encode_rune r = [0xE0 + r div 4096, 0x80 + r div 64 mod 64, 0x80 + r mod 64]"
      using 3 assms by (auto simp: encode_rune_def valid_rune_def)
    have "r div 4096 < 16" using 3 q by linarith
    moreover have "r div 4096 = 0 \<Longrightarrow> 32 \<le> r div 64 mod 64"
      using 3 q by linarith
    moreover have "r div 64 mod 64 < 32" if "r div 4096 = 13"
    proof -
      have "r < 0xE000" using q m that by linarith
      then have "r < 0xD800" using assms by (auto simp: valid_rune_def)
      then show ?thesis using q that by linarith
    qed
    moreover have "r div 4096 * 4096 + r div 64 mod 64 * 64 + r mod 64 = r"
      using q by linarith
    ultimately show ?thesis
      using decode_rune_3 [of "r div 4096" "r div 64 mod 64" "r mod 64" bs] m by (simp add: e)
  next
    case 4
    have r: "r \<le> 0x10FFFF" using assms by (simp add: valid_rune_def)
    have e: "encode_rune r = [0xF0 + r div 262144, 0x80 + r div 4096 mod 64,
        0x80 + r div 64 mod 64, 0x80 + r mod 64]"
      using 4 r by (simp add: encode_rune_def)
    have "r div 262144 \<le> 4" "r div 262144 = 0 \<Longrightarrow> 16 \<le> r div 4096 mod 64"
      "r div 262144 = 4 \<Longrightarrow> r div 4096 mod 64 < 16"
      "r div 262144 * 262144 + r div 4096 mod 64 * 4096 + r div 64 mod 64 * 64 + r mod 64 = r"
      using 4 r q by linarith+
    then show ?thesis
      using decode_rune_4 [of "r div 262144" "r div 4096 mod 64" "r div 64 mod 64" "r mod 64" bs] m
      by (simp add: e)
  qed (simp add: encode_rune_def)
qed

lemma encode_rune_bytes: "b \<in> set (encode_rune r) \<Longrightarrow> b < 256"
  unfolding encode_rune_def by (auto split: if_splits)

lemma encode_rune_neq_Nil [simp]: "encode_rune r \<noteq> []"
  by (simp add: encode_rune_def)

lemma runes_b_encode:
  "\<forall>r \<in> set rs. valid_rune r \<Longrightarrow> runes_b (concat (map encode_rune rs)) = rs"
proof (induction rs)
  case (Cons r rs)
  obtain b bs where eb: "encode_rune r = b # bs"
    by (cases "encode_rune r") auto
  let ?rest = "concat (map encode_rune rs)"
  have "decode_rune (b # bs @ ?rest) = (r, Suc (length bs))"
    using decode_encode_rune [of r ?rest] Cons.prems by (simp add: eb)
  then show ?case
    using Cons by (simp add: eb)
qed simp

lemma runes_encode_runes: "\<forall>r \<in> set rs. valid_rune r \<Longrightarrow> runes (encode_runes rs) = rs"
proof -
  assume v: "\<forall>r \<in> set rs. valid_rune r"
  have "\<forall>b \<in> set (concat (map encode_rune rs)). b < 256"
    by (auto dest: encode_rune_bytes)
  then show ?thesis
    using v by (simp add: runes_def encode_runes_def bytes_of_str_of runes_b_encode)
qed

section \<open>ASCII strings\<close>

lemma encode_runes_ascii: "\<forall>r \<in> set rs. r < 0x80 \<Longrightarrow> encode_runes rs = str_of rs"
  unfolding encode_runes_def str_of_def by (induction rs) (auto simp: encode_rune_def)

lemma lower_rune_char:
  "(of_char c :: nat) < 0x80 \<Longrightarrow> lower_rune uc (of_char c) = of_char (lower_char c)"
  by (auto simp: lower_rune_def lower_char_def)

lemma of_char_lower_char_ascii:
  "(of_char c :: nat) < 0x80 \<Longrightarrow> (of_char (lower_char c) :: nat) < 0x80"
  by (auto simp: lower_char_def)

lemma ToLower_ascii: "ascii s \<Longrightarrow> ToLower uc s = map lower_char s"
proof -
  assume a: "ascii s"
  then have "map (lower_rune uc) (runes s) = bytes_of (map lower_char s)"
    unfolding runes_ascii [OF a] by (induction s) (auto simp: lower_rune_char)
  moreover have "ascii (map lower_char s)"
    using a by (auto simp: ascii_def of_char_lower_char_ascii)
  ultimately show ?thesis
    by (simp add: ToLower_def encode_runes_ascii ascii_bytes)
qed

lemma lower_char_id: "\<not> (65 \<le> (of_char c :: nat) \<and> (of_char c :: nat) \<le> 90) \<Longrightarrow> lower_char c = c"
  by (simp only: lower_char_def if_False)

text \<open>A string whose ends are ASCII bytes other than white space is its own trimming.\<close>

lemma trim_left_b_id: "b < 0x80 \<Longrightarrow> \<not> is_space b \<Longrightarrow> trim_left_b (b # bs) = b # bs"
  by simp

lemma trim_right_b_id:
  assumes "bs \<noteq> []" "last bs < 0x80" "\<not> is_space (last bs)"
  shows "trim_right_b bs = bs"
  using assms by (subst trim_right_b.simps) (simp add: decode_last_rune_def)

lemma TrimSpace_Nil [simp]: "TrimSpace [] = []"
  by (simp add: TrimSpace_def trim_right_b.simps str_of_def)

lemma TrimSpace_id:
  assumes "s \<noteq> []" "(of_char (hd s) :: nat) < 0x80" "\<not> is_space (of_char (hd s))"
    and "(of_char (last s) :: nat) < 0x80" "\<not> is_space (of_char (last s))"
  shows "TrimSpace s = s"
proof -
  obtain c cs where s: "s = c # cs" using assms(1) by (cases s) auto
  have "trim_left_b (bytes_of s) = bytes_of s"
    using assms(2,3) by (simp add: s)
  moreover have "trim_right_b (bytes_of s) = bytes_of s"
  proof (rule trim_right_b_id)
    have "last (bytes_of s) = of_char (last s)"
      using assms(1) by (simp add: bytes_of_def last_map)
    then show "last (bytes_of s) < 0x80" "\<not> is_space (last (bytes_of s))"
      using assms(4,5) by simp_all
  qed (simp add: s)
  ultimately show ?thesis
    by (simp only: TrimSpace_def str_of_bytes_of)
qed

section \<open>Hexadecimal\<close>

lemma of_char_hex_digit: "n < 16 \<Longrightarrow> (of_char (hex_digit n) :: nat) = (if n < 10 then 48 + n else 87 + n)"
  by (simp add: hex_digit_def)

lemma hex_val_digit: "n < 16 \<Longrightarrow> hex_val (hex_digit n) = Some n"
  by (auto simp: hex_val_def of_char_hex_digit Let_def)

lemma hex_decode_encode [go_simps]: "hex_decode (hex_encode s) = Some s"
proof (induction s)
  case (Cons c s)
  have "(of_char c :: nat) div 16 < 16" "(of_char c :: nat) mod 16 < 16"
    using nat_of_char_less_256 [of c] by linarith+
  moreover have "char_of (16 * ((of_char c :: nat) div 16) + of_char c mod 16) = c"
    by simp
  ultimately show ?case
    using Cons by (simp add: hex_val_digit)
qed simp

lemma length_hex_encode [simp]: "length (hex_encode s) = 2 * length s"
  by (induction s) auto

lemma hex_encode_Nil [simp]: "hex_encode s = [] \<longleftrightarrow> s = []"
  by (cases s) auto

lemma hex_digit_lower: "n < 16 \<Longrightarrow> lower_char (hex_digit n) = hex_digit n"
  by (rule lower_char_id) (auto simp: of_char_hex_digit)

lemma hex_encode_set: "c \<in> set (hex_encode s) \<Longrightarrow> \<exists>n < 16. c = hex_digit n"
proof (induction s)
  case (Cons d s)
  have "(of_char d :: nat) div 16 < 16" "(of_char d :: nat) mod 16 < 16"
    using nat_of_char_less_256 [of d] by linarith+
  moreover have "c = hex_digit (of_char d div 16) \<or> c = hex_digit (of_char d mod 16)
      \<or> c \<in> set (hex_encode s)"
    using Cons.prems by simp
  ultimately show ?case using Cons.IH by blast
qed simp

lemma ascii_hex_encode [simp]: "ascii (hex_encode s)"
  unfolding ascii_def by (auto dest!: hex_encode_set simp: of_char_hex_digit)

lemma ToLower_hex_encode [go_simps]: "ToLower uc (hex_encode s) = hex_encode s"
proof -
  have "map lower_char (hex_encode s) = hex_encode s"
    by (rule map_idI) (auto dest: hex_encode_set simp: hex_digit_lower)
  then show ?thesis by (simp add: ToLower_ascii)
qed

lemma hex_encode_inj: "hex_encode s = hex_encode t \<longleftrightarrow> s = t"
  by (metis hex_decode_encode option.inject)

lemma newline_not_hex: "CHR 0x0A \<notin> set (hex_encode s)"
proof
  assume "CHR 0x0A \<in> set (hex_encode s)"
  then obtain n where "n < 16" "CHR 0x0A = hex_digit n" by (auto dest: hex_encode_set)
  then have "(of_char (CHR 0x0A) :: nat) = (if n < 10 then 48 + n else 87 + n)"
    using of_char_hex_digit by metis
  then show False by (simp split: if_splits)
qed

section \<open>Decimal\<close>

lemma dec_nat_digits: "c \<in> set (dec_nat n) \<Longrightarrow> \<exists>d :: nat. d < 10 \<and> c = char_of (48 + d)"
proof (induction n rule: dec_nat.induct)
  case (1 n)
  show ?case
  proof (cases "n < 10")
    case True
    with "1.prems" show ?thesis by (auto simp: dec_nat.simps [of n])
  next
    case False
    with "1.prems" consider "c \<in> set (dec_nat (n div 10))" | "c = char_of (48 + n mod 10)"
      by (auto simp: dec_nat.simps [of n])
    then show ?thesis
    proof cases
      case 1
      with "1.IH" False show ?thesis by blast
    next
      case 2
      then show ?thesis by (intro exI [of _ "n mod 10"]) simp
    qed
  qed
qed

lemma dec_nat_neq_Nil [simp]: "dec_nat n \<noteq> []"
  by (subst dec_nat.simps) simp

lemma newline_not_dec: "CHR 0x0A \<notin> set (dec_nat n)"
proof
  assume "CHR 0x0A \<in> set (dec_nat n)"
  then obtain d :: nat where d: "d < 10" "CHR 0x0A = char_of (48 + d)" by (auto dest: dec_nat_digits)
  then have "(of_char (CHR 0x0A) :: nat) = of_char (char_of (48 + d))" by metis
  then show False using d(1) by simp
qed

lemma newline_not_FormatInt: "CHR 0x0A \<notin> set (FormatInt i)"
  by (auto simp: FormatInt_def newline_not_dec)

text \<open>Decimal notation is injective: its value can be read back.\<close>

lemma dec_nat_value:
  "foldl (\<lambda>a c. 10 * a + ((of_char c :: nat) - 48)) a (dec_nat n)
    = a * 10 ^ length (dec_nat n) + n"
proof (induction n arbitrary: a rule: dec_nat.induct)
  case (1 n)
  show ?case
  proof (cases "n < 10")
    case True
    then show ?thesis by (simp add: dec_nat.simps [of n])
  next
    case False
    have "foldl (\<lambda>a c. 10 * a + ((of_char c :: nat) - 48)) a (dec_nat (n div 10))
        = a * 10 ^ length (dec_nat (n div 10)) + n div 10"
      using "1.IH" False by blast
    then show ?thesis
      using False by (simp add: dec_nat.simps [of n] algebra_simps)
  qed
qed

lemma dec_nat_inj: "dec_nat m = dec_nat n \<longleftrightarrow> m = n"
proof
  assume e: "dec_nat m = dec_nat n"
  have "m = foldl (\<lambda>a c. 10 * a + ((of_char c :: nat) - 48)) 0 (dec_nat m)"
    by (simp only: dec_nat_value mult_zero_left add_0)
  also have "\<dots> = n"
    by (simp only: e dec_nat_value mult_zero_left add_0)
  finally show "m = n" .
qed simp

lemma hd_dec_nat_digit: "hd (dec_nat n) \<noteq> CHR ''-''"
proof
  assume "hd (dec_nat n) = CHR ''-''"
  then have "CHR ''-'' \<in> set (dec_nat n)" by (metis dec_nat_neq_Nil hd_in_set)
  then obtain d :: nat where d: "d < 10" "CHR ''-'' = char_of (48 + d)" by (auto dest: dec_nat_digits)
  then have "(of_char (CHR ''-'') :: nat) = of_char (char_of (48 + d))" by metis
  then show False using d(1) by simp
qed

lemma FormatInt_inj: "FormatInt i = FormatInt j \<longleftrightarrow> i = j"
proof -
  have "dec_nat n \<noteq> CHR ''-'' # dec_nat m" for m n
    using hd_dec_nat_digit [of n] by (metis list.sel(1))
  then have "dec_nat n = CHR ''-'' # dec_nat m \<longleftrightarrow> False"
    "CHR ''-'' # dec_nat m = dec_nat n \<longleftrightarrow> False" for m n by metis+
  then show ?thesis
    by (auto simp: FormatInt_def dec_nat_inj)
qed

section \<open>Joining with newlines\<close>

lemma Join_Cons: "xs \<noteq> [] \<Longrightarrow> Join (x # xs) sep = x @ sep @ Join xs sep"
  by (cases xs) auto

lemma append_newline_eq:
  assumes "CHR 0x0A \<notin> set x" "CHR 0x0A \<notin> set y"
    and "x @ CHR 0x0A # s = y @ CHR 0x0A # t"
  shows "x = y \<and> s = t"
  using assms
proof (induction x arbitrary: y)
  case Nil
  then show ?case by (cases y) auto
next
  case (Cons c x)
  then show ?case by (cases y) auto
qed

text \<open>Fields without newlines can be recovered from their join.\<close>

lemma Join_newline_inj:
  assumes "length xs = length ys"
    and "\<forall>x \<in> set xs. CHR 0x0A \<notin> set x" "\<forall>y \<in> set ys. CHR 0x0A \<notin> set y"
    and "Join xs [CHR 0x0A] = Join ys [CHR 0x0A]"
  shows "xs = ys"
  using assms
proof (induction xs ys rule: list_induct2)
  case (Cons x xs y ys)
  show ?case
  proof (cases "xs = []")
    case True
    with Cons show ?thesis by simp
  next
    case False
    with Cons.hyps have "ys \<noteq> []" by auto
    with False Cons.prems have "x @ CHR 0x0A # Join xs [CHR 0x0A] = y @ CHR 0x0A # Join ys [CHR 0x0A]"
      by (simp add: Join_Cons)
    from append_newline_eq [OF _ _ this] Cons.prems
    have "x = y \<and> Join xs [CHR 0x0A] = Join ys [CHR 0x0A]" by simp
    with Cons.IH Cons.prems show ?thesis by simp
  qed
qed simp

end
