(* ===== verification/Protocol.thy ===== *)
theory Protocol
  imports GoStrings
begin

text \<open>
  \<^verbatim>\<open>src/internal/protocol/message.go\<close>: the wire message, its constructors and its
  validation. A Go pointer \<^verbatim>\<open>*Message\<close> that a function tests against \<^verbatim>\<open>nil\<close> is a
  \<open>message option\<close>. The error values of the package are the datatype \<open>perr\<close>.
  \<^verbatim>\<open>Validate\<close> rewrites the channel of the message in place, so its model returns the
  message as well as the error.

  A \<^verbatim>\<open>time.Time\<close> is its instant in nanoseconds since 1 January of year 1 UTC, the
  epoch of Go's representation, as an \<open>int\<close>; \<^verbatim>\<open>time.Unix\<close> adds its 64-bit
  argument to the epoch offset in 64-bit arithmetic, so a huge timestamp wraps around.
  The clock, the random nonce and SHA-256 are arguments.
\<close>

section \<open>Constants\<close>

definition Version :: int where "Version = 2"
definition MaxMessageSize :: nat where "MaxMessageSize = 64 * 1024"
definition MaxTextLen :: nat where "MaxTextLen = 4096"
definition MaxNickLen :: nat where "MaxNickLen = 32"
definition MaxChannelLen :: nat where "MaxChannelLen = 32"
definition MaxIDLen :: nat where "MaxIDLen = 128"
definition MaxPeerIDLen :: nat where "MaxPeerIDLen = 64"

text \<open>Durations are in nanoseconds.\<close>

definition second :: int where "second = 1000000000"
definition MaxFutureSkew :: int where "MaxFutureSkew = 2 * 60 * second"
definition MaxPastSkew :: int where "MaxPastSkew = 10 * 60 * second"

definition TypeHello :: string where "TypeHello = ''hello''"
definition TypeWelcome :: string where "TypeWelcome = ''welcome''"
definition TypeChat :: string where "TypeChat = ''chat''"
definition TypeJoin :: string where "TypeJoin = ''join''"
definition TypeLeave :: string where "TypeLeave = ''leave''"
definition TypePing :: string where "TypePing = ''ping''"
definition TypePong :: string where "TypePong = ''pong''"

lemmas type_defs =
  TypeHello_def TypeWelcome_def TypeChat_def TypeJoin_def TypeLeave_def TypePing_def TypePong_def

lemmas size_defs =
  MaxMessageSize_def MaxTextLen_def MaxNickLen_def MaxChannelLen_def MaxIDLen_def MaxPeerIDLen_def

section \<open>Messages\<close>

record message =
  mType :: string
  mID :: string
  mTimestamp :: "64 word"
  mVersion :: int
  mPeerID :: string
  mPublicKey :: string
  mNickname :: string
  mChannel :: string
  mSender :: string
  mText :: string
  mAction :: bool
  mTo :: string
  mSignature :: string
  mPort :: int
  mAddrs :: "string list"

definition zero_message :: message where
  "zero_message =
     \<lparr>mType = [], mID = [], mTimestamp = 0, mVersion = 0, mPeerID = [], mPublicKey = [],
      mNickname = [], mChannel = [], mSender = [], mText = [], mAction = False, mTo = [],
      mSignature = [], mPort = 0, mAddrs = []\<rparr>"

datatype perr =
    NilMessage | MissingType | InvalidID | MissingTimestamp
  | UnsupportedVersion int | InvalidPeerID | MissingPublicKey
  | MissingSender | MissingChannel | MissingText | TextTooLong | UnknownType string
  | EmptyChannelName | ChannelNameLength | InvalidChannelCharacter
  | TimestampFuture | TimestampOld
  | BadPrivateKey | Unsigned | BadPublicKey | IdentityMismatch | BadSignature

section \<open>Time\<close>

definition unixToInternal :: int where
  "unixToInternal = 62135596800"

definition time_Unix :: "64 word \<Rightarrow> int" where
  "time_Unix sec = sint (sec + word_of_int unixToInternal) * second"

text \<open>\<^verbatim>\<open>Time.Unix()\<close> of an instant.\<close>

definition unix_of :: "int \<Rightarrow> 64 word" where
  "unix_of t = word_of_int (t div second - unixToInternal)"

text \<open>\<^verbatim>\<open>Time.Sub\<close> saturates at the bounds of an \<^verbatim>\<open>int64\<close> duration.\<close>

definition time_Sub :: "int \<Rightarrow> int \<Rightarrow> int" where
  "time_Sub t u = max (- (2 ^ 63)) (min (2 ^ 63 - 1) (t - u))"

section \<open>Constructors\<close>

definition NewID :: "(string \<Rightarrow> string) \<Rightarrow> string \<Rightarrow> string \<Rightarrow> 64 word \<Rightarrow> string \<Rightarrow> string" where
  "NewID sha256 nonce sender timestamp payload =
     hex_encode (sha256 (sender @ be64 timestamp @ nonce @ payload))"

definition NewHello ::
  "(string \<Rightarrow> string) \<Rightarrow> int \<Rightarrow> string \<Rightarrow> string \<Rightarrow> string \<Rightarrow> string \<Rightarrow> message" where
  "NewHello sha256 now nonce peerID pubHex nick =
     (let ts = unix_of now in
      zero_message\<lparr>mType := TypeHello, mTimestamp := ts, mVersion := Version, mPeerID := peerID,
        mPublicKey := pubHex, mNickname := nick, mID := NewID sha256 nonce peerID ts TypeHello\<rparr>)"

definition NewWelcome ::
  "(string \<Rightarrow> string) \<Rightarrow> int \<Rightarrow> string \<Rightarrow> string \<Rightarrow> string \<Rightarrow> string \<Rightarrow> message" where
  "NewWelcome sha256 now nonce peerID pubHex nick =
     (let ts = unix_of now in
      zero_message\<lparr>mType := TypeWelcome, mTimestamp := ts, mVersion := Version, mPeerID := peerID,
        mPublicKey := pubHex, mNickname := nick, mID := NewID sha256 nonce peerID ts TypeWelcome\<rparr>)"

definition NewChat ::
  "(string \<Rightarrow> string) \<Rightarrow> int \<Rightarrow> string \<Rightarrow> string \<Rightarrow> string \<Rightarrow> string \<Rightarrow> string \<Rightarrow> bool \<Rightarrow> message" where
  "NewChat sha256 now nonce sender nick channel text action =
     (let ts = unix_of now in
      zero_message\<lparr>mType := TypeChat, mTimestamp := ts, mSender := sender, mNickname := nick,
        mChannel := channel, mText := text, mAction := action,
        mID := NewID sha256 nonce sender ts (channel @ [CHR 0x0A] @ text)\<rparr>)"

definition NewDirect ::
  "(string \<Rightarrow> string) \<Rightarrow> int \<Rightarrow> string \<Rightarrow> string \<Rightarrow> string \<Rightarrow> string \<Rightarrow> string \<Rightarrow> message" where
  "NewDirect sha256 now nonce sender nick to text =
     (let ts = unix_of now in
      zero_message\<lparr>mType := TypeChat, mTimestamp := ts, mSender := sender, mNickname := nick,
        mTo := to, mText := text,
        mID := NewID sha256 nonce sender ts (to @ [CHR 0x0A] @ text)\<rparr>)"

definition NewJoin ::
  "(string \<Rightarrow> string) \<Rightarrow> int \<Rightarrow> string \<Rightarrow> string \<Rightarrow> string \<Rightarrow> string \<Rightarrow> message" where
  "NewJoin sha256 now nonce sender nick channel =
     (let ts = unix_of now in
      zero_message\<lparr>mType := TypeJoin, mTimestamp := ts, mSender := sender, mNickname := nick,
        mChannel := channel, mID := NewID sha256 nonce sender ts (''join:'' @ channel)\<rparr>)"

definition NewLeave ::
  "(string \<Rightarrow> string) \<Rightarrow> int \<Rightarrow> string \<Rightarrow> string \<Rightarrow> string \<Rightarrow> string \<Rightarrow> message" where
  "NewLeave sha256 now nonce sender nick channel =
     (let ts = unix_of now in
      zero_message\<lparr>mType := TypeLeave, mTimestamp := ts, mSender := sender, mNickname := nick,
        mChannel := channel, mID := NewID sha256 nonce sender ts (''leave:'' @ channel)\<rparr>)"

definition NewPing :: "(string \<Rightarrow> string) \<Rightarrow> int \<Rightarrow> string \<Rightarrow> string \<Rightarrow> message" where
  "NewPing sha256 now nonce sender =
     (let ts = unix_of now in
      zero_message\<lparr>mType := TypePing, mTimestamp := ts, mID := NewID sha256 nonce sender ts TypePing\<rparr>)"

definition NewPong :: "(string \<Rightarrow> string) \<Rightarrow> int \<Rightarrow> string \<Rightarrow> string \<Rightarrow> message" where
  "NewPong sha256 now nonce sender =
     (let ts = unix_of now in
      zero_message\<lparr>mType := TypePong, mTimestamp := ts, mID := NewID sha256 nonce sender ts TypePong\<rparr>)"

section \<open>Validation\<close>

definition IsRoutable :: "string \<Rightarrow> bool" where
  "IsRoutable t \<longleftrightarrow> t = TypeChat \<or> t = TypeJoin \<or> t = TypeLeave"

definition ValidNickname :: "string \<Rightarrow> bool" where
  "ValidNickname s0 =
     (let s = TrimSpace s0 in
      if s = [] \<or> RuneCount s > MaxNickLen then False
      else (\<forall>r \<in> set (runes s). \<not> (r < 32 \<or> r = 127)))"

definition channel_rune :: "nat \<Rightarrow> bool" where
  "channel_rune r \<longleftrightarrow> (97 \<le> r \<and> r \<le> 122) \<or> (48 \<le> r \<and> r \<le> 57) \<or> r = 95 \<or> r = 45"

definition NormalizeChannel :: "unicode \<Rightarrow> string \<Rightarrow> perr + string" where
  "NormalizeChannel uc s0 =
     (let s1 = TrimSpace s0 in
      if s1 = [] then Inl EmptyChannelName
      else
        (let s2 = (if \<not> HasPrefix s1 ''#'' then ''#'' @ s1 else s1);
             s = ToLower uc s2 in
         if length s < 2 \<or> length s > MaxChannelLen then Inl ChannelNameLength
         else if \<forall>r \<in> set (tl (runes s)). channel_rune r then Inr s
         else Inl InvalidChannelCharacter))"

fun ValidateEnvelope :: "message option \<Rightarrow> perr option" where
  "ValidateEnvelope None = Some NilMessage"
| "ValidateEnvelope (Some m) =
     (if mType m = [] then Some MissingType
      else if mID m = [] \<or> length (mID m) > MaxIDLen then Some InvalidID
      else if mTimestamp m = 0 then Some MissingTimestamp
      else None)"

definition validate_text :: "message \<Rightarrow> perr option" where
  "validate_text m =
     (if mText m = [] then Some MissingText
      else if RuneCount (mText m) > MaxTextLen then Some TextTooLong
      else None)"

definition validate_chat :: "unicode \<Rightarrow> message \<Rightarrow> perr option \<times> message" where
  "validate_chat uc m =
     (if mSender m = [] then (Some MissingSender, m)
      else if mTo m = [] then
        (if mChannel m = [] then (Some MissingChannel, m)
         else
           (case NormalizeChannel uc (mChannel m) of
              Inl e \<Rightarrow> (Some e, m)
            | Inr ch \<Rightarrow> (let m' = m\<lparr>mChannel := ch\<rparr> in (validate_text m', m'))))
      else (validate_text m, m))"

text \<open>The switch on the message type.\<close>

definition validate_type :: "unicode \<Rightarrow> message \<Rightarrow> perr option \<times> message" where
  "validate_type uc m =
     (if mType m = TypeHello \<or> mType m = TypeWelcome then
        (if mVersion m \<noteq> Version then (Some (UnsupportedVersion (mVersion m)), m)
         else if length (mPeerID m) \<noteq> MaxPeerIDLen then (Some InvalidPeerID, m)
         else if mPublicKey m = [] then (Some MissingPublicKey, m)
         else (None, m))
      else if mType m = TypeChat then validate_chat uc m
      else if mType m = TypeJoin \<or> mType m = TypeLeave then
        (if mSender m = [] then (Some MissingSender, m)
         else
           (case NormalizeChannel uc (mChannel m) of
              Inl e \<Rightarrow> (Some e, m)
            | Inr ch \<Rightarrow> (None, m\<lparr>mChannel := ch\<rparr>)))
      else if mType m = TypePing \<or> mType m = TypePong then (None, m)
      else (Some (UnknownType (mType m)), m))"

fun Validate :: "unicode \<Rightarrow> message option \<Rightarrow> perr option \<times> message option" where
  "Validate uc None = (ValidateEnvelope None, None)"
| "Validate uc (Some m) =
     (case ValidateEnvelope (Some m) of
        Some e \<Rightarrow> (Some e, Some m)
      | None \<Rightarrow> (let (e, m') = validate_type uc m in (e, Some m')))"

fun Fresh :: "message option \<Rightarrow> int \<Rightarrow> perr option" where
  "Fresh None now = Some MissingTimestamp"
| "Fresh (Some m) now =
     (if mTimestamp m = 0 then Some MissingTimestamp
      else
        (let ts = time_Unix (mTimestamp m) in
         if ts > now + MaxFutureSkew then Some TimestampFuture
         else if time_Sub now ts > MaxPastSkew then Some TimestampOld
         else None))"

text \<open>The documented shape of a channel name: \<^verbatim>\<open>#[a-z0-9_-]{1,31}\<close>.\<close>

definition channel_name :: "string \<Rightarrow> bool" where
  "channel_name s \<longleftrightarrow>
     2 \<le> length s \<and> length s \<le> 32 \<and> hd s = CHR ''#''
     \<and> (\<forall>c \<in> set (tl s). c \<in> set ''abcdefghijklmnopqrstuvwxyz0123456789_-'')"

text \<open>Concrete values for the witnesses: tables that change nothing, an instant, a message.\<close>

definition sample_uc :: unicode where
  "sample_uc = \<lparr>uc_lower = id, uc_fold = id\<rparr>"

definition sample_now :: int where
  "sample_now = 63922987000 * second"

definition sample_join :: message where
  "sample_join = zero_message\<lparr>mType := ''join'', mID := ''x'', mTimestamp := 1787390200, mSender := ''a'',
     mChannel := ''#general''\<rparr>"

section \<open>Channel names\<close>

lemma runes_hash: "runes (CHR ''#'' # s) = 35 # runes s"
  by (simp add: runes_def)

lemma HasPrefix_hash: "HasPrefix s ''#'' \<longleftrightarrow> (\<exists>t. s = CHR ''#'' # t)"
  by (cases s) (auto simp: HasPrefix_def)

lemma ToLower_hash: "\<exists>t'. ToLower uc (CHR ''#'' # t) = CHR ''#'' # t'"
  by (simp add: ToLower_def runes_hash lower_rune_def encode_runes_def encode_rune_def str_of_def
      char_of_eq_iff)

lemma channel_rune_lt: "channel_rune r \<Longrightarrow> r < 0x80"
  by (auto simp: channel_rune_def)

lemma channel_rune_char:
  "channel_rune (of_char c) \<longleftrightarrow> c \<in> set ''abcdefghijklmnopqrstuvwxyz0123456789_-''"
proof -
  have "c \<in> set ''abcdefghijklmnopqrstuvwxyz0123456789_-'' \<longleftrightarrow>
      (of_char c :: nat) \<in> of_char ` set ''abcdefghijklmnopqrstuvwxyz0123456789_-''"
    by (simp only: inj_image_mem_iff [OF inj_of_char])
  also have "\<dots> \<longleftrightarrow> (of_char c :: nat) \<in> {97..122} \<union> {48..57} \<union> {95, 45}"
    by (rule arg_cong [where f = "\<lambda>S. _ \<in> S"]) code_simp
  also have "\<dots> \<longleftrightarrow> channel_rune (of_char c)"
    by (auto simp: channel_rune_def)
  finally show ?thesis by simp
qed

lemma channel_name_iff:
  "channel_name s \<longleftrightarrow>
     (\<exists>t. s = CHR ''#'' # t \<and> 1 \<le> length t \<and> length t \<le> 31 \<and> (\<forall>c \<in> set t. channel_rune (of_char c)))"
  unfolding channel_name_def channel_rune_char by (cases s) auto

lemma channel_name_neq_Nil: "channel_name s \<Longrightarrow> s \<noteq> []"
  by (auto simp: channel_name_iff)

lemma NormalizeChannel_name:
  assumes "NormalizeChannel uc s0 = Inr s"
  shows "channel_name s"
proof -
  define s2 where "s2 = (if \<not> HasPrefix (TrimSpace s0) ''#'' then ''#'' @ TrimSpace s0 else TrimSpace s0)"
  have s: "s = ToLower uc s2" and len: "2 \<le> length s" "length s \<le> 32"
    and rs: "\<forall>r \<in> set (tl (runes s)). channel_rune r"
    using assms unfolding NormalizeChannel_def s2_def Let_def
    by (auto simp: MaxChannelLen_def split: if_splits)
  obtain t where "s2 = CHR ''#'' # t"
    unfolding s2_def by (cases "HasPrefix (TrimSpace s0) ''#''") (auto simp: HasPrefix_hash)
  then obtain t' where t': "s = CHR ''#'' # t'"
    using ToLower_hash s by metis
  have "\<forall>r \<in> set (runes t'). channel_rune r"
    using rs by (simp add: t' runes_hash)
  moreover from this have "runes t' = bytes_of t'"
    using runes_all_ascii channel_rune_lt by blast
  ultimately show ?thesis
    using len by (auto simp: channel_name_iff t' bytes_of_def)
qed

lemma channel_char_facts:
  assumes "channel_rune (of_char c)"
  shows "(of_char c :: nat) < 0x80" "\<not> is_space (of_char c)" "lower_char c = c"
  using assms by (auto simp: channel_rune_def is_space_def intro: lower_char_id)

lemma NormalizeChannel_id:
  assumes "channel_name s"
  shows "NormalizeChannel uc s = Inr s"
proof -
  obtain t where t: "s = CHR ''#'' # t" "1 \<le> length t" "length t \<le> 31"
    and cs: "\<forall>c \<in> set t. channel_rune (of_char c)"
    using assms by (auto simp: channel_name_iff)
  have t0: "t \<noteq> []" using t(2) by auto
  have asc: "ascii t" and low: "map lower_char t = t"
    using cs channel_char_facts(1,3) by (auto simp: ascii_def intro: map_idI)
  have "TrimSpace s = s"
    using t0 cs channel_char_facts [of "last t"]
    by (intro TrimSpace_id) (auto simp: t is_space_def)
  moreover have "ToLower uc s = s"
    using asc low by (simp add: t ToLower_ascii) (simp add: lower_char_def)
  moreover have "\<forall>r \<in> set (tl (runes s)). channel_rune r"
    using cs asc by (auto simp: t runes_hash runes_ascii bytes_of_def)
  ultimately show ?thesis
    using t t0 by (simp add: NormalizeChannel_def HasPrefix_def MaxChannelLen_def Let_def)
qed

section \<open>Validation changes the channel only\<close>

lemma ValidateEnvelope_channel [simp]:
  "ValidateEnvelope (Some (m\<lparr>mChannel := ch\<rparr>)) = ValidateEnvelope (Some m)"
  by simp

declare ValidateEnvelope.simps(2) [simp del]

lemma Validate_ok_iff:
  "Validate uc (Some m) = (None, Some m') \<longleftrightarrow>
     ValidateEnvelope (Some m) = None \<and> validate_type uc m = (None, m')"
  by (auto split: option.splits prod.splits)

lemma same_channel: "\<exists>ch. m = m\<lparr>mChannel := ch\<rparr>"
  by (rule exI [of _ "mChannel m"]) simp

lemma validate_chat_shape: "validate_chat uc m = (e, m') \<Longrightarrow> \<exists>ch. m' = m\<lparr>mChannel := ch\<rparr>"
  by (auto simp: validate_chat_def Let_def same_channel split: if_splits sum.splits)

lemma validate_type_shape: "validate_type uc m = (e, m') \<Longrightarrow> \<exists>ch. m' = m\<lparr>mChannel := ch\<rparr>"
  by (auto simp: validate_type_def same_channel validate_chat_shape split: if_splits sum.splits)

lemma validate_chat_idem:
  assumes "validate_chat uc m = (None, m')"
  shows "validate_chat uc m' = (None, m')"
proof (cases "mTo m = []")
  case True
  then obtain ch where "m' = m\<lparr>mChannel := ch\<rparr>" "NormalizeChannel uc (mChannel m) = Inr ch"
    and ok: "mSender m \<noteq> []" "validate_text m = None"
    using assms by (auto simp: validate_chat_def validate_text_def Let_def split: if_splits sum.splits)
  moreover from this have "channel_name ch" by (simp add: NormalizeChannel_name)
  ultimately show ?thesis
    using True
    by (auto simp: validate_chat_def validate_text_def Let_def NormalizeChannel_id
        channel_name_neq_Nil split: if_splits)
next
  case False
  then show ?thesis
    using assms by (auto simp: validate_chat_def split: if_splits)
qed

lemma validate_type_idem:
  assumes "validate_type uc m = (None, m')"
  shows "validate_type uc m' = (None, m')"
proof -
  obtain c where m': "m' = m\<lparr>mChannel := c\<rparr>"
    using validate_type_shape assms by blast
  consider "mType m = TypeChat" | "mType m = TypeJoin \<or> mType m = TypeLeave"
    | "mType m \<noteq> TypeChat" "mType m \<noteq> TypeJoin" "mType m \<noteq> TypeLeave" by blast
  then show ?thesis
  proof cases
    case 1
    then have "validate_chat uc m = (None, m')"
      using assms by (simp add: validate_type_def type_defs)
    then have "validate_chat uc m' = (None, m')" by (rule validate_chat_idem)
    then show ?thesis
      using 1 by (simp add: m' validate_type_def type_defs)
  next
    case 2
    then have "mSender m \<noteq> []" "NormalizeChannel uc (mChannel m) = Inr (mChannel m')"
      using assms by (auto simp: validate_type_def type_defs split: if_splits sum.splits)
    moreover from this have "NormalizeChannel uc (mChannel m') = Inr (mChannel m')"
      by (blast intro: NormalizeChannel_id NormalizeChannel_name)
    ultimately show ?thesis
      using 2 by (auto simp: m' validate_type_def type_defs)
  next
    case 3
    then have "m' = m"
      using assms by (auto simp: validate_type_def split: if_splits)
    then show ?thesis using assms by simp
  qed
qed

lemma validate_type_channel_id:
  assumes "IsRoutable (mType m)" "validate_type uc m = (None, m')"
    and "mTo m = [] \<or> mType m \<noteq> TypeChat"
  shows "channel_name (mChannel m')"
  using assms
  by (auto simp: IsRoutable_def validate_type_def validate_chat_def type_defs Let_def
      dest: NormalizeChannel_name split: if_splits sum.splits)

section \<open>Freshness\<close>

lemma sint_64_range: "- (2 ^ 63) \<le> sint (w :: 64 word)" "sint (w :: 64 word) < 2 ^ 63"
  using sint_greater_eq [of w] sint_less [of w] by simp_all

text \<open>The epoch offset wraps for the largest timestamps only.\<close>

lemma time_Unix_eq:
  "time_Unix w =
     (if sint w + unixToInternal < 2 ^ 63 then sint w + unixToInternal
      else sint w + unixToInternal - 2 ^ 64) * second"
proof -
  let ?s = "sint w + unixToInternal"
  have "sint (w + word_of_int unixToInternal) = signed_take_bit 63 ?s"
    by (simp add: signed_take_bit_add sint_word_ariths sint_sbintrunc' unixToInternal_def)
  moreover have "signed_take_bit 63 ?s = (if ?s < 2 ^ 63 then ?s else ?s - 2 ^ 64)"
  proof (cases "?s < 2 ^ 63")
    case True
    then show ?thesis
      using sint_64_range [of w] by (simp add: signed_take_bit_int_eq_self unixToInternal_def)
  next
    case False
    have "take_bit (Suc 63) ?s = take_bit (Suc 63) (?s - 2 ^ 64)"
      by (simp add: take_bit_eq_mod)
    then have "signed_take_bit 63 ?s = signed_take_bit 63 (?s - 2 ^ 64)"
      by (simp only: signed_take_bit_eq_iff_take_bit_eq)
    also have "\<dots> = ?s - 2 ^ 64"
      using False sint_64_range [of w]
      by (intro signed_take_bit_int_eq_self) (simp_all add: unixToInternal_def)
    finally show ?thesis using False by simp
  qed
  ultimately show ?thesis by (simp add: time_Unix_def)
qed

lemma time_Sub_gt: "0 \<le> d \<Longrightarrow> d < 2 ^ 63 - 1 \<Longrightarrow> time_Sub t u > d \<longleftrightarrow> t - u > d"
  by (auto simp: time_Sub_def)

text \<open>
  For a clock below the year 146 billion the check is the plain window on the unwrapped
  timestamp: a timestamp whose conversion wraps around is rejected as well.
\<close>

lemma sint_word_of_int: "- (2 ^ 63) \<le> k \<Longrightarrow> k < 2 ^ 63 \<Longrightarrow> sint (word_of_int k :: 64 word) = k"
  by (simp add: sint_sbintrunc' signed_take_bit_int_eq_self)

lemma sint_unix_of:
  "unixToInternal * second \<le> t \<Longrightarrow> t < 2 ^ 61 * second \<Longrightarrow> sint (unix_of t) = t div second - unixToInternal"
  unfolding unix_of_def by (rule sint_word_of_int) (auto simp: second_def unixToInternal_def)

lemma Fresh_window:
  assumes "0 \<le> now" "now < 2 ^ 62 * second"
  shows "Fresh (Some m) now = None \<longleftrightarrow>
    mTimestamp m \<noteq> 0
    \<and> now - MaxPastSkew \<le> (sint (mTimestamp m) + unixToInternal) * second
    \<and> (sint (mTimestamp m) + unixToInternal) * second \<le> now + MaxFutureSkew"
proof -
  let ?s = "sint (mTimestamp m) + unixToInternal"
  have old: "time_Sub now t > MaxPastSkew \<longleftrightarrow> now - t > MaxPastSkew" for t
    by (rule time_Sub_gt) (simp_all add: MaxPastSkew_def second_def)
  show ?thesis
  proof (cases "?s < 2 ^ 63")
    case True
    then show ?thesis
      by (auto simp: Let_def time_Unix_eq old)
  next
    case False
    have "(?s - 2 ^ 64) * second < now - MaxPastSkew"
      using assms sint_64_range [of "mTimestamp m"]
      by (simp add: second_def MaxPastSkew_def unixToInternal_def)
    moreover have "now + MaxFutureSkew < ?s * second"
      using assms False by (simp add: second_def MaxFutureSkew_def)
    ultimately show ?thesis
      using False by (auto simp: Let_def time_Unix_eq old)
  qed
qed

declare Fresh.simps(2) [simp del]

section \<open>The sample message\<close>

lemma sample_join_simps [simp]:
  "mType sample_join = ''join''" "mID sample_join = ''x''" "mTo sample_join = []"
  "mSender sample_join = ''a''" "mChannel sample_join = ''#general''"
  by (simp_all add: sample_join_def zero_message_def)

lemma sample_channel: "channel_name ''#general''"
  by (simp add: channel_name_iff channel_rune_def)

lemma sample_normalized: "NormalizeChannel sample_uc ''General'' = Inr ''#general''"
  by (simp add: NormalizeChannel_def Let_def HasPrefix_def TrimSpace_id is_space_def ToLower_ascii
      lower_char_def char_of_def bit_iff_odd MaxChannelLen_def runes_ascii bytes_of_def channel_rune_def)

lemma sample_join_valid: "Validate sample_uc (Some sample_join) = (None, Some sample_join)"
  using NormalizeChannel_id [OF sample_channel, of sample_uc]
  by (simp add: Validate_ok_iff ValidateEnvelope.simps validate_type_def type_defs size_defs
      sample_join_def)

lemma sample_join_fresh: "Fresh (Some sample_join) sample_now = None"
  by (subst Fresh_window) (simp_all add: sample_join_def sample_now_def second_def unixToInternal_def
      MaxPastSkew_def MaxFutureSkew_def)

section \<open>Properties\<close>

text \<open>
  Whatever the Unicode tables, the names NormalizeChannel returns are exactly the names of
  the documented shape \<^verbatim>\<open>#[a-z0-9_-]{1,31}\<close>, and these are exactly the names it leaves
  unchanged, so normalising twice is normalising once.
\<close>

theorem normalize_channel_shape:
  "((\<exists>s. NormalizeChannel uc s = Inr t) \<longleftrightarrow> channel_name t)
   \<and> (NormalizeChannel uc t = Inr t \<longleftrightarrow> channel_name t)"
  using NormalizeChannel_name NormalizeChannel_id by blast

text \<open>
  Validate accepts a message in the form it leaves it: when it succeeds, the message it
  leaves behind differs from the original at most in the channel, and validating that message
  again succeeds and changes nothing.
\<close>

theorem validate_idempotent:
  assumes "Validate uc (Some m) = (None, Some m')"
  shows "Validate uc (Some m') = (None, Some m') \<and> m' = m\<lparr>mChannel := mChannel m'\<rparr>"
proof -
  have ok: "ValidateEnvelope (Some m) = None" "validate_type uc m = (None, m')"
    using assms unfolding Validate_ok_iff by blast+
  then obtain ch where m': "m' = m\<lparr>mChannel := ch\<rparr>"
    using validate_type_shape by blast
  have "validate_type uc m' = (None, m')"
    using ok(2) by (rule validate_type_idem)
  then show ?thesis
    using ok(1) unfolding Validate_ok_iff by (simp add: m')
qed

text \<open>
  Freshness is a plain window on the timestamp, from 10 minutes before to 2 minutes after the
  local clock, for every 64-bit timestamp: the wrap-around of the conversion to
  \<^verbatim>\<open>time.Time\<close> and the saturation of \<^verbatim>\<open>Sub\<close> never let a message outside the window pass.
\<close>

theorem fresh_window:
  assumes "0 \<le> now" "now < 2 ^ 62 * second"
  shows "Fresh (Some m) now = None \<longleftrightarrow>
    mTimestamp m \<noteq> 0
    \<and> now - 600 * second \<le> (sint (mTimestamp m) + unixToInternal) * second
    \<and> (sint (mTimestamp m) + unixToInternal) * second \<le> now + 120 * second"
  using Fresh_window [OF assms, of m] by (simp add: MaxPastSkew_def MaxFutureSkew_def)

end
