(* ===== verification/Seen.thy ===== *)
theory Seen
  imports Protocol
begin

text \<open>
  \<^verbatim>\<open>src/internal/router/seen.go\<close>: the bounded, expiring cache of message ids.
  The clock reading of \<^verbatim>\<open>Add\<close> is an argument. The state is the map from ids to the
  time they were recorded and the queue of ids in insertion order; \<open>seen_inv\<close> says that
  both hold the same ids, each once, at most \<^verbatim>\<open>max\<close> of them.

  The locale \<open>seen_cache\<close> is the contract the router relies on: an id is accepted
  once, and is remembered while fewer than \<^verbatim>\<open>max\<close> newer ids have been added and the
  time to live has not passed. \<open>SeenStore\<close> implements it.
\<close>

section \<open>The store\<close>

record seen_store =
  ss_ttl :: int
  ss_max :: nat
  ss_m :: "(string, int) gomap"
  ss_q :: "string list"

definition NewSeenStore :: "int \<Rightarrow> int \<Rightarrow> seen_store" where
  "NewSeenStore ttl mx =
     \<lparr>ss_ttl = (if ttl \<le> 0 then 24 * 3600 * second else ttl),
      ss_max = (if mx \<le> 0 then 50000 else nat mx),
      ss_m = gm_empty, ss_q = []\<rparr>"

text \<open>The loop of \<^verbatim>\<open>sweepLocked\<close> over the queue: the map and the new queue.\<close>

fun sweep_loop :: "int \<Rightarrow> (string, int) gomap \<Rightarrow> string list \<Rightarrow> (string, int) gomap \<times> string list" where
  "sweep_loop cutoff m [] = (m, [])"
| "sweep_loop cutoff m (i # q) =
     (case gm_get m i of
        None \<Rightarrow> sweep_loop cutoff (gm_del i m) q
      | Some t \<Rightarrow>
          if t < cutoff then sweep_loop cutoff (gm_del i m) q
          else (let (m', nq) = sweep_loop cutoff m q in (m', i # nq)))"

definition sweepLocked :: "int \<Rightarrow> seen_store \<Rightarrow> seen_store" where
  "sweepLocked now s =
     (let (m', nq) = sweep_loop (now - ss_ttl s) (ss_m s) (ss_q s) in s\<lparr>ss_m := m', ss_q := nq\<rparr>)"

text \<open>The eviction loop of \<^verbatim>\<open>Add\<close>.\<close>

fun evict :: "nat \<Rightarrow> (string, int) gomap \<Rightarrow> string list \<Rightarrow> (string, int) gomap \<times> string list" where
  "evict mx m [] = (m, [])"
| "evict mx m (old # q) =
     (if gm_len m \<ge> mx then evict mx (gm_del old m) q else (m, old # q))"

text \<open>The store of \<^verbatim>\<open>Add\<close> right before the new id is appended.\<close>

definition make_room :: "int \<Rightarrow> seen_store \<Rightarrow> seen_store" where
  "make_room now s =
     (if gm_len (ss_m s) \<ge> ss_max s then
        (let s' = sweepLocked now s; (m', q') = evict (ss_max s') (ss_m s') (ss_q s') in
         s'\<lparr>ss_m := m', ss_q := q'\<rparr>)
      else s)"

definition Add :: "string \<Rightarrow> int \<Rightarrow> seen_store \<Rightarrow> bool \<times> seen_store" where
  "Add i now s =
     (if gm_has (ss_m s) i then (False, s)
      else
        (let s1 = make_room now s in
         (True, s1\<lparr>ss_m := gm_put i now (ss_m s1), ss_q := ss_q s1 @ [i]\<rparr>)))"

definition Has :: "seen_store \<Rightarrow> string \<Rightarrow> bool" where
  "Has s i \<longleftrightarrow> gm_has (ss_m s) i"

definition Len :: "seen_store \<Rightarrow> nat" where
  "Len s = gm_len (ss_m s)"

definition Sweep :: "int \<Rightarrow> seen_store \<Rightarrow> seen_store" where
  "Sweep now s = sweepLocked now s"

definition seen_inv :: "seen_store \<Rightarrow> bool" where
  "seen_inv s \<longleftrightarrow>
     0 < ss_ttl s \<and> 0 < ss_max s \<and> gm_wf (ss_m s) \<and> distinct (ss_q s)
     \<and> set (ss_q s) = dom (gm_get (ss_m s)) \<and> gm_len (ss_m s) \<le> ss_max s"

text \<open>The id is in the queue with at most \<open>k\<close> newer ids behind it.\<close>

definition recent :: "string \<Rightarrow> nat \<Rightarrow> string list \<Rightarrow> bool" where
  "recent i k q \<longleftrightarrow> (\<exists>pre post. q = pre @ i # post \<and> length post \<le> k)"

definition remembers :: "seen_store \<Rightarrow> string \<Rightarrow> nat \<Rightarrow> int \<Rightarrow> bool" where
  "remembers s i k t \<longleftrightarrow> recent i k (ss_q s) \<and> (\<exists>t' \<ge> t. gm_get (ss_m s) i = Some t')"

section \<open>The contract of a cache of seen ids\<close>

datatype seen_op = OpAdd string int | OpSweep int

fun op_time :: "seen_op \<Rightarrow> int" where
  "op_time (OpAdd i now) = now"
| "op_time (OpSweep now) = now"

fun is_add :: "seen_op \<Rightarrow> bool" where
  "is_add (OpAdd i now) = True"
| "is_add (OpSweep now) = False"

fun op_step ::
  "(string \<Rightarrow> int \<Rightarrow> 's \<Rightarrow> bool \<times> 's) \<Rightarrow> (int \<Rightarrow> 's \<Rightarrow> 's) \<Rightarrow> seen_op \<Rightarrow> 's \<Rightarrow> 's" where
  "op_step add sweep (OpAdd i now) s = snd (add i now s)"
| "op_step add sweep (OpSweep now) s = sweep now s"

locale seen_cache =
  fixes add :: "string \<Rightarrow> int \<Rightarrow> 's \<Rightarrow> bool \<times> 's"
    and has :: "'s \<Rightarrow> string \<Rightarrow> bool"
    and sweep :: "int \<Rightarrow> 's \<Rightarrow> 's"
    and invar :: "'s \<Rightarrow> bool"
    and cap :: "'s \<Rightarrow> nat"
    and ttl :: "'s \<Rightarrow> int"
    and rem :: "'s \<Rightarrow> string \<Rightarrow> nat \<Rightarrow> int \<Rightarrow> bool"
  assumes add_seen: "has s i \<Longrightarrow> add i now s = (False, s)"
    and add_new: "invar s \<Longrightarrow> \<not> has s i \<Longrightarrow> fst (add i now s) \<and> rem (snd (add i now s)) i 0 now"
    and rem_has: "rem s i k t \<Longrightarrow> has s i"
    and rem_mono: "rem s i k t \<Longrightarrow> k \<le> k' \<Longrightarrow> rem s i k' t"
    and rem_add: "invar s \<Longrightarrow> rem s i k t \<Longrightarrow> Suc k < cap s \<Longrightarrow> now \<le> t + ttl s
      \<Longrightarrow> rem (snd (add j now s)) i (Suc k) t"
    and rem_sweep: "invar s \<Longrightarrow> rem s i k t \<Longrightarrow> now \<le> t + ttl s \<Longrightarrow> rem (sweep now s) i k t"
    and invar_add: "invar s \<Longrightarrow> invar (snd (add j now s))"
    and invar_sweep: "invar s \<Longrightarrow> invar (sweep now s)"
    and cap_add: "cap (snd (add j now s)) = cap s"
    and cap_sweep: "cap (sweep now s) = cap s"
    and ttl_add: "ttl (snd (add j now s)) = ttl s"
    and ttl_sweep: "ttl (sweep now s) = ttl s"
begin

lemma op_step_frame: "invar s \<Longrightarrow> invar (op_step add sweep p s)" "cap (op_step add sweep p s) = cap s" "ttl (op_step add sweep p s) = ttl s"
  by (cases p; simp add: invar_add invar_sweep cap_add cap_sweep ttl_add ttl_sweep)+

lemma fold_frame:
  "invar s \<Longrightarrow> invar (fold (op_step add sweep) ops s)"
  "cap (fold (op_step add sweep) ops s) = cap s" "ttl (fold (op_step add sweep) ops s) = ttl s"
  by (induction ops arbitrary: s) (simp_all add: op_step_frame)

lemma op_step_rem:
  assumes "invar s" "rem s i k t" "op_time p \<le> t + ttl s" "is_add p \<Longrightarrow> Suc k < cap s"
  shows "rem (op_step add sweep p s) i (if is_add p then Suc k else k) t"
  using assms by (cases p) (auto intro: rem_add rem_sweep)

text \<open>An id stays remembered while few enough ids are added and nothing happens after its time to live.\<close>

lemma rem_fold:
  assumes "invar s" "rem s i k t" "k + length (filter is_add ops) < cap s"
    and "\<forall>p \<in> set ops. op_time p \<le> t + ttl s"
  shows "rem (fold (op_step add sweep) ops s) i (k + length (filter is_add ops)) t"
  using assms
proof (induction ops arbitrary: s k)
  case (Cons p ops)
  let ?k = "if is_add p then Suc k else k"
  have "rem (op_step add sweep p s) i ?k t"
    using Cons.prems by (intro op_step_rem) auto
  then have "rem (fold (op_step add sweep) ops (op_step add sweep p s)) i (?k + length (filter is_add ops)) t"
    using Cons.prems by (intro Cons.IH) (auto simp: op_step_frame split: if_splits)
  then show ?case by (auto split: if_splits)
qed simp

lemma add_again_rejected:
  assumes "invar s" "fst (add i t s)" "length (filter is_add ops) < cap s"
    and "\<forall>p \<in> set ops. op_time p \<le> t + ttl s"
  shows "add i now (fold (op_step add sweep) ops (snd (add i t s))) = (False, fold (op_step add sweep) ops (snd (add i t s)))"
proof -
  let ?s = "snd (add i t s)"
  have "\<not> has s i" using assms(2) add_seen by force
  with assms(1) have "rem ?s i 0 t" using add_new by blast
  then have "rem (fold (op_step add sweep) ops ?s) i (0 + length (filter is_add ops)) t"
    using assms by (intro rem_fold) (simp_all add: invar_add cap_add ttl_add)
  then show ?thesis by (intro add_seen rem_has)
qed

end

section \<open>What the loops compute\<close>

lemma sweep_loop_queue:
  "distinct q \<Longrightarrow> set q \<subseteq> dom (gm_get m) \<Longrightarrow>
   snd (sweep_loop cutoff m q) = filter (\<lambda>i. cutoff \<le> the (gm_get m i)) q"
proof (induction q arbitrary: m)
  case (Cons i q)
  then obtain t where t: "gm_get m i = Some t" by auto
  have "filter (\<lambda>j. cutoff \<le> the (gm_get (gm_del i m) j)) q = filter (\<lambda>j. cutoff \<le> the (gm_get m j)) q"
    using Cons.prems by (intro filter_cong) (auto simp: gm_laws)
  moreover have "set q \<subseteq> dom (gm_get (gm_del i m))"
    using Cons.prems by (auto simp: gm_laws)
  ultimately show ?case
    using Cons t by (auto simp: case_prod_unfold Let_def)
qed simp

lemma sweep_loop_map:
  "distinct q \<Longrightarrow> set q \<subseteq> dom (gm_get m) \<Longrightarrow>
   gm_get (fst (sweep_loop cutoff m q)) k =
     (if k \<in> set q \<and> the (gm_get m k) < cutoff then None else gm_get m k)"
proof (induction q arbitrary: m)
  case (Cons i q)
  then obtain t where t: "gm_get m i = Some t" by auto
  have "set q \<subseteq> dom (gm_get (gm_del i m))"
    using Cons.prems by (auto simp: gm_laws)
  with Cons t show ?case
    by (auto simp: gm_laws case_prod_unfold Let_def)
qed simp

lemma sweep_loop_wf: "gm_wf m \<Longrightarrow> gm_wf (fst (sweep_loop cutoff m q))"
  by (induction q arbitrary: m) (auto simp: gm_laws case_prod_unfold Let_def split: option.split)

lemma len_eq_queue:
  "gm_wf m \<Longrightarrow> distinct q \<Longrightarrow> set q = dom (gm_get m) \<Longrightarrow> gm_len m = length q"
  by (metis distinct_card gm_len_card)

lemma evict_spec:
  assumes "gm_wf m" "distinct q" "set q = dom (gm_get m)" "0 < mx"
  shows "snd (evict mx m q) = drop (Suc (length q) - mx) q
    \<and> gm_wf (fst (evict mx m q))
    \<and> (\<forall>k. gm_get (fst (evict mx m q)) k =
          (if k \<in> set (drop (Suc (length q) - mx) q) then gm_get m k else None))"
  using assms
proof (induction q arbitrary: m)
  case Nil
  then show ?case by (auto simp: dom_def)
next
  case (Cons old q)
  have len: "gm_len m = Suc (length q)"
    using len_eq_queue [OF Cons.prems(1-3)] by simp
  show ?case
  proof (cases "mx \<le> gm_len m")
    case True
    have "set q = dom (gm_get (gm_del old m))" "gm_wf (gm_del old m)"
      using Cons.prems by (auto simp: gm_laws)
    note IH = Cons.IH [OF this(2) _ this(1) Cons.prems(4)]
    have d: "drop (Suc (length (old # q)) - mx) (old # q) = drop (Suc (length q) - mx) q"
      using True len by (simp add: Suc_diff_le)
    have "old \<notin> set (drop (Suc (length q) - mx) q)"
      using Cons.prems(2) set_drop_subset by fastforce
    then show ?thesis
      unfolding d using IH True Cons.prems(2) by (auto simp: gm_laws)
  next
    case False
    then have "Suc (length (old # q)) - mx = 0"
      using len by simp
    moreover have "gm_get m k = None" if "k \<notin> set (old # q)" for k
      using Cons.prems(3) that by auto
    ultimately show ?thesis
      using False Cons.prems(1) by auto
  qed
qed

section \<open>Recent ids\<close>

lemma recent_snoc: "recent i k q \<Longrightarrow> recent i (Suc k) (q @ [x])"
proof -
  assume "recent i k q"
  then obtain pre post where "q @ [x] = pre @ i # (post @ [x])" "length (post @ [x]) \<le> Suc k"
    unfolding recent_def by auto
  then show ?thesis unfolding recent_def by blast
qed

lemma recent_new: "recent i 0 (q @ [i])"
  unfolding recent_def by (intro exI [of _ q] exI [of _ "[]"]) simp

lemma recent_filter: "recent i k q \<Longrightarrow> P i \<Longrightarrow> recent i k (filter P q)"
proof -
  assume "recent i k q" "P i"
  then obtain pre post where "filter P q = filter P pre @ i # filter P post" "length post \<le> k"
    unfolding recent_def by auto
  then show ?thesis
    unfolding recent_def using length_filter_le [of P post] le_trans by blast
qed

lemma recent_drop:
  assumes "recent i k q" "n = 0 \<or> n + k < length q"
  shows "recent i k (drop n q)"
proof -
  obtain pre post where q: "q = pre @ i # post" "length post \<le> k"
    using assms(1) unfolding recent_def by blast
  have "n \<le> length pre" using assms(2) q by auto
  then have "drop n q = drop n pre @ i # post" by (simp add: q)
  then show ?thesis using q(2) unfolding recent_def by blast
qed

lemma recent_mem: "recent i k q \<Longrightarrow> i \<in> set q"
  unfolding recent_def by auto

lemma recent_mono: "recent i k q \<Longrightarrow> k \<le> k' \<Longrightarrow> recent i k' q"
  unfolding recent_def using le_trans by blast

section \<open>The store keeps its invariant and remembers\<close>

lemma sweepLocked_simps:
  "ss_ttl (sweepLocked now s) = ss_ttl s" "ss_max (sweepLocked now s) = ss_max s"
  "ss_m (sweepLocked now s) = fst (sweep_loop (now - ss_ttl s) (ss_m s) (ss_q s))"
  "ss_q (sweepLocked now s) = snd (sweep_loop (now - ss_ttl s) (ss_m s) (ss_q s))"
  by (simp_all add: sweepLocked_def case_prod_unfold Let_def)

lemma sweepLocked_get:
  assumes "seen_inv s"
  shows "gm_get (ss_m (sweepLocked now s)) k =
    (case gm_get (ss_m s) k of None \<Rightarrow> None | Some t \<Rightarrow> if t < now - ss_ttl s then None else Some t)"
proof -
  have "distinct (ss_q s)" "set (ss_q s) = dom (gm_get (ss_m s))"
    using assms by (simp_all add: seen_inv_def)
  then show ?thesis
    by (auto simp: sweepLocked_simps sweep_loop_map split: option.split)
qed

lemma sweepLocked_queue:
  assumes "seen_inv s"
  shows "ss_q (sweepLocked now s) = filter (\<lambda>i. now - ss_ttl s \<le> the (gm_get (ss_m s) i)) (ss_q s)"
  using assms by (simp add: sweepLocked_simps sweep_loop_queue seen_inv_def)

lemma sweepLocked_inv [inv_intros]: "seen_inv s \<Longrightarrow> seen_inv (sweepLocked now s)"
proof -
  assume inv: "seen_inv s"
  let ?s = "sweepLocked now s"
  have wf: "gm_wf (ss_m ?s)" and d: "distinct (ss_q ?s)"
    using inv by (simp_all add: sweepLocked_queue) (simp_all add: seen_inv_def sweepLocked_simps sweep_loop_wf)
  have eq: "set (ss_q ?s) = dom (gm_get (ss_m ?s))"
    using inv by (auto simp: sweepLocked_get sweepLocked_queue seen_inv_def domIff split: option.splits if_splits)
  have "gm_len (ss_m ?s) = length (ss_q ?s)" "gm_len (ss_m s) = length (ss_q s)"
    using wf d eq inv by (auto intro: len_eq_queue simp: seen_inv_def)
  then have "gm_len (ss_m ?s) \<le> ss_max s"
    using inv by (auto simp: sweepLocked_queue seen_inv_def intro: le_trans [OF length_filter_le])
  with inv wf d eq show ?thesis
    by (simp add: seen_inv_def sweepLocked_simps)
qed

lemma Add_new:
  "\<not> Has s i \<Longrightarrow> Add i now s =
     (True, (make_room now s)\<lparr>ss_m := gm_put i now (ss_m (make_room now s)), ss_q := ss_q (make_room now s) @ [i]\<rparr>)"
  by (simp add: Add_def Has_def Let_def)

lemma Add_seen: "Has s i \<Longrightarrow> Add i now s = (False, s)"
  by (simp add: Add_def Has_def)

lemma make_room_room: "\<not> ss_max s \<le> gm_len (ss_m s) \<Longrightarrow> make_room now s = s"
  by (simp add: make_room_def)

lemma make_room_frame: "ss_ttl (make_room now s) = ss_ttl s" "ss_max (make_room now s) = ss_max s"
  by (simp_all add: make_room_def Let_def case_prod_unfold sweepLocked_simps)

lemma make_room_full:
  fixes now :: int
  assumes inv: "seen_inv s" and full: "ss_max s \<le> gm_len (ss_m s)"
  defines "q \<equiv> ss_q (sweepLocked now s)"
  shows "ss_q (make_room now s) = drop (Suc (length q) - ss_max s) q
    \<and> gm_wf (ss_m (make_room now s))
    \<and> (\<forall>k. gm_get (ss_m (make_room now s)) k =
        (if k \<in> set (drop (Suc (length q) - ss_max s) q) then gm_get (ss_m (sweepLocked now s)) k else None))"
proof -
  have "seen_inv (sweepLocked now s)" using inv by (rule sweepLocked_inv)
  then have "gm_wf (ss_m (sweepLocked now s))" "distinct q"
    "set q = dom (gm_get (ss_m (sweepLocked now s)))" "0 < ss_max s"
    by (auto simp: seen_inv_def q_def sweepLocked_simps(2))
  from evict_spec [OF this] show ?thesis
    using full by (simp add: make_room_def Let_def case_prod_unfold sweepLocked_simps(2) q_def)
qed

lemma make_room_inv:
  assumes inv: "seen_inv s"
  shows "seen_inv (make_room now s) \<and> gm_len (ss_m (make_room now s)) < ss_max s"
proof (cases "ss_max s \<le> gm_len (ss_m s)")
  case True
  let ?s1 = "sweepLocked now s" and ?s = "make_room now s"
  let ?q = "drop (Suc (length (ss_q ?s1)) - ss_max s) (ss_q ?s1)"
  note f = make_room_full [OF inv True, of now]
  have s1: "seen_inv ?s1" using inv by (rule sweepLocked_inv)
  have dom: "set ?q \<subseteq> dom (gm_get (ss_m ?s1))"
    using s1 set_drop_subset [of _ "ss_q ?s1"] by (simp add: seen_inv_def)
  have d: "distinct (ss_q ?s)" "set (ss_q ?s) = dom (gm_get (ss_m ?s))"
    using f s1 dom by (auto simp: seen_inv_def domIff split: if_splits)
  then have "gm_len (ss_m ?s) = length (ss_q ?s)"
    using f len_eq_queue by blast
  also have "\<dots> < ss_max s"
    using f inv by (auto simp: seen_inv_def)
  finally have "gm_len (ss_m ?s) < ss_max s" .
  then show ?thesis
    using d f inv by (simp add: seen_inv_def make_room_frame)
next
  case False
  then show ?thesis using inv by (simp add: make_room_room)
qed

lemma make_room_keeps:
  assumes inv: "seen_inv s" and rc: "recent i k (ss_q s)" "Suc k < ss_max s"
    and tm: "gm_get (ss_m s) i = Some u" "now \<le> u + ss_ttl s"
  shows "recent i k (ss_q (make_room now s)) \<and> gm_get (ss_m (make_room now s)) i = Some u"
proof (cases "ss_max s \<le> gm_len (ss_m s)")
  case True
  let ?q = "ss_q (sweepLocked now s)"
  note f = make_room_full [OF inv True, of now]
  have "recent i k ?q"
    using rc(1) tm by (simp add: sweepLocked_queue inv recent_filter)
  then have r: "recent i k (drop (Suc (length ?q) - ss_max s) ?q)"
    using rc(2) by (intro recent_drop) auto
  moreover have "gm_get (ss_m (sweepLocked now s)) i = Some u"
    using tm by (simp add: sweepLocked_get inv)
  ultimately show ?thesis
    using f recent_mem by simp
next
  case False
  then show ?thesis using rc tm by (simp add: make_room_room)
qed

lemma Add_inv [inv_intros]: "seen_inv s \<Longrightarrow> seen_inv (snd (Add i now s))"
proof (cases "Has s i")
  case False
  assume inv: "seen_inv s"
  let ?s = "make_room now s"
  note r = make_room_inv [OF inv, of now]
  have new: "gm_get (ss_m ?s) i = None"
  proof (cases "ss_max s \<le> gm_len (ss_m s)")
    case True
    have "gm_get (ss_m (sweepLocked now s)) i = None"
      using False by (simp add: sweepLocked_get inv Has_def gm_has_def)
    then show ?thesis using make_room_full [OF inv True, of now] by simp
  next
    case c: False
    then show ?thesis using False by (simp add: make_room_room Has_def gm_has_def)
  qed
  then have "i \<notin> set (ss_q ?s)" using r by (auto simp: seen_inv_def)
  moreover have "gm_len (gm_put i now (ss_m ?s)) = Suc (gm_len (ss_m ?s))"
    using r new by (simp add: gm.len_put seen_inv_def)
  ultimately show ?thesis
    using False r by (simp add: Add_new seen_inv_def gm_laws make_room_frame)
qed (simp add: Add_seen)

lemma Sweep_inv [inv_intros]: "seen_inv s \<Longrightarrow> seen_inv (Sweep now s)"
  unfolding Sweep_def by (rule sweepLocked_inv)

lemma NewSeenStore_inv [inv_intros]: "seen_inv (NewSeenStore ttl mx)"
  by (simp add: seen_inv_def NewSeenStore_def gm_laws second_def gm.get_empty dom_def)

lemma Add_frame: "ss_ttl (snd (Add i now s)) = ss_ttl s" "ss_max (snd (Add i now s)) = ss_max s"
  by (cases "Has s i"; simp add: Add_new Add_seen make_room_frame)+

lemma remembers_Add_new:
  "\<not> Has s i \<Longrightarrow> fst (Add i now s) \<and> remembers (snd (Add i now s)) i 0 now"
  by (auto simp: Add_new remembers_def recent_new gm_laws)

lemma remembers_Add:
  assumes "seen_inv s" "remembers s i k t" "Suc k < ss_max s" "now \<le> t + ss_ttl s"
  shows "remembers (snd (Add j now s)) i (Suc k) t"
proof (cases "Has s j")
  case True
  then show ?thesis
    using assms(2) by (auto simp: Add_seen remembers_def intro: recent_mono)
next
  case False
  obtain u where u: "gm_get (ss_m s) i = Some u" "t \<le> u" and rc: "recent i k (ss_q s)"
    using assms(2) by (auto simp: remembers_def)
  have "recent i k (ss_q (make_room now s)) \<and> gm_get (ss_m (make_room now s)) i = Some u"
    using assms u rc by (intro make_room_keeps) auto
  moreover have "i \<noteq> j" using u False by (auto simp: Has_def gm_has_def)
  ultimately show ?thesis
    using False u by (auto simp: Add_new remembers_def gm_laws intro: recent_snoc)
qed

lemma remembers_Sweep:
  assumes "seen_inv s" "remembers s i k t" "now \<le> t + ss_ttl s"
  shows "remembers (Sweep now s) i k t"
  using assms by (auto simp: Sweep_def remembers_def sweepLocked_queue sweepLocked_get intro: recent_filter)

interpretation seen: seen_cache Add Has Sweep seen_inv ss_max ss_ttl remembers
proof unfold_locales
  show "Has s i" if "remembers s i k t" for s i k t
    using that by (auto simp: remembers_def Has_def gm_has_def)
  show "remembers s i k' t" if "remembers s i k t" "k \<le> k'" for s i k k' t
    using that by (auto simp: remembers_def intro: recent_mono)
  show "ss_max (Sweep now s) = ss_max s" "ss_ttl (Sweep now s) = ss_ttl s" for now s
    by (simp_all add: Sweep_def sweepLocked_simps)
qed (rule Add_seen remembers_Add_new remembers_Add remembers_Sweep Add_inv Sweep_inv Add_frame; assumption?)+

section \<open>Properties\<close>

text \<open>
  C9. The cache is bounded: after any sequence of Add and Sweep calls on a new store, whatever
  the clock readings, the queue and the map hold the same ids, each once, and there are at most
  \<^verbatim>\<open>max\<close> of them.
\<close>

theorem seen_store_bounded:
  "seen_inv (fold (op_step Add Sweep) ops (NewSeenStore ttl mx))
   \<and> Len (fold (op_step Add Sweep) ops (NewSeenStore ttl mx)) \<le> (if mx \<le> 0 then 50000 else nat mx)"
proof -
  let ?s = "fold (op_step Add Sweep) ops (NewSeenStore ttl mx)"
  have "seen_inv ?s"
    by (rule seen.fold_frame(1)) (rule NewSeenStore_inv)
  moreover have "ss_max ?s = (if mx \<le> 0 then 50000 else nat mx)"
    unfolding seen.fold_frame(2) by (simp add: NewSeenStore_def)
  ultimately show ?thesis
    by (simp add: seen_inv_def Len_def)
qed

text \<open>
  C8. An id that Add accepted is recognised as a duplicate by every later Add, as long as fewer
  than \<^verbatim>\<open>max\<close> other Add calls came in between and no call happened after the id's time to live.
\<close>

theorem seen_store_remembers:
  assumes "seen_inv s" "fst (Add i t s)"
    and "length (filter is_add ops) < ss_max s"
    and "\<forall>p \<in> set ops. op_time p \<le> t + ss_ttl s"
  shows "\<not> fst (Add i now (fold (op_step Add Sweep) ops (snd (Add i t s))))"
  using seen.add_again_rejected [OF assms, of now] by simp

theorem seen_store_remembers_witness:
  "\<not> fst (Add ''a'' 9 (fold (op_step Add Sweep) [OpAdd ''b'' 5, OpSweep 7] (snd (Add ''a'' 1 (NewSeenStore 10 2)))))"
proof -
  have "fst (Add ''a'' 1 (NewSeenStore 10 2))"
    by (simp add: Add_def NewSeenStore_def gm_has_def gm_get_def gm_empty_def Let_def)
  from seen_store_remembers [OF NewSeenStore_inv this, of "[OpAdd ''b'' 5, OpSweep 7]" 9]
  show ?thesis by (simp add: NewSeenStore_def)
qed

end
