(* ===== verification/Identity.thy ===== *)
theory Identity
  imports GoStrings
begin

text \<open>
  \<^verbatim>\<open>src/internal/identity/identity.go\<close>: the Ed25519 identity, its derived identifiers and
  the record it is stored as. SHA-256 and Ed25519 are the fields of the parameter
  \<open>crypto\<close>; what the program relies on is \<open>key_ok\<close> (a generated key signs what its
  public half verifies, with a 64-byte signature) and \<open>sha_ok\<close> (digests have 32 bytes).
  An Ed25519 private key of Go ends with its public key, so \<^verbatim>\<open>priv.Public()\<close> is
  \<open>drop 32 priv\<close>. The RFC 3339 formatting of times and its parser are parameters.
\<close>

section \<open>Cryptographic primitives\<close>

record crypto =
  c_sha256 :: "string \<Rightarrow> string"
  c_sign :: "string \<Rightarrow> string \<Rightarrow> string"
  c_verify :: "string \<Rightarrow> string \<Rightarrow> string \<Rightarrow> bool"

definition PublicKeySize :: nat where "PublicKeySize = 32"
definition PrivateKeySize :: nat where "PrivateKeySize = 64"
definition SignatureSize :: nat where "SignatureSize = 64"

lemmas key_size_defs = PublicKeySize_def PrivateKeySize_def SignatureSize_def

definition ed_public :: "string \<Rightarrow> string" where
  "ed_public priv = drop 32 priv"

definition sha_ok :: "crypto \<Rightarrow> bool" where
  "sha_ok c \<longleftrightarrow> (\<forall>x. length (c_sha256 c x) = 32)"

definition key_ok :: "crypto \<Rightarrow> string \<Rightarrow> bool" where
  "key_ok c priv \<longleftrightarrow>
     length priv = PrivateKeySize
     \<and> (\<forall>msg. length (c_sign c priv msg) = SignatureSize \<and> c_verify c (ed_public priv) msg (c_sign c priv msg))"

section \<open>Identities\<close>

record identity =
  idPrivateKey :: string
  idPublicKey :: string
  idPeerID :: string
  idNickname :: string
  idCreatedAt :: int

definition shortIDLen :: nat where "shortIDLen = 8"

definition ShortID :: "identity \<Rightarrow> string" where
  "ShortID i = (if length (idPeerID i) < shortIDLen then idPeerID i else take shortIDLen (idPeerID i))"

definition PublicKeyHex :: "identity \<Rightarrow> string" where
  "PublicKeyHex i = hex_encode (idPublicKey i)"

definition DefaultNickname :: "identity \<Rightarrow> string" where
  "DefaultNickname i = (if idNickname i \<noteq> [] then idNickname i else ShortID i)"

definition Fingerprint :: "identity \<Rightarrow> string" where
  "Fingerprint i = (if length (idPeerID i) < 16 then idPeerID i else take 16 (idPeerID i))"

definition DerivePeerID :: "crypto \<Rightarrow> string \<Rightarrow> string" where
  "DerivePeerID c pub = hex_encode (c_sha256 c pub)"

definition VerifyPeerID :: "unicode \<Rightarrow> crypto \<Rightarrow> string \<Rightarrow> string \<Rightarrow> bool" where
  "VerifyPeerID uc c pub claimedID \<longleftrightarrow> DerivePeerID c pub = ToLower uc claimedID"

text \<open>
  \<^verbatim>\<open>Generate\<close>: the key pair the random source produced is an argument, \<open>None\<close> when the
  source failed.
\<close>

definition Generate :: "crypto \<Rightarrow> int \<Rightarrow> string option \<Rightarrow> string + identity" where
  "Generate c now key =
     (case key of
        None \<Rightarrow> Inl ''generate key''
      | Some priv \<Rightarrow>
          Inr \<lparr>idPrivateKey = priv, idPublicKey = ed_public priv,
            idPeerID = DerivePeerID c (ed_public priv), idNickname = [], idCreatedAt = now\<rparr>)"

section \<open>The stored record\<close>

record fileRecord =
  frPeerID :: string
  frPublicKey :: string
  frPrivateKey :: string
  frNickname :: string
  frCreatedAt :: string

text \<open>The zero \<^verbatim>\<open>time.Time\<close> is instant 0; \<^verbatim>\<open>toRecord\<close> replaces it by the current time.\<close>

definition toRecord :: "(int \<Rightarrow> string) \<Rightarrow> int \<Rightarrow> identity \<Rightarrow> fileRecord \<times> identity" where
  "toRecord rfc3339 now i =
     (let created = (if idCreatedAt i = 0 then now else idCreatedAt i);
          i' = (if idCreatedAt i = 0 then i\<lparr>idCreatedAt := created\<rparr> else i) in
      (\<lparr>frPeerID = idPeerID i, frPublicKey = hex_encode (idPublicKey i),
        frPrivateKey = hex_encode (idPrivateKey i), frNickname = idNickname i,
        frCreatedAt = rfc3339 created\<rparr>, i'))"

datatype iderr =
    PrivateKeyHex | PublicKeyHexErr | PrivateKeyLength nat | PublicKeyLength nat
  | KeyMismatch | PeerIDMismatch

definition fromRecord :: "crypto \<Rightarrow> (string \<Rightarrow> int option) \<Rightarrow> fileRecord \<Rightarrow> iderr + identity" where
  "fromRecord c parse3339 rec =
     (case hex_decode (frPrivateKey rec) of
        None \<Rightarrow> Inl PrivateKeyHex
      | Some privRaw \<Rightarrow>
        (case hex_decode (frPublicKey rec) of
           None \<Rightarrow> Inl PublicKeyHexErr
         | Some pubRaw \<Rightarrow>
             if length privRaw \<noteq> PrivateKeySize then Inl (PrivateKeyLength (length privRaw))
             else if length pubRaw \<noteq> PublicKeySize then Inl (PublicKeyLength (length pubRaw))
             else if pubRaw \<noteq> ed_public privRaw then Inl KeyMismatch
             else
               (let peerID = DerivePeerID c pubRaw in
                if frPeerID rec \<noteq> [] \<and> frPeerID rec \<noteq> peerID then Inl PeerIDMismatch
                else
                  Inr \<lparr>idPrivateKey = privRaw, idPublicKey = pubRaw, idPeerID = peerID,
                    idNickname = frNickname rec,
                    idCreatedAt =
                      (if frCreatedAt rec \<noteq> [] then
                         (case parse3339 (frCreatedAt rec) of Some ts \<Rightarrow> ts | None \<Rightarrow> 0)
                       else 0)\<rparr>)))"

section \<open>The file\<close>

text \<open>
  \<^verbatim>\<open>LoadOrCreate\<close> and \<^verbatim>\<open>Save\<close>. What the operating system and the JSON codec answer is the
  record \<open>id_env\<close>: whether the directory can be made, the temporary file written and renamed, the
  content of files, the encoding and decoding of a record, the time format. \<^verbatim>\<open>Save\<close> returns its error,
  the identity (its creation time may be set) and the bytes that replaced the file, if it did.
\<close>

datatype id_file_err = IdMkdir | IdRead | IdParse | IdMarshal | IdWrite | IdRename | IdGenerate string | IdRecord iderr

record id_env =
  ie_mkdir :: bool
  ie_write :: bool
  ie_rename :: bool
  ie_fs :: "string \<Rightarrow> file_read"
  ie_marshal :: "fileRecord \<Rightarrow> string option"
  ie_unmarshal :: "string \<Rightarrow> fileRecord option"
  ie_rfc3339 :: "int \<Rightarrow> string"
  ie_parse3339 :: "string \<Rightarrow> int option"
  ie_join :: "string \<Rightarrow> string \<Rightarrow> string"

definition Path_id :: "(string \<Rightarrow> string \<Rightarrow> string) \<Rightarrow> string \<Rightarrow> string" where
  "Path_id fjoin dir = fjoin dir ''identity.json''"

definition Save_id :: "id_env \<Rightarrow> int \<Rightarrow> identity \<Rightarrow> id_file_err option \<times> identity \<times> string option" where
  "Save_id env now i =
     (if \<not> ie_mkdir env then (Some IdMkdir, i, None)
      else
        (let (rec, i1) = toRecord (ie_rfc3339 env) now i in
         case ie_marshal env rec of
           None \<Rightarrow> (Some IdMarshal, i1, None)
         | Some data \<Rightarrow>
             if \<not> ie_write env then (Some IdWrite, i1, None)
             else if \<not> ie_rename env then (Some IdRename, i1, None)
             else (None, i1, Some (data @ [CHR 0x0A]))))"

definition LoadOrCreate ::
  "crypto \<Rightarrow> id_env \<Rightarrow> int \<Rightarrow> int \<Rightarrow> string option \<Rightarrow> string \<Rightarrow> id_file_err + identity" where
  "LoadOrCreate c env now1 now2 key dir =
     (if \<not> ie_mkdir env then Inl IdMkdir
      else
        (case ie_fs env (Path_id (ie_join env) dir) of
           FileMissing \<Rightarrow>
             (case Generate c now1 key of
                Inl e \<Rightarrow> Inl (IdGenerate e)
              | Inr i \<Rightarrow> (case Save_id env now2 i of (Some e, _) \<Rightarrow> Inl e | (None, i1, _) \<Rightarrow> Inr i1))
         | FileError \<Rightarrow> Inl IdRead
         | FileData raw \<Rightarrow>
             (case ie_unmarshal env raw of
                None \<Rightarrow> Inl IdParse
              | Some rec \<Rightarrow> (case fromRecord c (ie_parse3339 env) rec of Inl e \<Rightarrow> Inl (IdRecord e) | Inr i \<Rightarrow> Inr i))))"

text \<open>What every identity of the program satisfies.\<close>

definition id_ok :: "crypto \<Rightarrow> identity \<Rightarrow> bool" where
  "id_ok c i \<longleftrightarrow>
     length (idPrivateKey i) = PrivateKeySize \<and> idPublicKey i = ed_public (idPrivateKey i)
     \<and> idPeerID i = DerivePeerID c (idPublicKey i)"

text \<open>Examples: a toy signature scheme that satisfies the laws, and identities under it.\<close>

definition toy_crypto :: crypto where
  "toy_crypto =
     \<lparr>c_sha256 = (\<lambda>x. take 32 (x @ replicate 32 CHR 0x00)),
      c_sign = (\<lambda>priv msg. take 64 (drop 32 priv @ replicate 64 CHR 0x00)),
      c_verify = (\<lambda>pub msg sig. take 32 sig = pub)\<rparr>"

definition sample_ident :: "char \<Rightarrow> identity" where
  "sample_ident k =
     \<lparr>idPrivateKey = replicate 64 k, idPublicKey = replicate 32 k,
      idPeerID = DerivePeerID toy_crypto (replicate 32 k), idNickname = [], idCreatedAt = 0\<rparr>"

text \<open>An environment that keeps one record.\<close>

definition sample_record :: fileRecord where
  "sample_record =
     \<lparr>frPeerID = idPeerID (sample_ident CHR ''k''), frPublicKey = hex_encode (replicate 32 CHR ''k''),
      frPrivateKey = hex_encode (replicate 64 CHR ''k''), frNickname = [], frCreatedAt = ''7''\<rparr>"

definition sample_files :: id_env where
  "sample_files =
     \<lparr>ie_mkdir = True, ie_write = True, ie_rename = True, ie_fs = (\<lambda>p. FileMissing),
      ie_marshal = (\<lambda>r. if r = sample_record then Some ''stored'' else None),
      ie_unmarshal = (\<lambda>x. if x = ''stored'' @ [CHR 0x0A] then Some sample_record else None),
      ie_rfc3339 = (\<lambda>t. ''7''), ie_parse3339 = (\<lambda>x. Some 7), ie_join = (@)\<rparr>"

section \<open>Lemmas\<close>

lemma length_ed_public: "length priv = PrivateKeySize \<Longrightarrow> length (ed_public priv) = PublicKeySize"
  by (simp add: ed_public_def key_size_defs)

lemma DerivePeerID_neq_Nil: "sha_ok c \<Longrightarrow> DerivePeerID c pub \<noteq> []"
  by (auto simp: DerivePeerID_def sha_ok_def dest: spec [of _ pub])

lemma length_DerivePeerID: "sha_ok c \<Longrightarrow> length (DerivePeerID c pub) = 64"
  by (simp add: DerivePeerID_def sha_ok_def)

lemma ToLower_DerivePeerID [go_simps]: "ToLower uc (DerivePeerID c pub) = DerivePeerID c pub"
  by (simp add: DerivePeerID_def ToLower_hex_encode)

lemma VerifyPeerID_derived [simp]: "VerifyPeerID uc c pub (DerivePeerID c pub)"
  by (simp add: VerifyPeerID_def go_simps)

lemma Generate_ok: "length priv = PrivateKeySize \<Longrightarrow> Generate c now (Some priv) = Inr i \<Longrightarrow> id_ok c i"
  by (auto simp: Generate_def id_ok_def)

lemma fromRecord_ok: "fromRecord c p rec = Inr i \<Longrightarrow> id_ok c i"
  by (auto simp: fromRecord_def id_ok_def Let_def split: option.splits if_splits)

lemma toy_sha: "sha_ok toy_crypto"
  by (auto simp: sha_ok_def toy_crypto_def min_def)

lemma sample_ident_ok: "id_ok toy_crypto (sample_ident k)" "key_ok toy_crypto (idPrivateKey (sample_ident k))"
  by (simp_all add: id_ok_def key_ok_def sample_ident_def toy_crypto_def ed_public_def key_size_defs drop_replicate)

section \<open>Properties\<close>

text \<open>
  A stored identity is loaded only when it is consistent: fromRecord returns an identity
  exactly when both keys decode to their sizes, the public key is the one of the private key and
  the stored peer id, if any, is the digest of the public key. The identity it returns then has
  these keys and that peer id.
\<close>

theorem from_record_consistent:
  "((\<exists>i. fromRecord c p rec = Inr i \<and> idPrivateKey i = priv) \<longleftrightarrow>
      hex_decode (frPrivateKey rec) = Some priv \<and> length priv = PrivateKeySize
      \<and> hex_decode (frPublicKey rec) = Some (ed_public priv)
      \<and> frPeerID rec \<in> {[], DerivePeerID c (ed_public priv)})
   \<and> ((\<exists>i. fromRecord c p rec = Inr i \<and> idPrivateKey i = priv) \<longleftrightarrow>
      (\<exists>i. fromRecord c p rec = Inr i \<and> idPrivateKey i = priv \<and> id_ok c i))"
  (is "(?L \<longleftrightarrow> ?R) \<and> _")
proof -
  have "?L \<longleftrightarrow> ?R"
    using length_ed_public [of priv]
    by (auto simp: fromRecord_def Let_def split: option.splits if_splits)
  then show ?thesis using fromRecord_ok by blast
qed

text \<open>
  An identity survives its file: when Save replaced the identity file of a consistent identity and the
  file is read back by LoadOrCreate, the result is the saved identity itself, with the creation time the
  time format keeps (Save sets a missing one to the current time), and no new key is generated. It
  relies on the JSON decoder reading back the record that was encoded, with the final newline.
\<close>

theorem identity_file_roundtrip:
  assumes ok: "id_ok c i" and save: "Save_id env now i = (None, i1, Some bytes)"
    and json: "\<And>rec data. ie_marshal env rec = Some data \<Longrightarrow> ie_unmarshal env (data @ [CHR 0x0A]) = Some rec"
    and time: "ie_rfc3339 env (idCreatedAt i1) \<noteq> []" "ie_parse3339 env (ie_rfc3339 env (idCreatedAt i1)) = Some t"
  shows "LoadOrCreate c (env\<lparr>ie_fs := (\<lambda>p. if p = Path_id (ie_join env) dir then FileData bytes else FileMissing)\<rparr>)
      now1 now2 key dir = Inr (i1\<lparr>idCreatedAt := t\<rparr>)
    \<and> i1 = i\<lparr>idCreatedAt := (if idCreatedAt i = 0 then now else idCreatedAt i)\<rparr>"
proof -
  obtain rec where rec: "toRecord (ie_rfc3339 env) now i = (rec, i1)"
    using save by (cases "toRecord (ie_rfc3339 env) now i") (auto simp: Save_id_def split: if_splits option.splits)
  then obtain data where data: "ie_marshal env rec = Some data" "bytes = data @ [CHR 0x0A]"
    using save by (auto simp: Save_id_def split: if_splits option.splits)
  have mk: "ie_mkdir env" using save by (auto simp: Save_id_def split: if_splits)
  have i1: "i1 = i\<lparr>idCreatedAt := (if idCreatedAt i = 0 then now else idCreatedAt i)\<rparr>"
    using rec by (auto simp: toRecord_def Let_def split: if_splits)
  have "fromRecord c (ie_parse3339 env) rec = Inr (i1\<lparr>idCreatedAt := t\<rparr>)"
    using rec time ok length_ed_public [of "idPrivateKey i"]
    by (auto simp: i1 fromRecord_def toRecord_def id_ok_def hex_decode_encode Let_def)
  then show ?thesis using json [OF data(1)] data(2) mk i1 by (simp add: LoadOrCreate_def)
qed

end
