(* ===== verification/Sign.thy ===== *)
theory Sign
  imports Protocol Identity
begin

text \<open>
  \<^verbatim>\<open>src/internal/protocol/sign.go\<close>: the canonical payload of a message, signing and
  verification. The hash and the signature scheme are the parameter \<open>crypto\<close> of
  \<open>Identity\<close>. The lemmas show that what \<open>Sign\<close> produces verifies, what a
  verified message is known to satisfy, and when two messages share a payload.
\<close>

definition RequiresSignature :: "string \<Rightarrow> bool" where
  "RequiresSignature t \<longleftrightarrow>
     t = TypeHello \<or> t = TypeWelcome \<or> t = TypeChat \<or> t = TypeJoin \<or> t = TypeLeave"

definition sign_parts :: "message \<Rightarrow> string list" where
  "sign_parts m =
     [mType m, mID m, FormatInt (sint (mTimestamp m)), mPeerID m, mSender m, mPublicKey m,
      mNickname m, mChannel m, mTo m, mText m, if mAction m then ''1'' else ''0'']"

fun SignBytes :: "message option \<Rightarrow> string" where
  "SignBytes None = []"
| "SignBytes (Some m) = Join (sign_parts m) [CHR 0x0A]"

fun Sign :: "crypto \<Rightarrow> string \<Rightarrow> message option \<Rightarrow> perr + message" where
  "Sign c priv None = Inl NilMessage"
| "Sign c priv (Some m) =
     (if length priv \<noteq> PrivateKeySize then Inl BadPrivateKey
      else
        (let m1 = (if mPublicKey m = [] then m\<lparr>mPublicKey := hex_encode (ed_public priv)\<rparr> else m) in
         Inr (m1\<lparr>mSignature := hex_encode (c_sign c priv (SignBytes (Some m1)))\<rparr>)))"

definition claimed_id :: "message \<Rightarrow> string" where
  "claimed_id m = (if mSender m = [] then mPeerID m else mSender m)"

fun VerifySignature :: "unicode \<Rightarrow> crypto \<Rightarrow> message option \<Rightarrow> perr option" where
  "VerifySignature uc c None = Some NilMessage"
| "VerifySignature uc c (Some m) =
     (if mPublicKey m = [] then Some MissingPublicKey
      else if mSignature m = [] then Some Unsigned
      else
        (case hex_decode (mPublicKey m) of
           None \<Rightarrow> Some BadPublicKey
         | Some pub \<Rightarrow>
             if length pub \<noteq> PublicKeySize then Some BadPublicKey
             else if claimed_id m \<noteq> [] \<and> hex_encode (c_sha256 c pub) \<noteq> ToLower uc (claimed_id m)
             then Some IdentityMismatch
             else
               (case hex_decode (mSignature m) of
                  None \<Rightarrow> Some BadSignature
                | Some sig \<Rightarrow>
                    if length sig \<noteq> SignatureSize then Some BadSignature
                    else if \<not> c_verify c pub (SignBytes (Some m)) sig then Some BadSignature
                    else None)))"

declare VerifySignature.simps(2) [simp del]

text \<open>The fields of the payload that come from users or peers.\<close>

definition newline_free :: "message \<Rightarrow> bool" where
  "newline_free m \<longleftrightarrow>
     (\<forall>s \<in> {mType m, mID m, mPeerID m, mSender m, mPublicKey m, mNickname m, mChannel m, mTo m, mText m}.
        CHR 0x0A \<notin> set s)"

text \<open>Samples: a key, a message signed with it and a scheme in which that payload alone verifies.\<close>

definition sample_key :: string where
  "sample_key = replicate 32 CHR ''k''"

definition sample_sent :: message where
  "sample_sent = zero_message\<lparr>mType := TypeChat, mSender := hex_encode sample_key,
     mPublicKey := hex_encode sample_key, mSignature := hex_encode (replicate 64 CHR ''s''),
     mNickname := ''ann'', mChannel := ''#general'', mText := ''hi''\<rparr>"

definition only_crypto :: "message \<Rightarrow> crypto" where
  "only_crypto m = \<lparr>c_sha256 = id, c_sign = (\<lambda>k x. replicate 64 CHR ''s''),
     c_verify = (\<lambda>k x s. k = sample_key \<and> x = SignBytes (Some m))\<rparr>"

section \<open>Signing and verifying\<close>

lemma SignBytes_signature [simp]: "SignBytes (Some (m\<lparr>mSignature := s\<rparr>)) = SignBytes (Some m)"
  by (simp add: sign_parts_def)

lemma claimed_id_simps [simp]:
  "claimed_id (m\<lparr>mSignature := s\<rparr>) = claimed_id m"
  "claimed_id (m\<lparr>mPublicKey := p\<rparr>) = claimed_id m"
  "claimed_id (m\<lparr>mChannel := ch\<rparr>) = claimed_id m"
  by (simp_all add: claimed_id_def)

lemma VerifySignature_iff:
  "VerifySignature uc c (Some m) = None \<longleftrightarrow>
     (\<exists>pub sig. mPublicKey m \<noteq> [] \<and> mSignature m \<noteq> []
        \<and> hex_decode (mPublicKey m) = Some pub \<and> length pub = PublicKeySize
        \<and> (claimed_id m = [] \<or> ToLower uc (claimed_id m) = DerivePeerID c pub)
        \<and> hex_decode (mSignature m) = Some sig \<and> length sig = SignatureSize
        \<and> c_verify c pub (SignBytes (Some m)) sig)"
  by (auto simp: VerifySignature.simps DerivePeerID_def simp del: SignBytes.simps split: option.split)

lemma VerifySignature_cong:
  assumes "mPublicKey d = mPublicKey m" "mSignature d = mSignature m" "claimed_id d = claimed_id m"
    and "SignBytes (Some d) = SignBytes (Some m)"
  shows "VerifySignature uc c (Some d) = VerifySignature uc c (Some m)"
  by (simp only: VerifySignature.simps assms)

lemma Sign_verifies:
  assumes key: "key_ok c priv"
    and pk: "mPublicKey m = [] \<or> mPublicKey m = hex_encode (ed_public priv)"
    and idn: "ToLower uc (claimed_id m) = DerivePeerID c (ed_public priv)"
    and sg: "Sign c priv (Some m) = Inr m'"
  shows "VerifySignature uc c (Some m') = None"
proof -
  let ?pub = "ed_public priv"
  have len: "length priv = PrivateKeySize" "length ?pub = PublicKeySize"
    using key length_ed_public by (auto simp: key_ok_def)
  define m1 where "m1 = m\<lparr>mPublicKey := hex_encode ?pub\<rparr>"
  have "(if mPublicKey m = [] then m\<lparr>mPublicKey := hex_encode ?pub\<rparr> else m) = m1"
    using pk by (auto simp: m1_def)
  then have m': "m' = m1\<lparr>mSignature := hex_encode (c_sign c priv (SignBytes (Some m1)))\<rparr>"
    using sg len by (simp del: SignBytes.simps)
  have "length (c_sign c priv x) = 64" for x
    using key by (simp add: key_ok_def key_size_defs)
  then have nz: "hex_encode ?pub \<noteq> []" "\<And>x. hex_encode (c_sign c priv x) \<noteq> []"
    using len by (auto simp: key_size_defs simp flip: length_greater_0_conv)
  have "claimed_id m1 = claimed_id m" by (simp add: m1_def)
  then show ?thesis
    unfolding VerifySignature_iff m' using nz len idn key
    by (auto simp: m1_def hex_decode_encode key_ok_def simp del: SignBytes.simps)
qed

lemma Sign_shape:
  "Sign c priv (Some m) = Inr m' \<Longrightarrow> \<exists>p s. m' = m\<lparr>mPublicKey := p, mSignature := s\<rparr>"
proof -
  assume "Sign c priv (Some m) = Inr m'"
  then have "m' = m\<lparr>mPublicKey := mPublicKey m', mSignature := mSignature m'\<rparr>"
    by (auto simp: Let_def simp del: SignBytes.simps split: if_splits)
  then show ?thesis by blast
qed

lemma SignBytes_eq_iff:
  assumes "newline_free m" "newline_free m'"
  shows "SignBytes (Some m) = SignBytes (Some m') \<longleftrightarrow> sign_parts m = sign_parts m'"
proof
  assume e: "SignBytes (Some m) = SignBytes (Some m')"
  have nl: "\<forall>x \<in> set (sign_parts k). CHR 0x0A \<notin> set x" if "newline_free k" for k
    using that by (auto simp: newline_free_def sign_parts_def newline_not_FormatInt)
  show "sign_parts m = sign_parts m'"
    by (rule Join_newline_inj) (use e assms in \<open>simp_all add: nl, simp_all add: sign_parts_def\<close>)
qed simp

section \<open>Properties\<close>

text \<open>
  C12. A message signed by the owner of a key verifies: with the sender (or, when it is empty, the
  peer id) set to the digest of the public key and the public-key field empty or equal to that
  key, the message that Sign produces passes VerifySignature.
\<close>

theorem sign_then_verify:
  assumes "key_ok c priv"
    and "mPublicKey m = [] \<or> mPublicKey m = hex_encode (ed_public priv)"
    and "claimed_id m = DerivePeerID c (ed_public priv)"
  shows "\<exists>m'. Sign c priv (Some m) = Inr m' \<and> VerifySignature uc c (Some m') = None"
proof -
  obtain m' where "Sign c priv (Some m) = Inr m'"
    using assms(1) by (auto simp: key_ok_def Let_def simp del: SignBytes.simps)
  then show ?thesis
    using Sign_verifies [OF assms(1,2)] assms(3) by (auto simp: go_simps)
qed

theorem sign_then_verify_witness:
  "\<exists>m'. Sign \<lparr>c_sha256 = (\<lambda>x. replicate 32 CHR ''a''),
          c_sign = (\<lambda>k m. take 64 (k @ m)), c_verify = (\<lambda>k m s. s = take 64 (k @ k @ m))\<rparr>
        (replicate 64 CHR ''k'')
        (Some (zero_message\<lparr>mSender := hex_encode (replicate 32 CHR ''a'')\<rparr>)) = Inr m'
     \<and> VerifySignature \<lparr>uc_lower = id, uc_fold = id\<rparr>
        \<lparr>c_sha256 = (\<lambda>x. replicate 32 CHR ''a''),
          c_sign = (\<lambda>k m. take 64 (k @ m)), c_verify = (\<lambda>k m s. s = take 64 (k @ k @ m))\<rparr> (Some m') = None"
proof -
  let ?c = "\<lparr>c_sha256 = (\<lambda>x. replicate 32 CHR ''a''),
    c_sign = (\<lambda>k m. take 64 (k @ m)), c_verify = (\<lambda>k m s. s = take 64 (k @ k @ m))\<rparr>"
  have "key_ok ?c (replicate 64 CHR ''k'')"
    by (simp add: key_ok_def ed_public_def key_size_defs drop_replicate flip: replicate_add)
  then show ?thesis
    by (rule sign_then_verify)
       (simp_all add: zero_message_def claimed_id_def DerivePeerID_def)
qed

text \<open>
  On messages whose fields contain no newline the canonical payload determines every signed
  field: two such messages with the same payload agree on type, id, timestamp, peer id, sender,
  public key, nickname, channel, recipient, text and action flag.
\<close>

theorem sign_bytes_injective:
  assumes "newline_free m" "newline_free m'" "SignBytes (Some m) = SignBytes (Some m')"
  shows "m' = m\<lparr>mVersion := mVersion m', mPort := mPort m', mAddrs := mAddrs m',
    mSignature := mSignature m'\<rparr>"
proof -
  have p: "sign_parts m = sign_parts m'"
    using assms SignBytes_eq_iff by blast
  have a: "mAction m = mAction m'"
    using p by (auto simp: sign_parts_def split: if_splits)
  have t: "mTimestamp m = mTimestamp m'"
    using p by (auto simp: sign_parts_def FormatInt_inj intro: signed_word_eqI)
  show ?thesis
    using p a t by (auto simp: sign_parts_def intro: message.equality)
qed

text \<open>
  C7. No forgery under another identity: when a message that claims the identity of the key
  \<open>pub\<close> passes VerifySignature, the message carries \<open>pub\<close> itself and is, up to
  the fields that are not signed (version, port, addresses, the signature), one of the messages
  the owner of \<open>pub\<close> signed. The hypotheses on the cryptography speak of this message only: its
  key is not another preimage of the digest, and its signature is not a forgery for its payload.
  Fields hold no newline; the theorem on newlines below shows that this is needed.
\<close>

theorem verified_message_was_signed:
  assumes "VerifySignature uc c (Some m) = None"
    and "claimed_id m \<noteq> []" "ToLower uc (claimed_id m) = DerivePeerID c pub"
    and "\<forall>x. hex_decode (mPublicKey m) = Some x \<longrightarrow> c_sha256 c x = c_sha256 c pub \<longrightarrow> x = pub"
    and "\<forall>sig. hex_decode (mSignature m) = Some sig \<longrightarrow> c_verify c pub (SignBytes (Some m)) sig
      \<longrightarrow> (\<exists>s \<in> S. SignBytes (Some s) = SignBytes (Some m))"
    and "newline_free m" "\<forall>s \<in> S. newline_free s"
  shows "hex_decode (mPublicKey m) = Some pub
    \<and> (\<exists>s \<in> S. m = s\<lparr>mVersion := mVersion m, mPort := mPort m, mAddrs := mAddrs m,
          mSignature := mSignature m\<rparr>)"
proof -
  obtain x sig where x: "hex_decode (mPublicKey m) = Some x" "hex_decode (mSignature m) = Some sig"
    "ToLower uc (claimed_id m) = DerivePeerID c x" "c_verify c x (SignBytes (Some m)) sig"
    using assms(1,2) unfolding VerifySignature_iff by blast
  then have "x = pub"
    using assms(3,4) hex_encode_inj by (auto simp: DerivePeerID_def)
  then obtain s where "s \<in> S" "SignBytes (Some s) = SignBytes (Some m)"
    using x(2,4) assms(5) by blast
  then show ?thesis
    using sign_bytes_injective [of s m] assms(6,7) x(1) \<open>x = pub\<close> by blast
qed

lemma only_crypto_verifies:
  assumes "mPublicKey m = hex_encode sample_key" "claimed_id m = hex_encode sample_key"
    and "mSignature m = hex_encode (replicate 64 CHR ''s'')" "SignBytes (Some m) = SignBytes (Some m')"
  shows "VerifySignature uc (only_crypto m') (Some m) = None"
  unfolding VerifySignature_iff using assms
  by (simp add: only_crypto_def DerivePeerID_def hex_decode_encode ToLower_hex_encode key_size_defs
      sample_key_def)

theorem verified_message_was_signed_witness:
  "VerifySignature \<lparr>uc_lower = id, uc_fold = id\<rparr> (only_crypto sample_sent) (Some (sample_sent\<lparr>mPort := 7\<rparr>)) = None
   \<and> hex_decode (mPublicKey (sample_sent\<lparr>mPort := 7\<rparr>)) = Some sample_key
   \<and> (\<exists>s. s \<in> {sample_sent} \<and> sample_sent\<lparr>mPort := 7\<rparr> = s\<lparr>mVersion := 0, mPort := 7, mAddrs := [],
        mSignature := hex_encode (replicate 64 CHR ''s'')\<rparr>)"
proof -
  let ?m = "sample_sent\<lparr>mPort := 7\<rparr>" and ?uc = "\<lparr>uc_lower = id, uc_fold = id\<rparr>"
  have ok: "VerifySignature ?uc (only_crypto sample_sent) (Some ?m) = None"
    by (rule only_crypto_verifies) (simp_all add: sample_sent_def claimed_id_def sign_parts_def sample_key_def)
  have "hex_decode (mPublicKey ?m) = Some sample_key
    \<and> (\<exists>s \<in> {sample_sent}. ?m = s\<lparr>mVersion := mVersion ?m, mPort := mPort ?m, mAddrs := mAddrs ?m,
          mSignature := mSignature ?m\<rparr>)"
    by (rule verified_message_was_signed [OF ok])
      (simp_all add: sample_sent_def only_crypto_def claimed_id_def DerivePeerID_def hex_decode_encode
        ToLower_hex_encode newline_free_def sign_parts_def newline_not_hex zero_message_def type_defs
        sample_key_def)
  then show ?thesis
    using ok by (auto simp: sample_sent_def zero_message_def)
qed

text \<open>
  C11. With newlines the payload is ambiguous: from any message to a channel whose text has the
  form \<^verbatim>\<open>x\<newline>y\<close> anyone can make a direct message to \<open>x\<close> with text \<open>y\<close> that carries the
  same signature and passes verification exactly when the original does, by moving the channel
  into the nickname.
\<close>

theorem signature_transfers_to_direct_message:
  assumes "mTo m = []" "mText m = x @ CHR 0x0A # y"
  shows "VerifySignature uc c
      (Some (m\<lparr>mNickname := mNickname m @ CHR 0x0A # mChannel m, mChannel := [], mTo := x, mText := y\<rparr>))
    = VerifySignature uc c (Some m)"
  (is "VerifySignature uc c (Some ?d) = _")
proof -
  have "SignBytes (Some ?d) = SignBytes (Some m)" "claimed_id ?d = claimed_id m"
    using assms by (simp_all add: sign_parts_def claimed_id_def)
  then show ?thesis
    by (intro VerifySignature_cong) simp_all
qed

theorem signature_transfers_witness:
  "VerifySignature \<lparr>uc_lower = id, uc_fold = id\<rparr>
     (only_crypto (sample_sent\<lparr>mText := ''bob'' @ CHR 0x0A # ''hi''\<rparr>))
     (Some (sample_sent\<lparr>mNickname := ''ann'' @ CHR 0x0A # ''#general'', mChannel := [], mTo := ''bob'', mText := ''hi''\<rparr>))
   = None"
proof -
  let ?m = "sample_sent\<lparr>mText := ''bob'' @ CHR 0x0A # ''hi''\<rparr>"
  have "VerifySignature \<lparr>uc_lower = id, uc_fold = id\<rparr> (only_crypto ?m) (Some ?m) = None"
    by (rule only_crypto_verifies) (simp_all add: sample_sent_def claimed_id_def sample_key_def)
  then show ?thesis
    using signature_transfers_to_direct_message [of ?m "''bob''" "''hi''"]
    by (simp add: sample_sent_def zero_message_def)
qed

end
