(* ===== verification/Router.thy ===== *)
theory Router
  imports Seen Sign
begin

text \<open>
  \<^verbatim>\<open>src/internal/router/router.go\<close>: flooding with the cache of seen ids. The
  handler and the sender are callbacks; the model returns the calls it makes to them, in
  order, as a list of \<open>effect\<close>s, and two flags say whether they are set. \<^verbatim>\<open>Validate\<close>
  rewrites the message in place, so what is delivered and forwarded is the rewritten one.
  \<^verbatim>\<open>Handle\<close> reads the clock twice (freshness, then the cache); both readings are
  arguments.
\<close>

section \<open>The router\<close>

datatype effect = Deliver message string | Broadcast message string

record router =
  rt_seen :: seen_store
  rt_sender :: bool
  rt_handler :: bool

definition New :: "bool \<Rightarrow> bool \<Rightarrow> int \<Rightarrow> int \<Rightarrow> router" where
  "New sender handler ttl mx = \<lparr>rt_seen = NewSeenStore ttl mx, rt_sender = sender, rt_handler = handler\<rparr>"

fun Handle ::
  "unicode \<Rightarrow> int \<Rightarrow> int \<Rightarrow> message option \<Rightarrow> string \<Rightarrow> router \<Rightarrow> bool \<times> effect list \<times> router" where
  "Handle uc now1 now2 None fromPeer r = (False, [], r)"
| "Handle uc now1 now2 (Some m) fromPeer r =
     (if \<not> IsRoutable (mType m) then (False, [], r)
      else
        (case Validate uc (Some m) of
           (None, Some m') \<Rightarrow>
             if Fresh (Some m') now1 \<noteq> None then (False, [], r)
             else
               (let (added, s) = Add (mID m') now2 (rt_seen r); r' = r\<lparr>rt_seen := s\<rparr> in
                if \<not> added then (False, [], r')
                else
                  (True,
                   (if rt_handler r then [Deliver m' fromPeer] else [])
                   @ (if rt_sender r \<and> mTo m' = [] then [Broadcast m' fromPeer] else []), r'))
         | _ \<Rightarrow> (False, [], r)))"

definition Inject :: "unicode \<Rightarrow> int \<Rightarrow> int \<Rightarrow> message option \<Rightarrow> router \<Rightarrow> bool \<times> effect list \<times> router" where
  "Inject uc now1 now2 m r = Handle uc now1 now2 m [] r"

definition RouterSweep :: "int \<Rightarrow> router \<Rightarrow> router" where
  "RouterSweep now r = r\<lparr>rt_seen := Sweep now (rt_seen r)\<rparr>"

text \<open>
  The calls a node makes on its router: a message from a peer or from itself, an id recorded
  directly (\<^verbatim>\<open>Seen().Add\<close>), the periodic sweep.
\<close>

datatype router_call =
    CHandle int int message string
  | CAdd string int
  | CSweep int

fun call_step :: "unicode \<Rightarrow> router_call \<Rightarrow> router \<Rightarrow> router" where
  "call_step uc (CHandle now1 now2 m p) r = snd (snd (Handle uc now1 now2 (Some m) p r))"
| "call_step uc (CAdd i now) r = r\<lparr>rt_seen := snd (Add i now (rt_seen r))\<rparr>"
| "call_step uc (CSweep now) r = RouterSweep now r"

fun call_time :: "router_call \<Rightarrow> int" where
  "call_time (CHandle now1 now2 m p) = now2"
| "call_time (CAdd i now) = now"
| "call_time (CSweep now) = now"

text \<open>The abstract decision of the router: is the message to be acted on?\<close>

definition accepts :: "unicode \<Rightarrow> int \<Rightarrow> message \<Rightarrow> router \<Rightarrow> bool" where
  "accepts uc now m r \<longleftrightarrow>
     IsRoutable (mType m) \<and> fst (Validate uc (Some m)) = None \<and> Fresh (Some m) now = None
     \<and> \<not> Has (rt_seen r) (mID m)"

text \<open>A signed message with a channel that is not in normal form, for a witness.\<close>

definition sample_signed :: message where
  "sample_signed = sample_join\<lparr>mSender := hex_encode (replicate 32 CHR ''a''), mChannel := ''General'',
     mPublicKey := hex_encode (replicate 32 CHR ''k''), mSignature := hex_encode (replicate 64 CHR ''s'')\<rparr>"

definition sample_crypto :: crypto where
  "sample_crypto = \<lparr>c_sha256 = (\<lambda>x. replicate 32 CHR ''a''), c_sign = (\<lambda>k x. replicate 64 CHR ''s''),
     c_verify = (\<lambda>k x s. x = SignBytes (Some sample_signed))\<rparr>"

section \<open>Lemmas\<close>

lemma Fresh_channel [simp]: "Fresh (Some (m\<lparr>mChannel := ch\<rparr>)) now = Fresh (Some m) now"
  by (simp add: Fresh.simps)

lemma Validate_result:
  obtains e m' ch where "Validate uc (Some m) = (e, Some m')" "m' = m\<lparr>mChannel := ch\<rparr>"
proof -
  obtain e m' where v: "Validate uc (Some m) = (e, Some m')"
    by (cases "ValidateEnvelope (Some m)"; cases "validate_type uc m") auto
  moreover have "\<exists>ch. m' = m\<lparr>mChannel := ch\<rparr>"
    using v by (auto simp: same_channel dest: validate_type_shape split: option.splits prod.splits)
  ultimately show thesis using that by blast
qed

declare Validate.simps(2) [simp del]

lemma Add_fst: "seen_inv s \<Longrightarrow> fst (Add i now s) \<longleftrightarrow> \<not> Has s i"
  using Add_seen remembers_Add_new by force

lemma Handle_accepts:
  assumes "seen_inv (rt_seen r)"
  shows "fst (Handle uc now1 now2 (Some m) p r) \<longleftrightarrow> accepts uc now1 m r"
proof -
  obtain e m' ch where v: "Validate uc (Some m) = (e, Some m')" "m' = m\<lparr>mChannel := ch\<rparr>"
    by (rule Validate_result)
  then show ?thesis
    using Add_fst [OF assms, of "mID m" now2]
    by (cases e) (auto simp: accepts_def case_prod_unfold Let_def)
qed

lemma Handle_seen:
  "rt_seen (snd (snd (Handle uc now1 now2 (Some m) p r))) =
     (if IsRoutable (mType m) \<and> fst (Validate uc (Some m)) = None \<and> Fresh (Some m) now1 = None
      then snd (Add (mID m) now2 (rt_seen r)) else rt_seen r)"
proof -
  obtain e m' ch where v: "Validate uc (Some m) = (e, Some m')" "m' = m\<lparr>mChannel := ch\<rparr>"
    by (rule Validate_result)
  then show ?thesis
    by (cases e) (auto simp: case_prod_unfold Let_def)
qed

lemma Handle_reject:
  assumes "seen_inv (rt_seen r)" "\<not> accepts uc now1 m r"
  shows "Handle uc now1 now2 (Some m) p r = (False, [], r)"
proof -
  obtain e m' ch where v: "Validate uc (Some m) = (e, Some m')" "m' = m\<lparr>mChannel := ch\<rparr>"
    by (rule Validate_result)
  then show ?thesis
    using assms Add_seen [of "rt_seen r" "mID m" now2]
    by (cases e) (auto simp: accepts_def)
qed

declare Handle.simps(2) [simp del]

lemma accepted_channel:
  assumes "accepts uc now m r" "mTo m = []" "NormalizeChannel uc (mChannel m) = Inr ch"
  shows "Validate uc (Some m) = (None, Some (m\<lparr>mChannel := ch\<rparr>))"
proof -
  obtain m' where v: "Validate uc (Some m) = (None, Some m')"
    using assms(1) Validate_result [of uc m] unfolding accepts_def by (metis fst_conv)
  then have "validate_type uc m = (None, m')" by (simp add: Validate_ok_iff)
  then have "m' = m\<lparr>mChannel := ch\<rparr>"
    using assms by (auto simp: accepts_def IsRoutable_def validate_type_def validate_chat_def type_defs
        Let_def split: if_splits)
  with v show ?thesis by simp
qed

lemma call_step_seen:
  "\<exists>ops. rt_seen (call_step uc c r) = fold (op_step Add Sweep) ops (rt_seen r)
     \<and> length (filter is_add ops) \<le> 1 \<and> (\<forall>p \<in> set ops. op_time p = call_time c)"
proof (cases c)
  case (CHandle now1 now2 m p)
  show ?thesis
  proof (cases "IsRoutable (mType m) \<and> fst (Validate uc (Some m)) = None \<and> Fresh (Some m) now1 = None")
    case True
    then show ?thesis
      using CHandle by (intro exI [of _ "[OpAdd (mID m) now2]"]) (simp add: Handle_seen)
  next
    case False
    then show ?thesis
      using CHandle by (intro exI [of _ "[]"]) (auto simp: Handle_seen)
  qed
next
  case (CAdd i now)
  then show ?thesis by (intro exI [of _ "[OpAdd i now]"]) simp
next
  case (CSweep now)
  then show ?thesis by (intro exI [of _ "[OpSweep now]"]) (simp add: RouterSweep_def)
qed

lemma call_fold_seen:
  "\<exists>ops. rt_seen (fold (call_step uc) cs r) = fold (op_step Add Sweep) ops (rt_seen r)
     \<and> length (filter is_add ops) \<le> length cs \<and> (\<forall>p \<in> set ops. \<exists>c \<in> set cs. op_time p = call_time c)"
proof (induction cs arbitrary: r)
  case Nil
  then show ?case by (intro exI [of _ "[]"]) simp
next
  case (Cons c cs)
  obtain o1 where o1: "rt_seen (call_step uc c r) = fold (op_step Add Sweep) o1 (rt_seen r)"
    "length (filter is_add o1) \<le> 1" "\<forall>p \<in> set o1. op_time p = call_time c"
    using call_step_seen by blast
  obtain o2 where o2: "rt_seen (fold (call_step uc) cs (call_step uc c r))
      = fold (op_step Add Sweep) o2 (rt_seen (call_step uc c r))"
    "length (filter is_add o2) \<le> length cs" "\<forall>p \<in> set o2. \<exists>c \<in> set cs. op_time p = call_time c"
    using Cons.IH by blast
  show ?case
    using o1 o2 by (intro exI [of _ "o1 @ o2"]) auto
qed

text \<open>Two instants at which one message is fresh are at most twelve minutes apart.\<close>

lemma Fresh_span:
  assumes "Fresh (Some m) a = None" "Fresh (Some m) b = None"
  shows "b \<le> a + (MaxFutureSkew + MaxPastSkew)"
proof -
  let ?t = "time_Unix (mTimestamp m)"
  have "?t \<le> a + MaxFutureSkew" "\<not> time_Sub b ?t > MaxPastSkew"
    using assms by (auto simp: Fresh.simps Let_def split: if_splits)
  moreover have "time_Sub b ?t > MaxPastSkew \<longleftrightarrow> b - ?t > MaxPastSkew"
    by (rule time_Sub_gt) (simp_all add: MaxPastSkew_def second_def)
  ultimately show ?thesis by simp
qed

lemma call_fold_inv: "seen_inv (rt_seen r) \<Longrightarrow> seen_inv (rt_seen (fold (call_step uc) cs r))"
  using call_fold_seen [of uc cs r] seen.fold_frame(1) by metis

lemma Handle_broadcast:
  assumes "seen_inv (rt_seen r)" "Broadcast m' q \<in> set (fst (snd (Handle uc now1 now2 (Some m) p r)))"
  shows "validate_type uc m = (None, m') \<and> q = p"
proof -
  have acc: "accepts uc now1 m r"
    using assms Handle_reject by fastforce
  obtain e k ch where v: "Validate uc (Some m) = (e, Some k)" "k = m\<lparr>mChannel := ch\<rparr>"
    by (rule Validate_result)
  have e: "e = None" using acc v by (simp add: accepts_def)
  have "m' = k \<and> q = p"
    using assms(2) v e by (auto simp: Handle.simps case_prod_unfold Let_def split: if_splits)
  then show ?thesis using v e by (simp add: Validate_ok_iff)
qed

lemma sample_join_accepted: "accepts sample_uc sample_now sample_join (New True True 0 0)"
  using sample_join_valid sample_join_fresh
  by (simp add: accepts_def New_def NewSeenStore_def Has_def gm_has_def gm.get_empty)
     (simp add: IsRoutable_def type_defs)

section \<open>Properties\<close>

text \<open>
  C6. What the router does with a message: it acts on it exactly when its type is routable, it
  validates, its timestamp is in the window and its id is not in the cache; then the id is in the
  cache afterwards and the calls are one delivery and, unless the message is direct, one
  broadcast that leaves out the peer it came from, both of the validated message. Otherwise
  nothing is called.
\<close>

theorem handle_decision:
  assumes "seen_inv (rt_seen r)" "rt_handler r" "rt_sender r"
  shows "Handle uc now1 now2 (Some m) fromPeer r =
    (if accepts uc now1 m r then
       (let m' = the (snd (Validate uc (Some m))) in
        (True, Deliver m' fromPeer # (if mTo m = [] then [Broadcast m' fromPeer] else []),
         r\<lparr>rt_seen := snd (Add (mID m) now2 (rt_seen r))\<rparr>))
     else (False, [], r))"
proof (cases "accepts uc now1 m r")
  case True
  obtain e m' ch where v: "Validate uc (Some m) = (e, Some m')" "m' = m\<lparr>mChannel := ch\<rparr>"
    by (rule Validate_result)
  have "fst (Add (mID m) now2 (rt_seen r))"
    using True assms(1) by (simp add: accepts_def Add_fst)
  then show ?thesis
    using True v assms(2,3) by (auto simp: accepts_def Handle.simps case_prod_unfold Let_def)
next
  case False
  then show ?thesis using Handle_reject [OF assms(1)] by simp
qed

theorem handle_decision_witness:
  "Handle sample_uc sample_now sample_now (Some sample_join) ''p'' (New True True 0 0)
   = (True, [Deliver sample_join ''p'', Broadcast sample_join ''p''],
      (New True True 0 0)\<lparr>rt_seen := snd (Add ''x'' sample_now (NewSeenStore 0 0))\<rparr>)"
proof -
  have r: "seen_inv (rt_seen (New True True 0 0))" "rt_handler (New True True 0 0)"
    "rt_sender (New True True 0 0)"
    by (simp_all add: New_def NewSeenStore_inv)
  show ?thesis
    unfolding handle_decision [OF r] using sample_join_accepted sample_join_valid
    by (simp add: New_def)
qed

text \<open>
  C5. Replay protection: once the router acted on a message, it does not act on any message with
  that id until the time to live of the cache is over, whatever else the message says, as long as
  fewer than \<^verbatim>\<open>SeenMax\<close> router calls came in between. A message that also keeps the timestamp is
  never acted on again, however late, when the time to live is at least the twelve minutes for
  which a timestamp can be acceptable: then the timestamp is too old by the time the id expires.
\<close>

theorem no_replay:
  assumes "seen_inv (rt_seen r)"
    and "fst (Handle uc t t' (Some m) p r)" "t \<le> t'"
    and "length cs < ss_max (rt_seen r)"
    and "\<forall>c \<in> set cs. call_time c \<le> u"
    and "mID m' = mID m"
    and "u \<le> t' + ss_ttl (rt_seen r)
      \<or> mTimestamp m' = mTimestamp m \<and> 12 * 60 * second \<le> ss_ttl (rt_seen r)"
  shows "\<not> fst (Handle uc u v (Some m') p' (fold (call_step uc) cs (snd (snd (Handle uc t t' (Some m) p r)))))"
proof
  let ?r1 = "snd (snd (Handle uc t t' (Some m) p r))" and ?i = "mID m"
  let ?r2 = "fold (call_step uc) cs ?r1"
  assume again: "fst (Handle uc u v (Some m') p' ?r2)"
  have acc: "accepts uc t m r" using assms(1,2) Handle_accepts by blast
  then have s1: "rt_seen ?r1 = snd (Add ?i t' (rt_seen r))" and new: "fst (Add ?i t' (rt_seen r))"
    using assms(1) by (simp_all add: accepts_def Handle_seen Add_fst)
  have inv2: "seen_inv (rt_seen ?r2)"
    by (rule call_fold_inv) (simp only: s1 Add_inv assms(1))
  have acc2: "accepts uc u m' ?r2" using again Handle_accepts [OF inv2] by blast
  have u: "u \<le> t' + ss_ttl (rt_seen r)"
    using assms(7)
  proof
    assume old: "mTimestamp m' = mTimestamp m \<and> 12 * 60 * second \<le> ss_ttl (rt_seen r)"
    then have "Fresh (Some m') w = Fresh (Some m) w" for w
      by (simp add: Fresh.simps)
    then have "u \<le> t + (MaxFutureSkew + MaxPastSkew)"
      using acc acc2 Fresh_span [of m t u] by (simp add: accepts_def)
    then show ?thesis
      using old assms(3) by (simp add: MaxFutureSkew_def MaxPastSkew_def second_def)
  qed
  obtain ops where ops: "rt_seen ?r2 = fold (op_step Add Sweep) ops (rt_seen ?r1)"
    "length (filter is_add ops) \<le> length cs" "\<forall>q \<in> set ops. \<exists>c \<in> set cs. op_time q = call_time c"
    using call_fold_seen by blast
  have "Add ?i v (fold (op_step Add Sweep) ops (snd (Add ?i t' (rt_seen r))))
      = (False, fold (op_step Add Sweep) ops (snd (Add ?i t' (rt_seen r))))"
    using assms(1,4,5) new ops u by (intro seen.add_again_rejected) fastforce+
  then have "\<not> fst (Add ?i v (rt_seen ?r2))" by (simp add: ops(1) s1)
  then show False
    using acc2 assms(6) by (simp add: accepts_def Add_fst inv2)
qed

theorem no_replay_witness:
  "\<not> fst (Handle sample_uc (sample_now + 99) (sample_now + 99) (Some (sample_join\<lparr>mTimestamp := 1\<rparr>)) ''q''
      (fold (call_step sample_uc) [CSweep (sample_now + 5), CAdd ''y'' (sample_now + 7)]
        (snd (snd (Handle sample_uc sample_now sample_now (Some sample_join) ''p'' (New True True 0 0))))))"
proof -
  have r: "seen_inv (rt_seen (New True True 0 0))"
    by (simp add: New_def NewSeenStore_inv)
  show ?thesis
    by (rule no_replay [OF r]) (use sample_join_accepted Handle_accepts [OF r] in
      \<open>simp_all add: New_def NewSeenStore_def second_def\<close>)
qed

text \<open>
  A message whose channel is already in normal form is forwarded unchanged, so the next hop
  verifies exactly what this hop verified.
\<close>

theorem forward_unchanged:
  assumes "seen_inv (rt_seen r)" "Broadcast m' q \<in> set (fst (snd (Handle uc now1 now2 (Some m) p r)))"
    and "channel_name (mChannel m)"
  shows "m' = m \<and> q = p"
proof -
  obtain k where k: "validate_type uc m = (None, k)" "m' = k" "q = p"
    using Handle_broadcast [OF assms(1,2)] by blast
  then have "k = m"
    using NormalizeChannel_id [OF assms(3), of uc]
    by (auto simp: validate_type_def validate_chat_def Let_def split: if_splits)
  with k show ?thesis by simp
qed

text \<open>
  C10. A message whose channel is not in normal form breaks on the way: the router that accepts it
  forwards it with the channel rewritten and the signature kept, and since the signature does not
  hold for two different payloads, the forwarded message fails verification at the next hop,
  although the original verified at this one.
\<close>

theorem forward_breaks_signature:
  assumes "seen_inv (rt_seen r)" "rt_sender r" "accepts uc now1 m r" "mTo m = []"
    and "NormalizeChannel uc (mChannel m) = Inr ch" "ch \<noteq> mChannel m"
    and "VerifySignature uc c (Some m) = None"
    and "hex_decode (mPublicKey m) = Some pub" "hex_decode (mSignature m) = Some sig"
    and "\<not> (c_verify c pub (SignBytes (Some m)) sig \<and> c_verify c pub (SignBytes (Some (m\<lparr>mChannel := ch\<rparr>))) sig)"
  shows "Broadcast (m\<lparr>mChannel := ch\<rparr>) p \<in> set (fst (snd (Handle uc now1 now2 (Some m) p r)))
    \<and> VerifySignature uc c (Some (m\<lparr>mChannel := ch\<rparr>)) = Some BadSignature"
proof
  have "Validate uc (Some m) = (None, Some (m\<lparr>mChannel := ch\<rparr>))"
    using assms(3-5) by (rule accepted_channel)
  then show "Broadcast (m\<lparr>mChannel := ch\<rparr>) p \<in> set (fst (snd (Handle uc now1 now2 (Some m) p r)))"
    using assms(1-4) by (simp add: accepts_def Handle.simps case_prod_unfold Let_def Add_fst)
  show "VerifySignature uc c (Some (m\<lparr>mChannel := ch\<rparr>)) = Some BadSignature"
    using assms(7-10) unfolding VerifySignature_iff
    by (auto simp: VerifySignature.simps DerivePeerID_def simp del: SignBytes.simps)
qed

theorem forward_breaks_signature_witness:
  "Broadcast (sample_signed\<lparr>mChannel := ''#general''\<rparr>) ''p''
      \<in> set (fst (snd (Handle sample_uc sample_now sample_now (Some sample_signed) ''p'' (New True True 0 0))))
   \<and> VerifySignature sample_uc sample_crypto (Some (sample_signed\<lparr>mChannel := ''#general''\<rparr>)) = Some BadSignature"
proof -
  let ?r = "New True True 0 0"
  have r: "seen_inv (rt_seen ?r)" "rt_sender ?r"
    by (simp_all add: New_def NewSeenStore_inv)
  have v: "Validate sample_uc (Some sample_signed) = (None, Some (sample_signed\<lparr>mChannel := ''#general''\<rparr>))"
    using sample_normalized sample_join_valid
    by (auto simp: Validate_ok_iff ValidateEnvelope.simps validate_type_def type_defs size_defs
        sample_signed_def split: if_splits)
  have acc: "accepts sample_uc sample_now sample_signed ?r"
    using v sample_join_accepted
    by (simp add: accepts_def) (auto simp: sample_signed_def Fresh.simps split: if_splits)
  have ver: "VerifySignature sample_uc sample_crypto (Some sample_signed) = None"
    unfolding VerifySignature_iff
    by (simp add: sample_crypto_def claimed_id_def DerivePeerID_def key_size_defs)
       (simp add: sample_signed_def claimed_id_def hex_decode_encode ToLower_hex_encode)
  show ?thesis
    by (rule forward_breaks_signature [OF r acc _ _ _ ver,
          where pub = "replicate 32 CHR ''k''" and sig = "replicate 64 CHR ''s''"])
      (use sample_normalized in \<open>simp_all add: sample_crypto_def,
        simp_all add: sample_signed_def hex_decode_encode sign_parts_def\<close>)
qed

end
