(* ===== verification/Limiter.thy ===== *)
theory Limiter
  imports Prelude
begin

text \<open>
  \<^verbatim>\<open>src/internal/limiter/limiter.go\<close>: the per-key sliding window. A nil
  \<^verbatim>\<open>*Window\<close> is \<open>None\<close>. \<^verbatim>\<open>dropOldestLocked\<close> iterates over the map of
  hits; its order of keys is an argument. The clock reading of \<^verbatim>\<open>Allow\<close> is an
  argument too. The properties: at most \<^verbatim>\<open>limit\<close> events of a key pass in any closed
  interval of length \<^verbatim>\<open>span\<close> while the key is not evicted, and the map never holds more
  than \<^verbatim>\<open>maxKeys\<close> keys.
\<close>

section \<open>The window\<close>

record window =
  w_limit :: nat
  w_span :: int
  w_hits :: "(string, int list) gomap"
  w_maxKeys :: nat

definition NewWindow :: "int \<Rightarrow> int \<Rightarrow> window" where
  "NewWindow limit span =
     \<lparr>w_limit = (if limit \<le> 0 then 30 else nat limit),
      w_span = (if span \<le> 0 then 1000000000 else span),
      w_hits = gm_empty, w_maxKeys = 4096\<rparr>"

text \<open>
  The loop of \<^verbatim>\<open>dropOldestLocked\<close> in the given order: it deletes the keys without hits and
  carries the oldest key seen so far with its first hit.
\<close>

fun drop_scan ::
  "string list \<Rightarrow> (string, int list) gomap \<Rightarrow> (string \<times> int) option
    \<Rightarrow> (string, int list) gomap \<times> (string \<times> int) option" where
  "drop_scan [] h best = (h, best)"
| "drop_scan (k # ks) h best =
     (case gm_get h k of
        None \<Rightarrow> drop_scan ks h best
      | Some [] \<Rightarrow> drop_scan ks (gm_del k h) best
      | Some (t # ts) \<Rightarrow>
          drop_scan ks h
            (case best of
               None \<Rightarrow> Some (k, t)
             | Some (bk, bt) \<Rightarrow> if t < bt then Some (k, t) else Some (bk, bt)))"

definition dropOldestLocked :: "string list \<Rightarrow> window \<Rightarrow> window" where
  "dropOldestLocked order w =
     (let (h, best) = drop_scan order (w_hits w) None;
          oldest = (case best of None \<Rightarrow> [] | Some (k, t) \<Rightarrow> k) in
      w\<lparr>w_hits := (if oldest \<noteq> [] then gm_del oldest h else h)\<rparr>)"

definition hits_of :: "window \<Rightarrow> string \<Rightarrow> int list" where
  "hits_of w k = (case gm_get (w_hits w) k of None \<Rightarrow> [] | Some q \<Rightarrow> q)"

fun Allow :: "string list \<Rightarrow> int \<Rightarrow> string \<Rightarrow> window option \<Rightarrow> bool \<times> window option" where
  "Allow order now key None = (True, None)"
| "Allow order now key (Some w) =
     (if key = [] then (True, Some w)
      else
        (let q = dropWhile (\<lambda>t. t < now - w_span w) (hits_of w key) in
         if length q \<ge> w_limit w then (False, Some (w\<lparr>w_hits := gm_put key q (w_hits w)\<rparr>))
         else
           (let w1 = (if \<not> gm_has (w_hits w) key \<and> gm_len (w_hits w) \<ge> w_maxKeys w
                      then dropOldestLocked order w else w) in
            (True, Some (w1\<lparr>w_hits := gm_put key (q @ [now]) (w_hits w1)\<rparr>)))))"

definition window_inv :: "window \<Rightarrow> bool" where
  "window_inv w \<longleftrightarrow>
     0 < w_limit w \<and> 0 < w_span w \<and> 0 < w_maxKeys w \<and> gm_wf (w_hits w)
     \<and> gm_len (w_hits w) \<le> w_maxKeys w \<and> gm_get (w_hits w) [] = None
     \<and> (\<forall>k q. gm_get (w_hits w) k = Some q \<longrightarrow> q \<noteq> [] \<and> length q \<le> w_limit w)"

text \<open>A run of calls (iteration order, instant, key): the granted calls and the final window.\<close>

fun allow_run :: "(string list \<times> int \<times> string) list \<Rightarrow> window \<Rightarrow> (string \<times> int) list \<times> window" where
  "allow_run [] w = ([], w)"
| "allow_run ((order, now, key) # cs) w =
     (let (ok, w') = Allow order now key (Some w);
          (granted, w'') = allow_run cs (the w') in
      (if ok then (key, now) # granted else granted, w''))"

text \<open>The iteration orders of the calls are orders of the keys present at each call.\<close>

fun orders_ok :: "(string list \<times> int \<times> string) list \<Rightarrow> window \<Rightarrow> bool" where
  "orders_ok [] w = True"
| "orders_ok ((order, now, key) # cs) w =
     (range_order (w_hits w) order \<and> orders_ok cs (the (snd (Allow order now key (Some w)))))"

text \<open>The keys and the instants of a run of calls.\<close>

abbreviation call_keys :: "(string list \<times> int \<times> string) list \<Rightarrow> string set" where
  "call_keys cs \<equiv> (\<lambda>c. snd (snd c)) ` set cs"

abbreviation call_times :: "(string list \<times> int \<times> string) list \<Rightarrow> int list" where
  "call_times cs \<equiv> map (\<lambda>c. fst (snd c)) cs"

definition granted_times :: "string \<Rightarrow> (string \<times> int) list \<Rightarrow> int list" where
  "granted_times k gs = map snd (filter (\<lambda>g. fst g = k) gs)"

text \<open>Any \<open>n + 1\<close> consecutive instants span more than \<open>d\<close>.\<close>

definition spaced :: "nat \<Rightarrow> int \<Rightarrow> int list \<Rightarrow> bool" where
  "spaced n d ts \<longleftrightarrow> sorted ts \<and> (\<forall>i < length ts. n \<le> i \<longrightarrow> ts ! i - ts ! (i - n) > d)"

text \<open>
  What the window knows of a key granted at \<open>G\<close>: its hits are a final part of \<open>G\<close>, and what
  was dropped is older than the span at the last instant \<open>now0\<close>.
\<close>

definition tracks :: "window \<Rightarrow> string \<Rightarrow> int list \<Rightarrow> int \<Rightarrow> bool" where
  "tracks w k G now0 \<longleftrightarrow>
     spaced (w_limit w) (w_span w) G \<and> (\<forall>x \<in> set G. x \<le> now0)
     \<and> (\<exists>n \<le> length G. hits_of w k = drop n G \<and> (\<forall>x \<in> set (take n G). x < now0 - w_span w))"

lemma NewWindow_start [simp]:
  "w_hits (NewWindow limit span) = gm_empty" "w_maxKeys (NewWindow limit span) = 4096"
  by (simp_all add: NewWindow_def)

section \<open>Eviction\<close>

lemma drop_scan_frame:
  "(\<And>k. gm_get h k \<noteq> Some []) \<Longrightarrow> fst (drop_scan ks h best) = h"
  by (induction ks h best rule: drop_scan.induct) (auto split: option.split list.split)

text \<open>The scan ends with the key whose first hit is the oldest of those it met.\<close>

lemma drop_scan_best:
  assumes "\<And>k. gm_get h k \<noteq> Some []"
    and "best = None \<or> (\<exists>k t ts. best = Some (k, t) \<and> gm_get h k = Some (t # ts))"
    and "best \<noteq> None \<or> set ks \<inter> dom (gm_get h) \<noteq> {}"
  shows "\<exists>k t ts. snd (drop_scan ks h best) = Some (k, t) \<and> gm_get h k = Some (t # ts)
    \<and> (\<forall>k' t' ts'. k' \<in> set ks \<longrightarrow> gm_get h k' = Some (t' # ts') \<longrightarrow> t \<le> t')
    \<and> (\<forall>k' t'. best = Some (k', t') \<longrightarrow> t \<le> t')"
  using assms(2,3)
proof (induction ks arbitrary: best)
  case Nil
  then show ?case by auto
next
  case (Cons k ks)
  show ?case
  proof (cases "gm_get h k")
    case None
    then show ?thesis
      using Cons.IH [of best] Cons.prems by (auto simp: domIff)
  next
    case (Some q)
    then obtain t ts where q: "q = t # ts" using assms(1) [of k] by (cases q) auto
    define best' where "best' = (case best of None \<Rightarrow> Some (k, t)
      | Some (bk, bt) \<Rightarrow> if t < bt then Some (k, t) else Some (bk, bt))"
    have b: "\<exists>k t ts. best' = Some (k, t) \<and> gm_get h k = Some (t # ts)"
      using Cons.prems(1) Some q by (auto simp: best'_def split: option.splits if_splits)
    obtain k1 t1 ts1 where r: "snd (drop_scan ks h best') = Some (k1, t1)" "gm_get h k1 = Some (t1 # ts1)"
      "\<forall>k' t' ts'. k' \<in> set ks \<longrightarrow> gm_get h k' = Some (t' # ts') \<longrightarrow> t1 \<le> t'"
      "\<forall>k' t'. best' = Some (k', t') \<longrightarrow> t1 \<le> t'"
      using Cons.IH [of best'] b by auto
    have "t1 \<le> t" "\<forall>k' t'. best = Some (k', t') \<longrightarrow> t1 \<le> t'"
      using r(4) by (auto simp: best'_def split: option.splits if_splits)
    then show ?thesis
      using r Some q by (auto simp: best'_def)
  qed
qed

lemma window_inv_hits: "window_inv w \<Longrightarrow> gm_get (w_hits w) k \<noteq> Some []"
  by (auto simp: window_inv_def)

text \<open>On a nonempty map the eviction removes exactly one key, one with the oldest first hit.\<close>

lemma dropOldest_spec:
  assumes inv: "window_inv w" and ord: "range_order (w_hits w) order" and ne: "w_hits w \<noteq> []"
  obtains k t ts where "gm_get (w_hits w) k = Some (t # ts)" "k \<noteq> []"
    "dropOldestLocked order w = w\<lparr>w_hits := gm_del k (w_hits w)\<rparr>"
    "\<And>k' t' ts'. gm_get (w_hits w) k' = Some (t' # ts') \<Longrightarrow> t \<le> t'"
proof -
  have dom: "set order = dom (gm_get (w_hits w))"
    using ord by (rule range_order_set)
  have "dom (gm_get (w_hits w)) \<noteq> {}"
    using ne by (cases "w_hits w") (auto simp: gm_get_map_of)
  with dom have "set order \<inter> dom (gm_get (w_hits w)) \<noteq> {}" by simp
  then obtain k t ts where b: "snd (drop_scan order (w_hits w) None) = Some (k, t)"
    "gm_get (w_hits w) k = Some (t # ts)"
    "\<forall>k' t' ts'. k' \<in> set order \<longrightarrow> gm_get (w_hits w) k' = Some (t' # ts') \<longrightarrow> t \<le> t'"
    using drop_scan_best [of "w_hits w" None order] window_inv_hits [OF inv] by blast
  moreover have "k \<noteq> []" using b(2) inv by (auto simp: window_inv_def)
  moreover have "dropOldestLocked order w = w\<lparr>w_hits := gm_del k (w_hits w)\<rparr>"
    using b(1) \<open>k \<noteq> []\<close> drop_scan_frame [of "w_hits w" order None] window_inv_hits [OF inv]
    by (simp add: dropOldestLocked_def Let_def case_prod_unfold)
  ultimately show thesis using that dom by blast
qed

section \<open>Allow keeps the invariant\<close>

text \<open>The hits of the key after the expired ones are dropped.\<close>

lemma Allow_cases:
  assumes "key \<noteq> []"
  defines "q \<equiv> \<lambda>now w. dropWhile (\<lambda>t. t < now - w_span w) (hits_of w key)"
  shows "w_limit w \<le> length (q now w) \<Longrightarrow>
      Allow order now key (Some w) = (False, Some (w\<lparr>w_hits := gm_put key (q now w) (w_hits w)\<rparr>))"
    and "length (q now w) < w_limit w \<Longrightarrow>
      w1 = (if \<not> gm_has (w_hits w) key \<and> gm_len (w_hits w) \<ge> w_maxKeys w then dropOldestLocked order w else w) \<Longrightarrow>
      Allow order now key (Some w) = (True, Some (w1\<lparr>w_hits := gm_put key (q now w @ [now]) (w_hits w1)\<rparr>))"
  using assms(1) by (simp_all add: q_def Let_def)

lemma hits_length: "window_inv w \<Longrightarrow> length (hits_of w k) \<le> w_limit w"
  by (auto simp: hits_of_def window_inv_def split: option.split)

lemma window_inv_put:
  assumes "window_inv w" "key \<noteq> []" "q \<noteq> []" "length q \<le> w_limit w"
    and "gm_has (w_hits w) key \<or> gm_len (w_hits w) < w_maxKeys w"
  shows "window_inv (w\<lparr>w_hits := gm_put key q (w_hits w)\<rparr>)"
  using assms by (auto simp: window_inv_def gm_laws gm.len_put gm_has_def)

lemma window_inv_drop:
  assumes inv: "window_inv w" and ord: "range_order (w_hits w) order"
    and full: "w_maxKeys w \<le> gm_len (w_hits w)"
  shows "window_inv (dropOldestLocked order w)
    \<and> gm_len (w_hits (dropOldestLocked order w)) < w_maxKeys w
    \<and> w_limit (dropOldestLocked order w) = w_limit w \<and> w_maxKeys (dropOldestLocked order w) = w_maxKeys w"
proof -
  have "w_hits w \<noteq> []"
    using inv full by (auto simp: window_inv_def gm_len_def)
  then obtain k t ts where k: "gm_get (w_hits w) k = Some (t # ts)"
    "dropOldestLocked order w = w\<lparr>w_hits := gm_del k (w_hits w)\<rparr>"
    using dropOldest_spec [OF inv ord] by metis
  have "gm_len (gm_del k (w_hits w)) < gm_len (w_hits w)"
    using gm.len_del_less k(1) inv by (auto simp: window_inv_def)
  then show ?thesis
    using inv k by (auto simp: window_inv_def gm_laws split: if_splits)
qed

lemma Allow_inv [inv_intros]:
  assumes inv: "window_inv w" and ord: "range_order (w_hits w) order"
  shows "\<exists>ok w'. Allow order now key (Some w) = (ok, Some w') \<and> window_inv w'
    \<and> w_limit w' = w_limit w \<and> w_maxKeys w' = w_maxKeys w"
proof (cases "key = []")
  case True
  then show ?thesis using inv by (intro exI [of _ True] exI [of _ w]) simp
next
  case key: False
  let ?q = "dropWhile (\<lambda>t. t < now - w_span w) (hits_of w key)"
  have len: "length ?q \<le> length (hits_of w key)" by (rule length_dropWhile_le)
  show ?thesis
  proof (cases "w_limit w \<le> length ?q")
    case True
    have "?q \<noteq> []" using True inv unfolding window_inv_def by (metis le_zero_eq list.size(3) not_less_zero)
    moreover have "gm_has (w_hits w) key"
      using \<open>?q \<noteq> []\<close> by (cases "gm_get (w_hits w) key") (auto simp: hits_of_def gm_has_def)
    ultimately show ?thesis
      using Allow_cases(1) [OF key True] window_inv_put [OF inv key, of ?q] len hits_length [OF inv, of key]
      by auto
  next
    case False
    let ?full = "\<not> gm_has (w_hits w) key \<and> w_maxKeys w \<le> gm_len (w_hits w)"
    define w1 where "w1 = (if ?full then dropOldestLocked order w else w)"
    have w1: "window_inv w1 \<and> w_limit w1 = w_limit w \<and> w_maxKeys w1 = w_maxKeys w
        \<and> (gm_has (w_hits w1) key \<or> gm_len (w_hits w1) < w_maxKeys w1)"
      using window_inv_drop [OF inv ord] inv by (auto simp: w1_def)
    have "window_inv (w1\<lparr>w_hits := gm_put key (?q @ [now]) (w_hits w1)\<rparr>)"
      using w1 key False by (intro window_inv_put) auto
    then show ?thesis
      using Allow_cases(2) [OF key, of now w w1 order] False w1 unfolding w1_def by auto
  qed
qed

section \<open>The window is a log of the grants\<close>

lemma dropWhile_sorted_filter:
  "sorted xs \<Longrightarrow> dropWhile (\<lambda>t. t < c) xs = filter (\<lambda>t. c \<le> t) (xs :: int list)"
proof (induction xs)
  case (Cons a xs)
  then have "c \<le> a \<Longrightarrow> filter (\<lambda>t. c \<le> t) xs = xs"
    by (intro filter_all_id) force
  with Cons show ?case by simp
qed simp

lemma tracksI:
  assumes "spaced (w_limit w) (w_span w) G" "\<forall>x \<in> set G. x \<le> now0" "n \<le> length G"
    "hits_of w k = drop n G" "\<forall>x \<in> set (take n G). x < now0 - w_span w"
  shows "tracks w k G now0"
  using assms unfolding tracks_def by blast

lemma tracks_recent:
  assumes "tracks w k G now0" "now0 \<le> now"
  shows "dropWhile (\<lambda>t. t < now - w_span w) (hits_of w k) = filter (\<lambda>t. now - w_span w \<le> t) G"
proof -
  obtain n where n: "hits_of w k = drop n G" "\<forall>x \<in> set (take n G). x < now0 - w_span w"
    using assms(1) by (auto simp: tracks_def)
  have "sorted (drop n G)"
    using assms(1) by (auto simp: tracks_def spaced_def sorted_wrt_drop)
  moreover have "filter (\<lambda>t. now - w_span w \<le> t) (take n G) = []"
    using n(2) assms(2) by (force simp: filter_empty_conv)
  ultimately show ?thesis
    using n(1) dropWhile_sorted_filter [of "drop n G"]
      filter_append [of "\<lambda>t. now - w_span w \<le> t" "take n G" "drop n G"] by simp
qed

text \<open>A sorted list keeps its spacing when an instant with few recent predecessors is added.\<close>

lemma spaced_snoc:
  assumes sp: "spaced n d G" and le: "\<forall>x \<in> set G. x \<le> now"
    and few: "length (filter (\<lambda>t. now - d \<le> t) G) < n"
  shows "spaced n d (G @ [now])"
proof -
  have srt: "sorted G" using sp by (simp add: spaced_def)
  have "now - G ! (length G - n) > d" if n: "n \<le> length G"
  proof (rule ccontr)
    assume "\<not> ?thesis"
    then have old: "now - d \<le> G ! (length G - n)" by simp
    have "\<forall>x \<in> set (drop (length G - n) G). now - d \<le> x"
    proof
      fix x assume "x \<in> set (drop (length G - n) G)"
      then obtain i where "i < n" "x = G ! (length G - n + i)"
        using n by (auto simp: in_set_conv_nth)
      then show "now - d \<le> x"
        using old sorted_nth_mono [OF srt, of "length G - n" "length G - n + i"] n by force
    qed
    then have "length (filter (\<lambda>t. now - d \<le> t) (drop (length G - n) G)) = n"
      using n by simp
    moreover have "length (filter (\<lambda>t. now - d \<le> t) G) \<ge> length (filter (\<lambda>t. now - d \<le> t) (drop (length G - n) G))"
      by (metis append_take_drop_id filter_append le_add2 length_append)
    ultimately show False using few by simp
  qed
  moreover have "0 < n" using few by simp
  ultimately show ?thesis
    using sp le by (auto simp: spaced_def sorted_append nth_append less_Suc_eq)
qed

lemma spaced_count:
  assumes "spaced n d ts"
  shows "length (filter (\<lambda>t. a \<le> t \<and> t \<le> a + d) ts) \<le> n"
proof (rule ccontr)
  let ?I = "{i. i < length ts \<and> a \<le> ts ! i \<and> ts ! i \<le> a + d}"
  assume "\<not> ?thesis"
  then have many: "n < card ?I" by (simp add: length_filter_conv_card)
  have fin: "finite ?I" by simp
  have ne: "?I \<noteq> {}" using many by (metis card.empty not_less_zero)
  have "?I \<subseteq> {Min ?I..Max ?I}" using fin by auto
  then have "card ?I \<le> Suc (Max ?I) - Min ?I"
    using card_mono [of "{Min ?I..Max ?I}" ?I] by simp
  then have gap: "Min ?I \<le> Max ?I - n" "n \<le> Max ?I" using many by simp_all
  have mem: "Max ?I \<in> ?I" "Min ?I \<in> ?I" using fin ne Max_in Min_in by blast+
  then have "ts ! (Min ?I) \<le> ts ! (Max ?I - n)"
    using assms gap by (intro sorted_nth_mono) (auto simp: spaced_def)
  then show False using assms mem gap(2) by (fastforce simp: spaced_def)
qed

lemma hits_of_put:
  "hits_of (w\<lparr>w_hits := gm_put key q h\<rparr>) k = (if k = key then q else hits_of (w\<lparr>w_hits := h\<rparr>) k)"
  by (simp add: hits_of_def gm_laws)

text \<open>One call on a window that need not evict: the grant is decided by the log, and kept in it.\<close>

lemma Allow_tracks:
  assumes G: "\<And>k. tracks w k (G k) now0" and now: "now0 \<le> now" and key: "key \<noteq> []"
    and room: "gm_has (w_hits w) key \<or> gm_len (w_hits w) < w_maxKeys w"
    and call: "Allow order now key (Some w) = (ok, Some w')"
  shows "ok = (length (filter (\<lambda>t. now - w_span w \<le> t) (G key)) < w_limit w)"
    and "tracks w' k (if ok \<and> k = key then G k @ [now] else G k) now"
proof -
  let ?q = "dropWhile (\<lambda>t. t < now - w_span w) (hits_of w key)"
  let ?r = "if ok then ?q @ [now] else ?q"
  note q = tracks_recent [OF G now, of key]
  have upd: "ok = (length ?q < w_limit w)" "w' = w\<lparr>w_hits := gm_put key ?r (w_hits w)\<rparr>"
    using call key room by (auto simp: Let_def split: if_splits)
  show ok: "ok = (length (filter (\<lambda>t. now - w_span w \<le> t) (G key)) < w_limit w)"
    using upd(1) q by simp
  have old: "spaced (w_limit w) (w_span w) (G j)" "\<forall>x \<in> set (G j). x \<le> now0" for j
    using G [of j] by (simp_all add: tracks_def)
  show "tracks w' k (if ok \<and> k = key then G k @ [now] else G k) now"
  proof (cases "k = key")
    case False
    then show ?thesis
      using G [of k] now unfolding upd(2) tracks_def hits_of_put by fastforce
  next
    case True
    obtain n where nl: "n \<le> length (G key)" and dq: "?q = drop n (G key)"
      and before: "\<forall>x \<in> set (take n (G key)). x < now - w_span w"
      using q dropWhile_sorted_filter [of "G key"] old(1) [of key]
      by (metis dropWhile_eq_drop takeWhile_eq_take length_takeWhile_le set_takeWhileD spaced_def)
    have hits: "hits_of w' key = ?r" by (simp add: upd(2) hits_of_put)
    have le: "\<forall>x \<in> set (G key). x \<le> now" using old(2) [of key] now by auto
    have const: "w_limit w' = w_limit w" "w_span w' = w_span w" by (simp_all add: upd(2))
    have le': "\<forall>x \<in> set (G key @ [now]). x \<le> now" using le by simp
    show ?thesis
    proof (cases ok)
      case False
      then have "hits_of w' key = drop n (G key)" using hits dq by simp
      then show ?thesis
        using True False tracksI [of w' "G key" now n key] old(1) [of key] le nl before
        unfolding const by simp
    next
      case ok': True
      have "spaced (w_limit w') (w_span w') (G key @ [now])"
        using spaced_snoc [OF old(1) le] ok ok' const by simp
      moreover have "hits_of w' key = drop n (G key @ [now])"
        using hits dq ok' nl by simp
      moreover have "\<forall>x \<in> set (take n (G key @ [now])). x < now - w_span w'"
        using before nl const by simp
      moreover have "n \<le> length (G key @ [now])" using nl by simp
      ultimately have "tracks w' key (G key @ [now]) now" using le' by (blast intro: tracksI)
      then show ?thesis using True ok' by simp
    qed
  qed
qed

section \<open>Runs of calls\<close>

lemma granted_times_simps [simp]:
  "granted_times k [] = []"
  "granted_times k ((key, now) # gs) = (if key = k then now # granted_times k gs else granted_times k gs)"
  by (simp_all add: granted_times_def)

lemma Allow_frame:
  assumes "Allow order now key (Some w) = (ok, Some w')" "key \<noteq> []"
    and "gm_has (w_hits w) key \<or> gm_len (w_hits w) < w_maxKeys w" "gm_wf (w_hits w)"
  shows "dom (gm_get (w_hits w')) = insert key (dom (gm_get (w_hits w)))" "gm_wf (w_hits w')"
    "w_limit w' = w_limit w" "w_span w' = w_span w" "w_maxKeys w' = w_maxKeys w"
  using assms by (auto simp: Let_def gm_laws split: if_splits)

lemma Allow_total: obtains ok w' where "Allow order now key (Some w) = (ok, Some w')"
  by (cases "key = []"; cases "w_limit w \<le> length (dropWhile (\<lambda>t. t < now - w_span w) (hits_of w key))")
    (simp_all add: Let_def)

lemma room_if_card:
  assumes "gm_wf (w_hits w)" "finite K" "card (insert key (dom (gm_get (w_hits w)) \<union> K)) \<le> w_maxKeys w"
  shows "gm_has (w_hits w) key \<or> gm_len (w_hits w) < w_maxKeys w"
proof (cases "key \<in> dom (gm_get (w_hits w))")
  case False
  have "Suc (card (dom (gm_get (w_hits w)))) = card (insert key (dom (gm_get (w_hits w))))"
    using False gm.fin [of "w_hits w"] by (simp add: domIff)
  also have "\<dots> \<le> w_maxKeys w"
    using assms(2,3) gm.fin by (meson card_mono finite.insertI finite_UnI insert_mono le_sup_iff order_refl order_trans sup_ge1)
  finally show ?thesis using gm.len_card [OF assms(1)] by simp
qed (simp add: gm_has_iff)

lemma allow_run_tracks:
  assumes "\<And>k. tracks w k (G k) now0" "gm_wf (w_hits w)" "[] \<notin> call_keys cs"
    and "sorted (now0 # call_times cs)"
    and "card (dom (gm_get (w_hits w)) \<union> call_keys cs) \<le> w_maxKeys w"
    and "allow_run cs w = (gs, w')"
  shows "(\<forall>k. tracks w' k (G k @ granted_times k gs) (last (now0 # call_times cs)))
    \<and> gm_wf (w_hits w') \<and> dom (gm_get (w_hits w')) = dom (gm_get (w_hits w)) \<union> call_keys cs
    \<and> w_limit w' = w_limit w \<and> w_span w' = w_span w \<and> w_maxKeys w' = w_maxKeys w"
  using assms
proof (induction cs arbitrary: w G now0 gs)
  case Nil
  then show ?case by simp
next
  case (Cons c cs)
  obtain order now key where c: "c = (order, now, key)" by (cases c) auto
  obtain ok w1 where call: "Allow order now key (Some w) = (ok, Some w1)"
    by (rule Allow_total)
  obtain gs1 where run: "allow_run cs w1 = (gs1, w')"
    and gs: "gs = (if ok then (key, now) # gs1 else gs1)"
    using Cons.prems(6) call by (auto simp: c split: prod.splits)
  have key: "key \<noteq> []" and now: "now0 \<le> now" using Cons.prems(3,4) c by auto
  have room: "gm_has (w_hits w) key \<or> gm_len (w_hits w) < w_maxKeys w"
    using room_if_card [of w "call_keys cs" key] Cons.prems(2,5) c by simp
  note fr = Allow_frame [OF call key room Cons.prems(2)]
  define G1 where "G1 = (\<lambda>k. if ok \<and> k = key then G k @ [now] else G k)"
  have G1: "tracks w1 k (G1 k) now" for k
    using Allow_tracks(2) [OF Cons.prems(1) now key room call] by (simp add: G1_def)
  have "\<forall>k. tracks w' k (G1 k @ granted_times k gs1) (last (now # call_times cs))"
    and rest: "gm_wf (w_hits w')" "dom (gm_get (w_hits w')) = dom (gm_get (w_hits w1)) \<union> call_keys cs"
      "w_limit w' = w_limit w1" "w_span w' = w_span w1" "w_maxKeys w' = w_maxKeys w1"
    using Cons.IH [OF G1 fr(2) _ _ _ run] Cons.prems(3,4,5) c fr by auto
  moreover have "G1 k @ granted_times k gs1 = G k @ granted_times k gs" for k
    by (simp add: G1_def gs)
  ultimately show ?case using fr by (auto simp: c)
qed

lemma tracks_new: "tracks (NewWindow limit span) k [] now0"
  by (simp add: tracks_def spaced_def hits_of_def NewWindow_def gm_laws)

lemma allow_run_new:
  assumes "[] \<notin> call_keys cs" "sorted (call_times cs)" "card (call_keys cs) \<le> 4096"
    and "allow_run cs (NewWindow limit span) = (gs, w)"
  shows "(cs \<noteq> [] \<longrightarrow> tracks w k (granted_times k gs) (last (call_times cs)))
    \<and> (cs = [] \<longrightarrow> w = NewWindow limit span \<and> gs = [])
    \<and> gm_wf (w_hits w) \<and> dom (gm_get (w_hits w)) = call_keys cs
    \<and> w_limit w = w_limit (NewWindow limit span) \<and> w_span w = w_span (NewWindow limit span)
    \<and> w_maxKeys w = 4096"
proof (cases cs)
  case Nil
  then show ?thesis using assms(4) by (auto simp: NewWindow_def gm_laws)
next
  case (Cons c cs')
  let ?w = "NewWindow limit span" and ?t = "hd (call_times cs)"
  have "sorted (?t # call_times cs)" using assms(2) Cons by simp
  then have "(\<forall>k. tracks w k ([] @ granted_times k gs) (last (?t # call_times cs)))
    \<and> gm_wf (w_hits w) \<and> dom (gm_get (w_hits w)) = dom (gm_get (w_hits ?w)) \<union> call_keys cs
    \<and> w_limit w = w_limit ?w \<and> w_span w = w_span ?w \<and> w_maxKeys w = w_maxKeys ?w"
    using assms(1,3,4) by (intro allow_run_tracks) (auto simp: tracks_new gm_laws dom_def)
  moreover have "last (?t # call_times cs) = last (call_times cs)" "cs \<noteq> []" using Cons by simp_all
  ultimately show ?thesis by (simp add: gm_laws dom_def)
qed

section \<open>Properties\<close>

text \<open>
  Whatever sequence of calls is made on a new window, with whatever iteration orders of
  its map, every call returns a window that keeps the invariant: at most \<^verbatim>\<open>maxKeys\<close>
  (4096) keys, each with between one and \<^verbatim>\<open>limit\<close> hits.
\<close>

theorem limiter_bounded:
  assumes "orders_ok cs (NewWindow limit span)" "allow_run cs (NewWindow limit span) = (gs, w)"
  shows "window_inv w \<and> w_maxKeys w = 4096 \<and> gm_len (w_hits w) \<le> 4096"
proof -
  have "window_inv w' \<and> w_maxKeys w' = w_maxKeys v"
    if "window_inv v" "orders_ok cs v" "allow_run cs v = (gs, w')" for v w'
    using that
  proof (induction cs arbitrary: v gs)
    case (Cons c cs)
    obtain order now key where c: "c = (order, now, key)" by (cases c) auto
    obtain ok v1 where "Allow order now key (Some v) = (ok, Some v1)" "window_inv v1" "w_maxKeys v1 = w_maxKeys v"
      using Allow_inv [of v order now key] Cons.prems(1,2) by (auto simp: c simp del: Allow.simps)
    then show ?case using Cons.IH [of v1] Cons.prems(2,3) by (auto simp: c simp del: Allow.simps split: prod.splits)
  qed simp
  moreover have "window_inv (NewWindow limit span)"
    by (auto simp: window_inv_def NewWindow_def gm_laws)
  ultimately show ?thesis
    using assms by (metis NewWindow_start(2) window_inv_def)
qed

text \<open>
  C13. While no more than 4096 keys are in use, with a clock that does not step back, a call
  passes exactly when fewer than \<^verbatim>\<open>limit\<close> events of its key passed during the last
  \<^verbatim>\<open>span\<close>: the map of hits is a faithful log of the grants.
\<close>

theorem limiter_exact:
  assumes "[] \<notin> call_keys (cs @ [(order, now, key)])" "sorted (call_times (cs @ [(order, now, key)]))"
    and "card (call_keys (cs @ [(order, now, key)])) \<le> 4096"
    and "allow_run cs (NewWindow limit span) = (gs, w)"
  shows "fst (Allow order now key (Some w)) =
    (length (filter (\<lambda>t. now - w_span w \<le> t) (granted_times key gs)) < w_limit w)"
proof -
  have key: "key \<noteq> []" using assms(1) by auto
  have card: "card (call_keys cs) \<le> 4096"
    using assms(3) by (auto simp: card_insert_if split: if_splits)
  have new: "tracks w k (granted_times k gs) (last (call_times cs))" if "cs \<noteq> []" for k
    using allow_run_new [OF _ _ card assms(4)] assms(1,2) that by (auto simp: sorted_append)
  have st: "gm_wf (w_hits w) \<and> dom (gm_get (w_hits w)) = call_keys cs \<and> w_maxKeys w = 4096
      \<and> (cs = [] \<longrightarrow> w = NewWindow limit span \<and> gs = [])"
    using allow_run_new [OF _ _ card assms(4)] assms(1,2) by (auto simp: sorted_append)
  have room: "gm_has (w_hits w) key \<or> gm_len (w_hits w) < w_maxKeys w"
    using st assms(3) by (intro room_if_card [where K = "{}"]) auto
  obtain ok w' where call: "Allow order now key (Some w) = (ok, Some w')"
    by (rule Allow_total)
  define now0 where "now0 = (if cs = [] then now else last (call_times cs))"
  have "now0 \<le> now"
    using assms(2) by (auto simp: now0_def sorted_append last_map)
  moreover have "tracks w k (granted_times k gs) now0" for k
    using new st tracks_new by (auto simp: now0_def granted_times_def)
  ultimately show ?thesis
    using Allow_tracks(1) [OF _ _ key room call, of "\<lambda>k. granted_times k gs" now0] call by simp
qed

theorem limiter_exact_witness:
  "fst (Allow [''a''] 12 ''a'' (Some (snd (allow_run [([], 1, ''a''), ([''a''], 2, ''a'')] (NewWindow 2 10)))))"
  using limiter_exact [of "[([], 1, ''a''), ([''a''], 2, ''a'')]" "[''a'']" 12 "''a''" 2 10, OF _ _ _ prod.collapse [symmetric]]
  by (auto simp: NewWindow_def gm_empty_def gm_put_def gm_get_def gm_has_def gm_len_def hits_of_def Let_def)

text \<open>
  Under the same conditions, at most \<^verbatim>\<open>limit\<close> events of a key pass in any closed
  interval of length \<^verbatim>\<open>span\<close>, wherever it starts.
\<close>

theorem limiter_rate:
  assumes "[] \<notin> call_keys cs" "sorted (call_times cs)" "card (call_keys cs) \<le> 4096"
    and "allow_run cs (NewWindow limit span) = (gs, w)" "0 < limit" "0 < span"
  shows "length (filter (\<lambda>t. a \<le> t \<and> t \<le> a + span) (granted_times k gs)) \<le> nat limit"
  using allow_run_new [OF assms(1-4), of k] assms(4-6) spaced_count [of "nat limit" span "granted_times k gs" a]
  by (cases "cs = []") (auto simp: tracks_def NewWindow_def)

end
