(* ===== verification/Backoff.thy ===== *)
theory Backoff
  imports Prelude "HOL-Library.Word"
begin

text \<open>
  \<^verbatim>\<open>src/internal/backoff/backoff.go\<close>: the per-key exponential delay. Durations are
  64-bit integers, and the doubling \<^verbatim>\<open>d *= 2\<close> wraps around as in Go; a nil
  \<^verbatim>\<open>*Tracker\<close> is \<open>None\<close>; the clock reading (the \<^verbatim>\<open>now\<close> field or
  \<^verbatim>\<open>time.Now\<close>) is an argument.
\<close>

section \<open>The tracker\<close>

type_synonym duration = "64 word"

record tracker =
  t_initial :: duration
  t_max :: duration
  t_next :: "(string, int) gomap"
  t_delay :: "(string, duration) gomap"

definition NewTracker :: "duration \<Rightarrow> duration \<Rightarrow> tracker" where
  "NewTracker initial mx =
     (let i = (if sint initial \<le> 0 then 5000000000 else initial);
          m = (if sint mx < sint i then i else mx) in
      \<lparr>t_initial = i, t_max = m, t_next = gm_empty, t_delay = gm_empty\<rparr>)"

fun AllowRetry :: "int \<Rightarrow> string \<Rightarrow> tracker option \<Rightarrow> bool" where
  "AllowRetry now key None = True"
| "AllowRetry now key (Some t) =
     (if key = [] then True
      else
        (case gm_get (t_next t) key of
           Some nx \<Rightarrow> if now < nx then False else True
         | None \<Rightarrow> True))"

text \<open>The delay of a key; a missing entry reads as 0.\<close>

definition delay_of :: "tracker \<Rightarrow> string \<Rightarrow> duration" where
  "delay_of t key = (case gm_get (t_delay t) key of None \<Rightarrow> 0 | Some d \<Rightarrow> d)"

definition next_delay :: "tracker \<Rightarrow> duration \<Rightarrow> duration" where
  "next_delay t d =
     (if d = 0 then t_initial t
      else (let d2 = d * 2 in if sint d2 > sint (t_max t) then t_max t else d2))"

fun Fail :: "int \<Rightarrow> string \<Rightarrow> tracker option \<Rightarrow> tracker option" where
  "Fail now key None = None"
| "Fail now key (Some t) =
     (if key = [] then Some t
      else
        (let d = next_delay t (delay_of t key) in
         Some (t\<lparr>t_delay := gm_put key d (t_delay t), t_next := gm_put key (now + sint d) (t_next t)\<rparr>)))"

fun Reset :: "string \<Rightarrow> tracker option \<Rightarrow> tracker option" where
  "Reset key None = None"
| "Reset key (Some t) =
     (if key = [] then Some t
      else Some (t\<lparr>t_next := gm_del key (t_next t), t_delay := gm_del key (t_delay t)\<rparr>))"

text \<open>\<open>n\<close> failures in a row at the given instants.\<close>

fun fail_all :: "string \<Rightarrow> int list \<Rightarrow> tracker \<Rightarrow> tracker" where
  "fail_all key [] t = t"
| "fail_all key (now # ns) t = fail_all key ns (the (Fail now key (Some t)))"

text \<open>The bounds under which the doubling cannot overflow.\<close>

definition tracker_ok :: "tracker \<Rightarrow> bool" where
  "tracker_ok t \<longleftrightarrow> 0 < sint (t_initial t) \<and> sint (t_initial t) \<le> sint (t_max t) \<and> sint (t_max t) < 2 ^ 62"

section \<open>Lemmas\<close>

lemma sint_double:
  assumes "0 \<le> sint d" "sint d < 2 ^ 62"
  shows "sint (d * 2) = 2 * sint (d :: duration)"
proof -
  have "sint (d * 2) = signed_take_bit 63 (sint d * 2)"
    by (simp add: sint_word_ariths)
  also have "\<dots> = sint d * 2"
    using assms by (intro signed_take_bit_int_eq_self) simp_all
  finally show ?thesis by simp
qed

lemma sint_next_delay:
  assumes "tracker_ok t" "0 \<le> sint d" "sint d \<le> sint (t_max t)"
  shows "sint (next_delay t d) = (if sint d = 0 then sint (t_initial t) else min (2 * sint d) (sint (t_max t)))"
proof -
  have z: "sint d = 0 \<longleftrightarrow> d = 0"
    using signed_word_eqI [of d 0] by auto
  show ?thesis
    using assms sint_double [of d] unfolding z
    by (auto simp: next_delay_def tracker_ok_def Let_def)
qed

lemma Fail_frame:
  "t_initial (the (Fail now key (Some t))) = t_initial t" "t_max (the (Fail now key (Some t))) = t_max t"
  by (simp_all add: Let_def)

lemma Fail_delay:
  "key \<noteq> [] \<Longrightarrow> delay_of (the (Fail now key (Some t))) k =
     (if k = key then next_delay t (delay_of t key) else delay_of t k)"
  by (auto simp: delay_of_def Let_def gm_laws)

lemma Fail_next:
  "key \<noteq> [] \<Longrightarrow> gm_get (t_next (the (Fail now key (Some t)))) k =
     (if k = key then Some (now + sint (next_delay t (delay_of t key))) else gm_get (t_next t) k)"
  by (auto simp: Let_def gm_laws)

declare Fail.simps(2) [simp del]

lemma fail_all_snoc: "fail_all key (ns @ [now]) t = the (Fail now key (Some (fail_all key ns t)))"
  by (induction ns arbitrary: t) simp_all

lemma fail_all_frame: "t_initial (fail_all key ns t) = t_initial t" "t_max (fail_all key ns t) = t_max t"
  by (induction ns arbitrary: t) (simp_all add: Fail_frame)

lemma fail_all_delay:
  assumes "tracker_ok t" "key \<noteq> []" "delay_of t key = 0"
  shows "sint (delay_of (fail_all key ns t) key) =
    (if ns = [] then 0 else min (2 ^ (length ns - 1) * sint (t_initial t)) (sint (t_max t)))"
proof (induction ns rule: rev_induct)
  case Nil
  then show ?case using assms(3) by simp
next
  case (snoc now ns)
  let ?t = "fail_all key ns t"
  have ok: "tracker_ok ?t"
    using assms(1) by (simp add: tracker_ok_def fail_all_frame)
  have pos: "0 < sint (t_initial t)" "sint (t_initial t) \<le> sint (t_max t)"
    using assms(1) by (simp_all add: tracker_ok_def)
  have d: "sint (delay_of (fail_all key (ns @ [now]) t) key) = sint (next_delay ?t (delay_of ?t key))"
    using assms(2) by (simp add: fail_all_snoc Fail_delay)
  show ?case
  proof (cases "ns = []")
    case True
    then show ?thesis
      using d snoc.IH sint_next_delay [OF ok, of 0] pos assms(3) by (simp add: fail_all_frame)
  next
    case False
    then obtain n where n: "length ns = Suc n" by (cases ns) auto
    have IH: "sint (delay_of ?t key) = min (2 ^ n * sint (t_initial t)) (sint (t_max t))"
      using snoc.IH False n by simp
    then have "0 < sint (delay_of ?t key)" "sint (delay_of ?t key) \<le> sint (t_max ?t)"
      using pos by (simp_all add: fail_all_frame)
    then have "sint (next_delay ?t (delay_of ?t key)) = min (2 * sint (delay_of ?t key)) (sint (t_max t))"
      using sint_next_delay [OF ok] by (simp add: fail_all_frame)
    also have "\<dots> = min (2 ^ Suc n * sint (t_initial t)) (sint (t_max t))"
      using IH pos by (auto simp: min_def)
    finally show ?thesis using d n by simp
  qed
qed

lemma NewTracker_delay: "delay_of (NewTracker i m) key = 0"
  by (simp add: delay_of_def NewTracker_def Let_def gm.get_empty)

section \<open>Properties\<close>

text \<open>
  C14. The retry schedule: after \<open>n\<close> failures in a row of a key (\<open>n \<ge> 1\<close>), the next retry is
  refused until the last failure plus \<open>min (initial * 2^(n-1)) max\<close>, and allowed from then on,
  in 64-bit arithmetic, for every maximal delay below \<open>2^62\<close> nanoseconds.
\<close>

theorem backoff_schedule:
  assumes "tracker_ok t" "key \<noteq> []" "delay_of t key = 0"
  shows "AllowRetry now key (Some (fail_all key (ns @ [lst]) t)) \<longleftrightarrow>
    lst + min (2 ^ length ns * sint (t_initial t)) (sint (t_max t)) \<le> now"
proof -
  have "gm_get (t_next (fail_all key (ns @ [lst]) t)) key
      = Some (lst + sint (delay_of (fail_all key (ns @ [lst]) t) key))"
    using assms(2) by (simp add: fail_all_snoc Fail_next Fail_delay)
  then show ?thesis
    using assms(2) fail_all_delay [OF assms, of "ns @ [lst]"] by auto
qed

theorem backoff_schedule_witness:
  "AllowRetry 70 ''p'' (Some (fail_all ''p'' ([1, 2, 3, 4] @ [5]) (NewTracker 5 60)))
   \<and> \<not> AllowRetry 64 ''p'' (Some (fail_all ''p'' ([1, 2, 3, 4] @ [5]) (NewTracker 5 60)))"
proof -
  have ok: "tracker_ok (NewTracker 5 60)"
    by (simp add: tracker_ok_def NewTracker_def)
  have p: "''p'' \<noteq> []" by simp
  show ?thesis
    unfolding backoff_schedule [OF ok p NewTracker_delay]
    by (simp add: NewTracker_def)
qed

end
