(* ===== verification/Channels.thy ===== *)
theory Channels
  imports Protocol
begin

text \<open>
  \<^verbatim>\<open>src/internal/channel/channel.go\<close>: the channels a node has joined, with their
  history and members, and the channels it has heard of. Messages are stored by pointer in the
  code and never written again, so the history holds values. The loops of
  \<^verbatim>\<open>MemberLeaveAll\<close> and \<^verbatim>\<open>UpdateNick\<close> treat every channel alike and do not
  depend on the iteration order; the one of \<^verbatim>\<open>Leave\<close> picks the first channel it meets,
  so it takes the order as an argument.

  The abstract view keeps for every joined channel the full log since it was joined and the
  member map; the manager refines it: its history is the end of that log of the configured
  length.
\<close>

section \<open>The manager\<close>

record channel =
  ch_Name :: string
  ch_History :: "message list"
  ch_Members :: "(string, string) gomap"

record manager =
  cm_joined :: "(string, channel) gomap"
  cm_known :: "(string, unit) gomap"
  cm_current :: string
  cm_histLim :: nat
  cm_localID :: string

definition NewManager :: "string \<Rightarrow> int \<Rightarrow> manager" where
  "NewManager localID historyLimit =
     \<lparr>cm_joined = gm_empty, cm_known = gm_empty, cm_current = [],
      cm_histLim = (if historyLimit \<le> 0 then 200 else nat historyLimit), cm_localID = localID\<rparr>"

definition Current :: "manager \<Rightarrow> string" where
  "Current m = cm_current m"

definition SetCurrent :: "string \<Rightarrow> manager \<Rightarrow> manager" where
  "SetCurrent name m = m\<lparr>cm_current := name\<rparr>"

definition Joined :: "manager \<Rightarrow> string \<Rightarrow> bool" where
  "Joined m name = gm_has (cm_joined m) name"

definition Join_chan :: "string \<Rightarrow> string \<Rightarrow> manager \<Rightarrow> bool \<times> manager" where
  "Join_chan name localNick m =
     (let old = gm_get (cm_joined m) name;
          ch = (case old of
                  None \<Rightarrow> \<lparr>ch_Name = name, ch_History = [], ch_Members = gm_empty\<rparr>
                | Some c \<Rightarrow> c) in
      (old = None,
       m\<lparr>cm_joined := gm_put name (ch\<lparr>ch_Members := gm_put (cm_localID m) localNick (ch_Members ch)\<rparr>) (cm_joined m),
         cm_known := gm_put name () (cm_known m),
         cm_current := name\<rparr>))"

datatype chan_err = NotIn string

definition Leave_chan :: "string list \<Rightarrow> string \<Rightarrow> manager \<Rightarrow> chan_err option \<times> manager" where
  "Leave_chan order name m =
     (if \<not> gm_has (cm_joined m) name then (Some (NotIn name), m)
      else
        (None,
         m\<lparr>cm_joined := gm_del name (cm_joined m),
           cm_current :=
             (if cm_current m = name then (case order of [] \<Rightarrow> [] | n # _ \<Rightarrow> n) else cm_current m)\<rparr>))"

definition JoinedNames :: "manager \<Rightarrow> string list" where
  "JoinedNames m = sort (gm_keys (cm_joined m))"

definition KnownNames :: "manager \<Rightarrow> string list" where
  "KnownNames m = sort (gm_keys (cm_known m))"

definition Note :: "string \<Rightarrow> manager \<Rightarrow> manager" where
  "Note name m = m\<lparr>cm_known := gm_put name () (cm_known m)\<rparr>"

definition keep_last :: "nat \<Rightarrow> 'a list \<Rightarrow> 'a list" where
  "keep_last lim xs = (if length xs > lim then drop (length xs - lim) xs else xs)"

fun AddHistory :: "message option \<Rightarrow> manager \<Rightarrow> manager" where
  "AddHistory None m = m"
| "AddHistory (Some msg) m =
     (if mChannel msg = [] then m
      else
        (let m1 = m\<lparr>cm_known := gm_put (mChannel msg) () (cm_known m)\<rparr> in
         case gm_get (cm_joined m1) (mChannel msg) of
           None \<Rightarrow> m1
         | Some ch \<Rightarrow>
             m1\<lparr>cm_joined :=
               gm_put (mChannel msg)
                 (ch\<lparr>ch_History := keep_last (cm_histLim m) (ch_History ch @ [msg])\<rparr>) (cm_joined m1)\<rparr>))"

definition History :: "manager \<Rightarrow> string \<Rightarrow> message list" where
  "History m name = (case gm_get (cm_joined m) name of None \<Rightarrow> [] | Some ch \<Rightarrow> ch_History ch)"

definition MemberJoin :: "string \<Rightarrow> string \<Rightarrow> string \<Rightarrow> manager \<Rightarrow> manager" where
  "MemberJoin chan peerID nick m =
     (let m1 = m\<lparr>cm_known := gm_put chan () (cm_known m)\<rparr> in
      case gm_get (cm_joined m1) chan of
        None \<Rightarrow> m1
      | Some ch \<Rightarrow>
          m1\<lparr>cm_joined := gm_put chan (ch\<lparr>ch_Members := gm_put peerID nick (ch_Members ch)\<rparr>) (cm_joined m1)\<rparr>)"

definition MemberLeaveAll :: "string \<Rightarrow> manager \<Rightarrow> manager" where
  "MemberLeaveAll peerID m =
     m\<lparr>cm_joined := gm_map (\<lambda>ch. ch\<lparr>ch_Members := gm_del peerID (ch_Members ch)\<rparr>) (cm_joined m)\<rparr>"

definition MemberLeave :: "string \<Rightarrow> string \<Rightarrow> manager \<Rightarrow> manager" where
  "MemberLeave chan peerID m =
     (case gm_get (cm_joined m) chan of
        None \<Rightarrow> m
      | Some ch \<Rightarrow>
          m\<lparr>cm_joined := gm_put chan (ch\<lparr>ch_Members := gm_del peerID (ch_Members ch)\<rparr>) (cm_joined m)\<rparr>)"

text \<open>\<^verbatim>\<open>Members\<close>: nil for a channel that is not joined, else a copy of the map.\<close>

definition Members :: "manager \<Rightarrow> string \<Rightarrow> (string, string) gomap option" where
  "Members m name = map_option ch_Members (gm_get (cm_joined m) name)"

definition UpdateNick_chan :: "string \<Rightarrow> string \<Rightarrow> manager \<Rightarrow> manager" where
  "UpdateNick_chan peerID nick m =
     m\<lparr>cm_joined :=
       gm_map (\<lambda>ch. if gm_has (ch_Members ch) peerID
                    then ch\<lparr>ch_Members := gm_put peerID nick (ch_Members ch)\<rparr> else ch)
         (cm_joined m)\<rparr>"

section \<open>Sequences of operations\<close>

datatype chan_op =
    CSetCurrent string
  | CJoin string string
  | CLeave "string list" string
  | CNote string
  | CAddHistory "message option"
  | CMemberJoin string string string
  | CMemberLeaveAll string
  | CMemberLeave string string
  | CUpdateNick string string

fun chan_step :: "chan_op \<Rightarrow> manager \<Rightarrow> manager" where
  "chan_step (CSetCurrent name) m = SetCurrent name m"
| "chan_step (CJoin name nick) m = snd (Join_chan name nick m)"
| "chan_step (CLeave order name) m = snd (Leave_chan order name m)"
| "chan_step (CNote name) m = Note name m"
| "chan_step (CAddHistory msg) m = AddHistory msg m"
| "chan_step (CMemberJoin chan peerID nick) m = MemberJoin chan peerID nick m"
| "chan_step (CMemberLeaveAll peerID) m = MemberLeaveAll peerID m"
| "chan_step (CMemberLeave chan peerID) m = MemberLeave chan peerID m"
| "chan_step (CUpdateNick peerID nick) m = UpdateNick_chan peerID nick m"

text \<open>
  The iteration order given to \<^verbatim>\<open>Leave\<close> is one of the remaining channels, and the current
  channel is only set to a joined channel or to none.
\<close>

fun chan_op_ok :: "chan_op \<Rightarrow> manager \<Rightarrow> bool" where
  "chan_op_ok (CLeave order name) m = range_order (gm_del name (cm_joined m)) order"
| "chan_op_ok (CSetCurrent name) m = (name = [] \<or> Joined m name)"
| "chan_op_ok _ m = True"

abbreviation chan_ops_ok :: "chan_op list \<Rightarrow> manager \<Rightarrow> bool" where
  "chan_ops_ok \<equiv> ops_ok chan_step chan_op_ok"

definition chan_run :: "chan_op list \<Rightarrow> manager \<Rightarrow> manager" where
  "chan_run ops m = fold chan_step ops m"

section \<open>The abstract view\<close>

record spec_channel =
  sp_log :: "message list"
  sp_members :: "string \<rightharpoonup> string"

record chan_spec =
  sp_joined :: "string \<rightharpoonup> spec_channel"
  sp_known :: "string set"

definition sp_init :: chan_spec where
  "sp_init = \<lparr>sp_joined = Map.empty, sp_known = {}\<rparr>"

definition sp_update :: "string \<Rightarrow> (spec_channel \<Rightarrow> spec_channel) \<Rightarrow> chan_spec \<Rightarrow> chan_spec" where
  "sp_update name f s = s\<lparr>sp_joined := (sp_joined s)(name := map_option f (sp_joined s name))\<rparr>"

definition sp_update_all :: "(spec_channel \<Rightarrow> spec_channel) \<Rightarrow> chan_spec \<Rightarrow> chan_spec" where
  "sp_update_all f s = s\<lparr>sp_joined := (\<lambda>n. map_option f (sp_joined s n))\<rparr>"

definition sp_note :: "string \<Rightarrow> chan_spec \<Rightarrow> chan_spec" where
  "sp_note name s = s\<lparr>sp_known := insert name (sp_known s)\<rparr>"

fun sp_step :: "string \<Rightarrow> chan_op \<Rightarrow> chan_spec \<Rightarrow> chan_spec" where
  "sp_step me (CSetCurrent name) s = s"
| "sp_step me (CJoin name nick) s =
     sp_update name (\<lambda>c. c\<lparr>sp_members := (sp_members c)(me \<mapsto> nick)\<rparr>)
       (sp_note name
          (if sp_joined s name = None
           then s\<lparr>sp_joined := (sp_joined s)(name \<mapsto> \<lparr>sp_log = [], sp_members = Map.empty\<rparr>)\<rparr>
           else s))"
| "sp_step me (CLeave order name) s = s\<lparr>sp_joined := (sp_joined s)(name := None)\<rparr>"
| "sp_step me (CNote name) s = sp_note name s"
| "sp_step me (CAddHistory None) s = s"
| "sp_step me (CAddHistory (Some msg)) s =
     (if mChannel msg = [] then s
      else sp_update (mChannel msg) (\<lambda>c. c\<lparr>sp_log := sp_log c @ [msg]\<rparr>) (sp_note (mChannel msg) s))"
| "sp_step me (CMemberJoin chan peerID nick) s =
     sp_update chan (\<lambda>c. c\<lparr>sp_members := (sp_members c)(peerID \<mapsto> nick)\<rparr>) (sp_note chan s)"
| "sp_step me (CMemberLeaveAll peerID) s =
     sp_update_all (\<lambda>c. c\<lparr>sp_members := (sp_members c)(peerID := None)\<rparr>) s"
| "sp_step me (CMemberLeave chan peerID) s =
     sp_update chan (\<lambda>c. c\<lparr>sp_members := (sp_members c)(peerID := None)\<rparr>) s"
| "sp_step me (CUpdateNick peerID nick) s =
     sp_update_all
       (\<lambda>c. if sp_members c peerID = None then c
            else c\<lparr>sp_members := (sp_members c)(peerID \<mapsto> nick)\<rparr>) s"

definition sp_run :: "string \<Rightarrow> chan_op list \<Rightarrow> chan_spec \<Rightarrow> chan_spec" where
  "sp_run me ops s = fold (sp_step me) ops s"

definition chan_match :: "nat \<Rightarrow> string \<Rightarrow> channel \<Rightarrow> spec_channel \<Rightarrow> bool" where
  "chan_match lim name ch sc \<longleftrightarrow>
     ch_Name ch = name \<and> gm_wf (ch_Members ch) \<and> gm_get (ch_Members ch) = sp_members sc
     \<and> ch_History ch = keep_last lim (sp_log sc)"

definition chan_rel :: "manager \<Rightarrow> chan_spec \<Rightarrow> bool" where
  "chan_rel m s \<longleftrightarrow>
     gm_wf (cm_joined m) \<and> gm_wf (cm_known m) \<and> 0 < cm_histLim m
     \<and> dom (gm_get (cm_known m)) = sp_known s
     \<and> dom (gm_get (cm_joined m)) \<subseteq> sp_known s
     \<and> (cm_current m = [] \<or> cm_current m \<in> dom (gm_get (cm_joined m)))
     \<and> (\<forall>name. rel_option (chan_match (cm_histLim m) name) (gm_get (cm_joined m) name) (sp_joined s name))"

section \<open>Every operation keeps the relation\<close>

lemma keep_last_snoc: "0 < lim \<Longrightarrow> keep_last lim (keep_last lim xs @ [x]) = keep_last lim (xs @ [x])"
  by (auto simp: keep_last_def Suc_diff_le)

lemma keep_last_length: "length (keep_last lim xs) \<le> lim"
  by (simp add: keep_last_def)

lemma rel_option_upd:
  assumes "\<forall>n. rel_option (R n) (f n) (g n)" "rel_option (R k) x y"
  shows "rel_option (R n) (if n = k then x else f n) (if n = k then y else g n)"
  using assms by simp

lemma chan_rel_cong:
  assumes "chan_rel m s" "gm_wf (cm_joined m')" "gm_wf (cm_known m')" "cm_histLim m' = cm_histLim m"
    and "dom (gm_get (cm_known m')) = sp_known s'" "dom (gm_get (cm_joined m')) \<subseteq> sp_known s'"
    and "cm_current m' = [] \<or> cm_current m' \<in> dom (gm_get (cm_joined m'))"
    and "\<And>n. rel_option (chan_match (cm_histLim m) n) (gm_get (cm_joined m') n) (sp_joined s' n)"
  shows "chan_rel m' s'"
  using assms by (auto simp: chan_rel_def)

text \<open>The three ways in which operations change the joined channels.\<close>

lemma chan_rel_update:
  assumes "chan_rel m s" "gm_get (cm_joined m) name = Some ch"
    and "\<And>sc. chan_match (cm_histLim m) name ch sc \<Longrightarrow> chan_match (cm_histLim m) name ch' (f sc)"
  shows "chan_rel (m\<lparr>cm_joined := gm_put name ch' (cm_joined m)\<rparr>) (sp_update name f s)"
proof (rule chan_rel_cong [OF assms(1)])
  have R: "rel_option (chan_match (cm_histLim m) n) (gm_get (cm_joined m) n) (sp_joined s n)" for n
    using assms(1) by (simp add: chan_rel_def)
  show "rel_option (chan_match (cm_histLim m) n)
      (gm_get (cm_joined (m\<lparr>cm_joined := gm_put name ch' (cm_joined m)\<rparr>)) n)
      (sp_joined (sp_update name f s) n)" for n
    using R [of n] R [of name] assms(2,3)
    by (auto simp: gm_laws sp_update_def option_rel_Some1)
qed (use assms(1,2) in \<open>auto simp: chan_rel_def gm_laws sp_update_def\<close>)

lemma chan_rel_absent:
  assumes "chan_rel m s" "gm_get (cm_joined m) name = None"
  shows "sp_update name f s = s"
proof -
  have "sp_joined s name = None"
    using assms by (metis chan_rel_def option_rel_Some2 option.exhaust option.distinct(1))
  then show ?thesis by (simp add: sp_update_def fun_upd_idem)
qed

lemma chan_rel_map:
  assumes "chan_rel m s"
    and "\<And>n ch sc. chan_match (cm_histLim m) n ch sc \<Longrightarrow> chan_match (cm_histLim m) n (g ch) (f sc)"
  shows "chan_rel (m\<lparr>cm_joined := gm_map g (cm_joined m)\<rparr>) (sp_update_all f s)"
proof (rule chan_rel_cong [OF assms(1)])
  have R: "rel_option (chan_match (cm_histLim m) n) (gm_get (cm_joined m) n) (sp_joined s n)" for n
    using assms(1) by (simp add: chan_rel_def)
  show "rel_option (chan_match (cm_histLim m) n)
      (gm_get (cm_joined (m\<lparr>cm_joined := gm_map g (cm_joined m)\<rparr>)) n) (sp_joined (sp_update_all f s) n)" for n
    using R [of n] assms(2) by (auto simp: go_simps sp_update_all_def elim!: option.rel_cases)
qed (use assms(1) in \<open>auto simp: chan_rel_def go_simps sp_update_all_def dom_def\<close>)

lemma chan_rel_note:
  "chan_rel m s \<Longrightarrow> chan_rel (m\<lparr>cm_known := gm_put name () (cm_known m)\<rparr>) (sp_note name s)"
  by (auto simp: chan_rel_def gm_laws sp_note_def)

lemma chan_rel_absent_add:
  assumes "chan_rel m s" "gm_get (cm_joined m) name = None" "chan_match (cm_histLim m) name ch sc"
  shows "chan_rel (m\<lparr>cm_joined := gm_put name ch (cm_joined m), cm_known := gm_put name () (cm_known m)\<rparr>)
    (sp_note name (s\<lparr>sp_joined := (sp_joined s)(name \<mapsto> sc)\<rparr>))"
  using assms by (auto simp: chan_rel_def gm_laws sp_note_def)

lemma chan_rel_current:
  "chan_rel m s \<Longrightarrow> name = [] \<or> name \<in> dom (gm_get (cm_joined m)) \<Longrightarrow> chan_rel (m\<lparr>cm_current := name\<rparr>) s"
  by (auto simp: chan_rel_def)

lemma chan_rel_joined_iff: "chan_rel m s \<Longrightarrow> sp_joined s name = None \<longleftrightarrow> gm_get (cm_joined m) name = None"
  by (metis chan_rel_def option.rel_distinct(1,2) option.exhaust)

lemma chan_rel_join:
  assumes "chan_rel m s"
  shows "chan_rel (snd (Join_chan name nick m)) (sp_step (cm_localID m) (CJoin name nick) s)"
proof (cases "gm_get (cm_joined m) name")
  case None
  let ?sc = "\<lparr>sp_log = [], sp_members = [cm_localID m \<mapsto> nick]\<rparr>"
  let ?ch = "\<lparr>ch_Name = name, ch_History = [], ch_Members = gm_put (cm_localID m) nick gm_empty\<rparr>"
  let ?m = "m\<lparr>cm_joined := gm_put name ?ch (cm_joined m), cm_known := gm_put name () (cm_known m)\<rparr>"
  have "chan_rel ?m (sp_note name (s\<lparr>sp_joined := (sp_joined s)(name \<mapsto> ?sc)\<rparr>))"
    using assms None by (rule chan_rel_absent_add) (auto simp: chan_match_def gm_fun_laws gm_laws keep_last_def)
  then have "chan_rel (?m\<lparr>cm_current := name\<rparr>) (sp_note name (s\<lparr>sp_joined := (sp_joined s)(name \<mapsto> ?sc)\<rparr>))"
    by (rule chan_rel_current) (simp add: gm_laws)
  then show ?thesis
    using None chan_rel_joined_iff [OF assms, of name]
    by (cases s) (simp add: Join_chan_def sp_update_def sp_note_def)
next
  case (Some ch)
  let ?m = "m\<lparr>cm_known := gm_put name () (cm_known m)\<rparr>"
  let ?ch = "ch\<lparr>ch_Members := gm_put (cm_localID m) nick (ch_Members ch)\<rparr>"
  have "chan_rel (?m\<lparr>cm_joined := gm_put name ?ch (cm_joined ?m)\<rparr>)
      (sp_update name (\<lambda>c. c\<lparr>sp_members := (sp_members c)(cm_localID m \<mapsto> nick)\<rparr>) (sp_note name s))"
    using Some by (intro chan_rel_update chan_rel_note assms) (auto simp: chan_match_def gm_fun_laws gm_laws)
  then have "chan_rel (?m\<lparr>cm_joined := gm_put name ?ch (cm_joined ?m), cm_current := name\<rparr>)
      (sp_update name (\<lambda>c. c\<lparr>sp_members := (sp_members c)(cm_localID m \<mapsto> nick)\<rparr>) (sp_note name s))"
    by (drule_tac name = name in chan_rel_current) (simp_all add: gm_laws)
  then show ?thesis
    using Some chan_rel_joined_iff [OF assms, of name] by (cases m) (auto simp: Join_chan_def)
qed

lemma chan_rel_leave:
  assumes "chan_rel m s" "range_order (gm_del name (cm_joined m)) order"
  shows "chan_rel (snd (Leave_chan order name m)) (sp_step (cm_localID m) (CLeave order name) s)"
proof (cases "gm_get (cm_joined m) name")
  case None
  then show ?thesis
    using assms(1) chan_rel_joined_iff [OF assms(1), of name]
    by (simp add: Leave_chan_def gm_has_def fun_upd_idem)
next
  case (Some ch)
  have "set order = dom (gm_get (cm_joined m)) - {name}"
    using range_order_set [OF assms(2)] by (simp add: gm_laws)
  then show ?thesis
    using assms(1) Some by (cases order) (auto simp: Leave_chan_def gm_has_def chan_rel_def gm_laws)
qed

lemma chan_rel_history:
  assumes "chan_rel m s"
  shows "chan_rel (AddHistory msg m) (sp_step me (CAddHistory msg) s)"
proof (cases "msg = None \<or> mChannel (the msg) = []")
  case True
  then show ?thesis using assms by (cases msg) auto
next
  case False
  then obtain g where g: "msg = Some g" "mChannel g \<noteq> []" by auto
  let ?m = "m\<lparr>cm_known := gm_put (mChannel g) () (cm_known m)\<rparr>"
  have m: "chan_rel ?m (sp_note (mChannel g) s)" using assms by (rule chan_rel_note)
  have lim: "0 < cm_histLim m" using assms by (simp add: chan_rel_def)
  show ?thesis
  proof (cases "gm_get (cm_joined m) (mChannel g)")
    case None
    then show ?thesis using g m chan_rel_absent [OF m] by (simp add: Let_def)
  next
    case (Some ch)
    have "chan_rel (?m\<lparr>cm_joined := gm_put (mChannel g)
          (ch\<lparr>ch_History := keep_last (cm_histLim m) (ch_History ch @ [g])\<rparr>) (cm_joined ?m)\<rparr>)
        (sp_update (mChannel g) (\<lambda>c. c\<lparr>sp_log := sp_log c @ [g]\<rparr>) (sp_note (mChannel g) s))"
      using Some lim by (intro chan_rel_update m) (auto simp: chan_match_def keep_last_snoc)
    then show ?thesis using g Some by simp
  qed
qed

lemma chan_rel_member_join:
  assumes "chan_rel m s"
  shows "chan_rel (MemberJoin chan peerID nick m) (sp_step me (CMemberJoin chan peerID nick) s)"
proof (cases "gm_get (cm_joined m) chan")
  case None
  then show ?thesis
    using chan_rel_note [OF assms] chan_rel_absent [OF chan_rel_note [OF assms]] by (simp add: MemberJoin_def)
next
  case (Some ch)
  let ?m = "m\<lparr>cm_known := gm_put chan () (cm_known m)\<rparr>"
  have "chan_rel (?m\<lparr>cm_joined := gm_put chan (ch\<lparr>ch_Members := gm_put peerID nick (ch_Members ch)\<rparr>) (cm_joined ?m)\<rparr>)
      (sp_update chan (\<lambda>c. c\<lparr>sp_members := (sp_members c)(peerID \<mapsto> nick)\<rparr>) (sp_note chan s))"
    using Some by (intro chan_rel_update chan_rel_note assms) (auto simp: chan_match_def gm_fun_laws gm_laws)
  then show ?thesis using Some by (simp add: MemberJoin_def)
qed

lemma chan_rel_member_leave:
  assumes "chan_rel m s"
  shows "chan_rel (MemberLeave chan peerID m) (sp_step me (CMemberLeave chan peerID) s)"
proof (cases "gm_get (cm_joined m) chan")
  case None
  then show ?thesis using assms chan_rel_absent [OF assms] by (simp add: MemberLeave_def)
next
  case (Some ch)
  then show ?thesis
    using assms by (auto simp: MemberLeave_def chan_match_def gm_fun_laws gm_laws intro!: chan_rel_update)
qed

lemma chan_rel_step:
  assumes "chan_rel m s" "chan_op_ok op m"
  shows "chan_rel (chan_step op m) (sp_step (cm_localID m) op s)"
proof (cases op)
  case (CMemberLeaveAll peerID)
  have "chan_match l n ch sc \<Longrightarrow> chan_match l n (ch\<lparr>ch_Members := gm_del peerID (ch_Members ch)\<rparr>)
      (sc\<lparr>sp_members := (sp_members sc)(peerID := None)\<rparr>)" for l n ch sc
    by (auto simp: chan_match_def gm_fun_laws gm_laws)
  with assms(1) show ?thesis unfolding CMemberLeaveAll chan_step.simps sp_step.simps MemberLeaveAll_def
    by (rule chan_rel_map)
next
  case (CUpdateNick peerID nick)
  have "chan_match l n ch sc \<Longrightarrow> chan_match l n
      (if gm_has (ch_Members ch) peerID then ch\<lparr>ch_Members := gm_put peerID nick (ch_Members ch)\<rparr> else ch)
      (if sp_members sc peerID = None then sc else sc\<lparr>sp_members := (sp_members sc)(peerID \<mapsto> nick)\<rparr>)" for l n ch sc
    by (auto simp: chan_match_def gm_fun_laws gm_laws gm_has_def)
  with assms(1) show ?thesis unfolding CUpdateNick chan_step.simps sp_step.simps UpdateNick_chan_def
    by (rule chan_rel_map)
qed (use assms chan_rel_current chan_rel_join chan_rel_leave chan_rel_note chan_rel_history
      chan_rel_member_join chan_rel_member_leave in
      \<open>simp_all add: SetCurrent_def Note_def Joined_def gm_has_iff del: AddHistory.simps sp_step.simps(2,3,5-7,9)\<close>)

lemma chan_step_params: "cm_localID (chan_step op m) = cm_localID m" "cm_histLim (chan_step op m) = cm_histLim m"
proof -
  have "cm_localID (chan_step op m) = cm_localID m \<and> cm_histLim (chan_step op m) = cm_histLim m"
  proof (cases op)
    case (CAddHistory msg)
    then show ?thesis by (cases msg) (auto simp: Let_def split: option.split)
  qed (auto simp: SetCurrent_def Join_chan_def Leave_chan_def Note_def MemberJoin_def MemberLeaveAll_def
      MemberLeave_def UpdateNick_chan_def Let_def split: option.split)
  then show "cm_localID (chan_step op m) = cm_localID m" "cm_histLim (chan_step op m) = cm_histLim m" by simp_all
qed

interpretation chans: simulation chan_step chan_op_ok "sp_step me" "\<lambda>m s. chan_rel m s \<and> cm_localID m = me \<and> cm_histLim m = lim"
  for me lim
  by unfold_locales (auto simp: chan_step_params intro: chan_rel_step)

lemma chan_rel_run:
  "chan_rel m s \<Longrightarrow> chan_ops_ok ops m \<Longrightarrow>
   chan_rel (chan_run ops m) (sp_run (cm_localID m) ops s) \<and> cm_histLim (chan_run ops m) = cm_histLim m"
  using chans.history_simulates [of m s "cm_localID m" "cm_histLim m" ops] by (simp add: chan_run_def sp_run_def)

lemma chan_rel_init: "chan_rel (NewManager me lim) sp_init"
  by (simp add: chan_rel_def NewManager_def sp_init_def gm_fun_laws gm_laws)

section \<open>Properties\<close>

text \<open>
  C24. The channel manager refines its abstract view. After any sequence of operations on a new
  manager: a channel has a history exactly when it is joined, and the history is the last
  \<^verbatim>\<open>histLim\<close> messages added to it since it was joined, in order; the member map is the
  one the joins, leaves and nickname changes determine; the listed names are the sorted joined
  and known channels, every joined channel is known; and the current channel is a joined one or
  none.
\<close>

theorem channels_refine:
  assumes "chan_ops_ok ops (NewManager me lim)"
  defines "m \<equiv> chan_run ops (NewManager me lim)" and "s \<equiv> sp_run me ops sp_init"
  shows "(\<forall>name. History m name =
           (case sp_joined s name of None \<Rightarrow> [] | Some c \<Rightarrow> keep_last (cm_histLim (NewManager me lim)) (sp_log c)))
    \<and> (\<forall>name. map_option gm_get (Members m name) = map_option sp_members (sp_joined s name))
    \<and> JoinedNames m = sorted_list_of_set (dom (sp_joined s))
    \<and> KnownNames m = sorted_list_of_set (sp_known s)
    \<and> dom (sp_joined s) \<subseteq> sp_known s
    \<and> (Current m = [] \<or> Joined m (Current m))"
proof -
  let ?lim = "cm_histLim (NewManager me lim)"
  have "chan_rel m (sp_run (cm_localID (NewManager me lim)) ops sp_init)" and lim: "cm_histLim m = ?lim"
    using chan_rel_run [OF chan_rel_init assms(1)] by (simp_all add: m_def)
  then have rel: "chan_rel m s" by (simp add: s_def NewManager_def)
  have R: "rel_option (chan_match ?lim name) (gm_get (cm_joined m) name) (sp_joined s name)" for name
    using rel lim by (simp add: chan_rel_def)
  have dom: "dom (sp_joined s) = dom (gm_get (cm_joined m))"
    unfolding dom_def using chan_rel_joined_iff [OF rel] by simp
  have "History m name = (case sp_joined s name of None \<Rightarrow> [] | Some c \<Rightarrow> keep_last ?lim (sp_log c))" for name
    using R [of name] by (auto simp: History_def chan_match_def elim!: option.rel_cases)
  moreover have "map_option gm_get (Members m name) = map_option sp_members (sp_joined s name)" for name
    using R [of name] by (auto simp: Members_def chan_match_def elim!: option.rel_cases)
  ultimately show ?thesis
    using rel dom by (auto simp: chan_rel_def JoinedNames_def KnownNames_def Joined_def Current_def gm_has_iff sort_gm_keys)
qed

theorem channels_refine_witness:
  "History (chan_run [CJoin ''#a'' ''ann'', CAddHistory (Some (sample_join\<lparr>mChannel := ''#a''\<rparr>)),
       CJoin ''#b'' ''ann'', CLeave [''#a''] ''#b''] (NewManager ''me'' 1)) ''#a''
     = [sample_join\<lparr>mChannel := ''#a''\<rparr>]"
proof -
  let ?ops = "[CJoin ''#a'' ''ann'', CAddHistory (Some (sample_join\<lparr>mChannel := ''#a''\<rparr>)),
       CJoin ''#b'' ''ann'', CLeave [''#a''] ''#b'']"
  have "chan_ops_ok ?ops (NewManager ''me'' 1)"
    by (simp add: NewManager_def Join_chan_def gm_empty_def gm_get_def gm_put_def gm_del_def
        gm_keys_def range_order_def Let_def)
  note r = channels_refine [OF this, THEN conjunct1, rule_format, of "''#a''"]
  show ?thesis
    unfolding r by (simp add: sp_run_def sp_init_def sp_update_def sp_note_def keep_last_def NewManager_def)
qed

end
