(* ===== verification/Chat.thy ===== *)
theory Chat
  imports Protocol
begin

text \<open>
  \<^verbatim>\<open>src/internal/chat/chat.go\<close>: the commands of the input line and the rendering of
  messages. \<^verbatim>\<open>FormatTime\<close> takes the rendering of an instant in the local time zone and
  the clock reading as arguments. The property is a round trip: every command, printed with any of
  its spellings, parses back to its kind and arguments.
\<close>

section \<open>Commands\<close>

datatype kind =
    KindChat | KindHelp | KindConnect | KindDisconnect | KindPeers | KindJoin | KindLeave
  | KindChannels | KindNick | KindMe | KindMsg | KindDiscover | KindWhoami | KindAlias
  | KindUnalias | KindKnown | KindAddr | KindVersion | KindStats | KindNames | KindQuit
  | KindUnknown

record command =
  cmd_Kind :: kind
  cmd_Args :: "string list"
  cmd_Raw :: string

text \<open>The names of the switch of \<^verbatim>\<open>Parse\<close>, in its order.\<close>

definition command_names :: "(string \<times> kind) list" where
  "command_names =
     [(''/help'', KindHelp), (''/connect'', KindConnect), (''/disconnect'', KindDisconnect),
      (''/peers'', KindPeers), (''/join'', KindJoin), (''/leave'', KindLeave),
      (''/channels'', KindChannels), (''/nick'', KindNick), (''/me'', KindMe), (''/msg'', KindMsg),
      (''/discover'', KindDiscover), (''/whoami'', KindWhoami), (''/id'', KindWhoami),
      (''/alias'', KindAlias), (''/unalias'', KindUnalias), (''/known'', KindKnown),
      (''/addr'', KindAddr), (''/addrs'', KindAddr), (''/version'', KindVersion),
      (''/stats'', KindStats), (''/names'', KindNames), (''/who'', KindNames),
      (''/quit'', KindQuit), (''/exit'', KindQuit)]"

definition kind_of :: "string \<Rightarrow> kind" where
  "kind_of name = (case map_of command_names name of None \<Rightarrow> KindUnknown | Some k \<Rightarrow> k)"

definition Parse :: "unicode \<Rightarrow> string \<Rightarrow> command" where
  "Parse uc line0 =
     (let line = TrimRight line0 [CHR 0x0D, CHR 0x0A]; trimmed = TrimSpace line in
      if trimmed = [] then \<lparr>cmd_Kind = KindChat, cmd_Args = [], cmd_Raw = []\<rparr>
      else if \<not> HasPrefix trimmed ''/'' then \<lparr>cmd_Kind = KindChat, cmd_Args = [line], cmd_Raw = line\<rparr>
      else
        (let parts = Fields trimmed;
             name = ToLower uc (hd parts);
             rest = TrimSpace (TrimPrefix trimmed (hd parts));
             k = kind_of name;
             args =
               (case k of
                  KindNick \<Rightarrow> if rest \<noteq> [] then [rest] else tl parts
                | KindMe \<Rightarrow> [rest]
                | KindMsg \<Rightarrow>
                    if length parts \<ge> 3
                    then [parts ! 1, TrimSpace (TrimPrefix rest (parts ! 1))] else tl parts
                | _ \<Rightarrow> tl parts) in
         \<lparr>cmd_Kind = k, cmd_Args = args, cmd_Raw = trimmed\<rparr>))"

definition help_lines :: "string list" where
  "help_lines =
     [''Commands:'',
      ''  /help                      Show this help'',
      ''  /connect <host:port|alias> Connect to a peer or a saved alias'',
      ''  /disconnect <peer-id>      Disconnect a peer'',
      ''  /peers                     List connected peers'',
      ''  /known                     List known peers and aliases'',
      ''  /alias [peer-id] [name]    List or set a local alias'',
      ''  /unalias <name|peer-id>    Remove a local alias'',
      ''  /join <#channel>           Join a channel'',
      ''  /leave <#channel>          Leave a channel'',
      ''  /channels                  List channels'',
      ''  /names [#channel]          List members of a channel'',
      ''  /nick <name>               Set nickname (cosmetic; gossiped via join)'',
      ''  /me <action>               Send an action to the current channel'',
      ''  /msg <peer-id> <text>      Direct message a connected peer'',
      ''  /discover [connect]        Show nearby LAN peers; connect joins verified ones'',
      ''  /whoami                    Show local cryptographic identity'',
      ''  /addr                      Show listen, LAN, STUN, and UPnP address candidates'',
      ''  /version                   Show program version'',
      ''  /stats                     Show peers, seen-ID cache, and process stats'',
      ''  /quit                      Exit'']"

definition HelpText :: string where
  "HelpText = TrimSpace ([CHR 0x0A] @ Join help_lines [CHR 0x0A] @ [CHR 0x0A])"

section \<open>Rendering\<close>

definition short_id :: "string \<Rightarrow> string" where
  "short_id s = (if length s < 8 then s else take 8 s)"

definition FormatChat :: "message \<Rightarrow> string \<Rightarrow> string" where
  "FormatChat msg display0 =
     (let display1 = (if display0 = [] then mNickname msg else display0);
          display = (if display1 = [] then short_id (mSender msg) else display1);
          sid = short_id (mSender msg) in
      if mAction msg then ''* '' @ display @ '' '' @ mText msg
      else if mTo msg \<noteq> [] then ''[dm '' @ sid @ ''] '' @ display @ '': '' @ mText msg
      else ''['' @ sid @ ''] '' @ display @ '': '' @ mText msg)"

definition FormatTime :: "(int \<Rightarrow> string) \<Rightarrow> int \<Rightarrow> 64 word \<Rightarrow> string" where
  "FormatTime fmt now ts = (if sint ts \<le> 0 then fmt now else fmt (time_Unix ts))"

section \<open>Printing\<close>

text \<open>A word of a command: nonempty, ASCII, without space characters.\<close>

definition word_ok :: "string \<Rightarrow> bool" where
  "word_ok w \<longleftrightarrow> w \<noteq> [] \<and> ascii w \<and> list_all (\<lambda>c. \<not> is_space (of_char c)) w"

text \<open>A text that trimming leaves alone: it starts and ends with an ASCII character that is no space.\<close>

definition trimmed_ok :: "string \<Rightarrow> bool" where
  "trimmed_ok s \<longleftrightarrow> s \<noteq> [] \<and> (of_char (hd s) :: nat) < 0x80 \<and> \<not> is_space (of_char (hd s))
     \<and> (of_char (last s) :: nat) < 0x80 \<and> \<not> is_space (of_char (last s))"

definition print_command :: "string list \<Rightarrow> string" where
  "print_command ws = Join ws '' ''"

text \<open>The reference for the commands: the spellings a user may type, those of the help text and the four aliases.\<close>

fun spellings :: "kind \<Rightarrow> string list" where
  "spellings KindHelp = [''/help'']"
| "spellings KindConnect = [''/connect'']"
| "spellings KindDisconnect = [''/disconnect'']"
| "spellings KindPeers = [''/peers'']"
| "spellings KindKnown = [''/known'']"
| "spellings KindAlias = [''/alias'']"
| "spellings KindUnalias = [''/unalias'']"
| "spellings KindJoin = [''/join'']"
| "spellings KindLeave = [''/leave'']"
| "spellings KindChannels = [''/channels'']"
| "spellings KindNames = [''/names'', ''/who'']"
| "spellings KindNick = [''/nick'']"
| "spellings KindMe = [''/me'']"
| "spellings KindMsg = [''/msg'']"
| "spellings KindDiscover = [''/discover'']"
| "spellings KindWhoami = [''/whoami'', ''/id'']"
| "spellings KindAddr = [''/addr'', ''/addrs'']"
| "spellings KindVersion = [''/version'']"
| "spellings KindStats = [''/stats'']"
| "spellings KindQuit = [''/quit'', ''/exit'']"
| "spellings KindChat = []"
| "spellings KindUnknown = []"

text \<open>
  The arguments a command takes: words, except that a nickname and an action are one text and a
  direct message is a peer and a text.
\<close>

fun args_ok :: "kind \<Rightarrow> string list \<Rightarrow> bool" where
  "args_ok KindNick args \<longleftrightarrow> args = [] \<or> (\<exists>t. args = [t] \<and> trimmed_ok t)"
| "args_ok KindMe args \<longleftrightarrow> (\<exists>t. args = [t] \<and> trimmed_ok t)"
| "args_ok KindMsg args \<longleftrightarrow> args = [] \<or> (\<exists>p. args = [p] \<and> word_ok p) \<or> (\<exists>p t. args = [p, t] \<and> word_ok p \<and> trimmed_ok t)"
| "args_ok k args \<longleftrightarrow> list_all word_ok args"

section \<open>Fields\<close>

lemma word_ok_bytes: "word_ok w \<Longrightarrow> b \<in> set (bytes_of w) \<Longrightarrow> b < 0x80 \<and> \<not> is_space b"
  using ascii_bytes [of w b] by (auto simp: word_ok_def bytes_of_def list_all_iff)

lemma fields_b_word:
  assumes "\<forall>b \<in> set w. b < 0x80 \<and> \<not> is_space b"
  shows "fields_b cur (w @ bs) = fields_b (cur @ w) bs"
  using assms by (induction w arbitrary: cur) (simp_all add: Let_def)

lemma fields_b_cur_neq_Nil: "cur \<noteq> [] \<Longrightarrow> fields_b cur bs \<noteq> []"
  by (induction cur bs rule: fields_b.induct) (auto simp: Let_def)

lemma is_space_blank: "is_space 32"
  by (simp add: is_space_def)

lemma Fields_word_Cons:
  assumes "word_ok w"
  shows "Fields (w @ CHR 0x20 # s) = w # Fields s" "Fields w = [w]"
proof -
  have w: "\<forall>b \<in> set (bytes_of w). b < 0x80 \<and> \<not> is_space b" "bytes_of w \<noteq> []"
    using word_ok_bytes [OF assms] assms by (auto simp: word_ok_def bytes_of_def)
  have "fields_b [] (bytes_of w @ 32 # bytes_of s) = bytes_of w # fields_b [] (bytes_of s)"
    using fields_b_word [OF w(1), of "[]" "32 # bytes_of s"] w(2) by (simp add: Let_def is_space_blank)
  then show "Fields (w @ CHR 0x20 # s) = w # Fields s" by (simp add: Fields_def)
  show "Fields w = [w]"
    using fields_b_word [OF w(1), of "[]" "[]"] w(2) by (simp add: Fields_def)
qed

lemma Fields_words: "list_all word_ok ws \<Longrightarrow> Fields (Join ws '' '') = ws"
proof (induction ws "'' ''" rule: Join.induct)
  case 1
  then show ?case by (simp add: Fields_def)
qed (simp_all add: Fields_word_Cons)

lemma Fields_neq_Nil: "trimmed_ok s \<Longrightarrow> Fields s \<noteq> []"
  by (cases s) (auto simp: trimmed_ok_def Fields_def Let_def fields_b_cur_neq_Nil)

section \<open>Trimming\<close>

lemma TrimSpace_trimmed: "trimmed_ok s \<Longrightarrow> TrimSpace s = s"
  by (rule TrimSpace_id) (simp_all add: trimmed_ok_def)

lemma TrimSpace_blank: "TrimSpace (CHR 0x20 # s) = TrimSpace s"
  by (simp add: TrimSpace_def is_space_blank)

lemma TrimRight_trimmed: "trimmed_ok s \<Longrightarrow> TrimRight s [CHR 0x0D, CHR 0x0A] = s"
proof -
  assume s: "trimmed_ok s"
  then have "\<not> is_space (of_char (hd (rev s)))" "rev s \<noteq> []" by (simp_all add: trimmed_ok_def hd_rev)
  then have "dropWhile (\<lambda>c. c \<in> set [CHR 0x0D, CHR 0x0A]) (rev s) = rev s"
    by (cases "rev s") (auto simp: is_space_def)
  then show ?thesis by (simp add: TrimRight_def)
qed

lemma word_ok_ends: "word_ok w \<Longrightarrow> trimmed_ok w"
  using word_ok_bytes [of w] by (auto simp: word_ok_def trimmed_ok_def bytes_of_def)

lemma trimmed_ok_append: "trimmed_ok a \<Longrightarrow> trimmed_ok b \<Longrightarrow> trimmed_ok (a @ s @ b)"
  by (auto simp: trimmed_ok_def)

lemma trimmed_words: "list_all word_ok ws \<Longrightarrow> ws \<noteq> [] \<Longrightarrow> trimmed_ok (Join ws '' '')"
  by (induction ws "'' ''" rule: Join.induct) (auto simp: word_ok_ends intro!: trimmed_ok_append [of _ _ "'' ''", simplified])

section \<open>Parsing a printed command\<close>

lemma HasPrefix_append [simp]: "HasPrefix (p @ s) p"
  by (simp add: HasPrefix_def)

lemma TrimPrefix_append [simp]: "TrimPrefix (p @ s) p = s"
  by (simp add: TrimPrefix_def)

lemma TrimPrefix_self [simp]: "TrimPrefix p p = []"
  using TrimPrefix_append [of p "[]"] by simp

lemma ToLower_word: "word_ok w \<Longrightarrow> ToLower uc w = map lower_char w"
  by (simp add: word_ok_def ToLower_ascii)

lemma slash_prefix: "trimmed_ok s \<Longrightarrow> hd s = CHR ''/'' \<Longrightarrow> HasPrefix s ''/''"
  by (cases s) (simp_all add: HasPrefix_def trimmed_ok_def)

text \<open>What \<^verbatim>\<open>Parse\<close> sees of a line that starts with a command name.\<close>

lemma Parse_command:
  assumes "trimmed_ok line" "hd line = CHR ''/''" "Fields line = name # ws" "word_ok name"
    and "TrimSpace (TrimPrefix line name) = rest"
  shows "Parse uc line = \<lparr>cmd_Kind = kind_of (map lower_char name),
     cmd_Args = (case kind_of (map lower_char name) of
         KindNick \<Rightarrow> if rest \<noteq> [] then [rest] else ws
       | KindMe \<Rightarrow> [rest]
       | KindMsg \<Rightarrow> if length ws \<ge> 2 then [ws ! 0, TrimSpace (TrimPrefix rest (ws ! 0))] else ws
       | _ \<Rightarrow> ws),
     cmd_Raw = line\<rparr>"
proof -
  have "line \<noteq> []" using assms(1) by (simp add: trimmed_ok_def)
  then show ?thesis
    unfolding Parse_def TrimRight_trimmed [OF assms(1)] TrimSpace_trimmed [OF assms(1)] Let_def
    using slash_prefix [OF assms(1,2)] assms(3,5) ToLower_word [OF assms(4)]
    by (simp add: Suc_le_eq numeral_3_eq_3 numeral_2_eq_2 split: kind.split)
qed

lemma spellings_word: "w \<in> set (spellings k) \<Longrightarrow> word_ok w \<and> hd w = CHR ''/''"
  by (cases k) (auto simp: word_ok_def ascii_def is_space_def)

lemma spellings_kinds: "list_all (\<lambda>w. kind_of w = k) (spellings k)"
  by (induction k) code_simp+

lemma spellings_kind: "w \<in> set (spellings k) \<Longrightarrow> kind_of w = k"
  using spellings_kinds [of k] by (simp add: list_all_iff)

lemma word_ok_lower: "word_ok (map lower_char w) \<Longrightarrow> word_ok w"
proof -
  have "(of_char c :: nat) < 128 \<and> \<not> is_space (of_char c)"
    if "(of_char (lower_char c) :: nat) < 128" "\<not> is_space (of_char (lower_char c))" for c
    using that by (cases "65 \<le> (of_char c :: nat) \<and> (of_char c :: nat) \<le> 90")
      (auto simp: lower_char_id is_space_def)
  then show "word_ok (map lower_char w) \<Longrightarrow> word_ok w"
    by (auto simp: word_ok_def ascii_def list_all_iff)
qed

lemma lower_char_slash: "lower_char c = CHR ''/'' \<Longrightarrow> c = CHR ''/''"
  by (auto simp: lower_char_def split: if_splits dest: arg_cong [of _ _ "of_char :: char \<Rightarrow> nat"])

lemma spelled:
  assumes "map lower_char name \<in> set (spellings k)"
  shows "kind_of (map lower_char name) = k" "word_ok name" "hd name = CHR ''/''"
proof -
  have k: "kind_of (map lower_char name) = k" "word_ok (map lower_char name)" "hd (map lower_char name) = CHR ''/''"
    using spellings_kind [OF assms] spellings_word [OF assms] by simp_all
  then show "kind_of (map lower_char name) = k" "word_ok name" by (simp_all add: word_ok_lower)
  then have "name \<noteq> []" by (simp add: word_ok_def)
  then show "hd name = CHR ''/''" using k(3) by (simp add: hd_map lower_char_slash)
qed

lemma parse_words:
  assumes "word_ok name" "hd name = CHR ''/''" "list_all word_ok ws" "rest = TrimSpace (TrimPrefix (print_command (name # ws)) name)"
  shows "Parse uc (print_command (name # ws)) = \<lparr>cmd_Kind = kind_of (map lower_char name),
     cmd_Args = (case kind_of (map lower_char name) of
         KindNick \<Rightarrow> if rest \<noteq> [] then [rest] else ws
       | KindMe \<Rightarrow> [rest]
       | KindMsg \<Rightarrow> if length ws \<ge> 2 then [ws ! 0, TrimSpace (TrimPrefix rest (ws ! 0))] else ws
       | _ \<Rightarrow> ws),
     cmd_Raw = print_command (name # ws)\<rparr>"
proof (rule Parse_command)
  show "trimmed_ok (print_command (name # ws))" "Fields (print_command (name # ws)) = name # ws"
    using assms(1,3) trimmed_words [of "name # ws"] Fields_words [of "name # ws"] by (simp_all add: print_command_def)
  show "hd (print_command (name # ws)) = CHR ''/''"
    using assms(1,2) by (cases ws) (auto simp: print_command_def word_ok_def)
qed (use assms in simp_all)

text \<open>A name and a text, which may have several words.\<close>

lemma parse_text:
  assumes "word_ok name" "hd name = CHR ''/''" "trimmed_ok t"
  shows "Parse uc (print_command [name, t]) = \<lparr>cmd_Kind = kind_of (map lower_char name),
     cmd_Args = (case kind_of (map lower_char name) of
         KindNick \<Rightarrow> [t] | KindMe \<Rightarrow> [t]
       | KindMsg \<Rightarrow> if length (Fields t) \<ge> 2 then [Fields t ! 0, TrimSpace (TrimPrefix t (Fields t ! 0))] else Fields t
       | _ \<Rightarrow> Fields t),
     cmd_Raw = print_command [name, t]\<rparr>"
proof -
  let ?line = "print_command [name, t]"
  have name: "trimmed_ok name" "name \<noteq> []" using assms(1) word_ok_ends by (auto simp: word_ok_def)
  have line: "trimmed_ok ?line" "hd ?line = CHR ''/''" "Fields ?line = name # Fields t"
    using trimmed_ok_append [OF name(1) assms(3), of "'' ''"] assms(2) name Fields_word_Cons(1) [OF assms(1)]
    by (simp_all add: print_command_def)
  have rest: "TrimSpace (TrimPrefix ?line name) = t"
    using TrimSpace_trimmed [OF assms(3)] by (simp add: print_command_def TrimSpace_blank)
  have "t \<noteq> []" using assms(3) by (simp add: trimmed_ok_def)
  then show ?thesis
    unfolding Parse_command [OF line assms(1) rest] by (simp split: kind.split)
qed

lemma parse_msg:
  assumes "word_ok name" "hd name = CHR ''/''" "kind_of (map lower_char name) = KindMsg" "word_ok peer" "trimmed_ok t"
  shows "Parse uc (print_command [name, peer, t]) =
    \<lparr>cmd_Kind = KindMsg, cmd_Args = [peer, t], cmd_Raw = print_command [name, peer, t]\<rparr>"
proof -
  have pt: "trimmed_ok (peer @ '' '' @ t)"
    by (rule trimmed_ok_append [OF word_ok_ends [OF assms(4)] assms(5)])
  have f: "Fields (peer @ '' '' @ t) = peer # Fields t" "Fields t \<noteq> []"
    using Fields_word_Cons(1) [OF assms(4)] Fields_neq_Nil [OF assms(5)] by simp_all
  then have two: "2 \<le> length (Fields (peer @ '' '' @ t))" by (cases "Fields t") simp_all
  have "TrimSpace (TrimPrefix (peer @ '' '' @ t) peer) = t"
    using TrimSpace_trimmed [OF assms(5)] by (simp add: TrimSpace_blank)
  moreover have "print_command [name, peer, t] = print_command [name, peer @ '' '' @ t]"
    by (simp add: print_command_def)
  ultimately show ?thesis
    using parse_text [OF assms(1,2) pt, of uc] assms(3) two f(1) by simp
qed

section \<open>Properties\<close>

text \<open>
  C40. Commands round trip. Every command, printed as one of its spellings in any letter case
  followed by its arguments separated by blanks, parses back to its kind and exactly these arguments:
  words for most commands; for \<^verbatim>\<open>/nick\<close> and \<^verbatim>\<open>/me\<close> one text and for \<^verbatim>\<open>/msg\<close> a peer and a text,
  where a text may be anything that starts and ends with a visible ASCII character, inner spacing
  included. The spellings are those of the help text and the four aliases.
\<close>

theorem parse_command_roundtrip:
  assumes "map lower_char name \<in> set (spellings k)" "args_ok k args"
  shows "Parse uc (print_command (name # args)) =
    \<lparr>cmd_Kind = k, cmd_Args = args, cmd_Raw = print_command (name # args)\<rparr>"
proof -
  note n = spelled [OF assms(1)]
  consider (words) "list_all word_ok args" "k \<notin> {KindNick, KindMe, KindMsg}"
    | (none) "args = []" "k = KindNick \<or> k = KindMsg" | (one) p where "args = [p]" "word_ok p" "k = KindMsg"
    | (text_arg) t where "args = [t]" "trimmed_ok t" "k = KindNick \<or> k = KindMe"
    | (msg) p t where "args = [p, t]" "word_ok p" "trimmed_ok t" "k = KindMsg"
    using assms(2) by (cases k) auto
  then show ?thesis
  proof cases
    case words
    then show ?thesis using parse_words [OF n(2,3) words(1) refl, of uc] n(1) by (simp split: kind.split)
  next
    case none
    then show ?thesis
      using parse_words [OF n(2,3), of "[]" _ uc] n(1) by (auto simp: print_command_def TrimSpace_Nil)
  next
    case one
    then show ?thesis using parse_words [OF n(2,3), of args _ uc] n(1) by simp
  next
    case text_arg
    then show ?thesis using parse_text [OF n(2,3) text_arg(2), of uc] n(1) by auto
  next
    case msg
    then show ?thesis using parse_msg [OF n(2,3) _ msg(2,3), of uc] n(1) by simp
  qed
qed

theorem parse_command_roundtrip_witness:
  "cmd_Args (Parse sample_uc (print_command [''/MSG'', ''bob'', ''hi  there''])) = [''bob'', ''hi  there'']
   \<and> cmd_Kind (Parse sample_uc (print_command [''/Exit''])) = KindQuit
   \<and> cmd_Args (Parse sample_uc (print_command [''/me'', ''waves  slowly''])) = [''waves  slowly'']"
proof -
  have ok: "word_ok ''bob''" "trimmed_ok ''hi  there''" "trimmed_ok ''waves  slowly''"
    by (simp_all add: word_ok_def trimmed_ok_def is_space_def ascii_def)
  have names: "map lower_char ''/MSG'' \<in> set (spellings KindMsg)" "map lower_char ''/Exit'' \<in> set (spellings KindQuit)"
    "map lower_char ''/me'' \<in> set (spellings KindMe)"
    by code_simp+
  show ?thesis
    using parse_command_roundtrip [OF names(1), of "[''bob'', ''hi  there'']" sample_uc]
      parse_command_roundtrip [OF names(2), of "[]" sample_uc]
      parse_command_roundtrip [OF names(3), of "[''waves  slowly'']" sample_uc] ok by simp
qed

end
