(* ===== verification/GoNet.thy ===== *)
theory GoNet
  imports GoStrings "HOL-Library.Word"
begin

text \<open>
  What the code uses of Go's packages \<^verbatim>\<open>net\<close> and \<^verbatim>\<open>strconv\<close>:
  \<^verbatim>\<open>SplitHostPort\<close>, \<^verbatim>\<open>JoinHostPort\<close>, \<^verbatim>\<open>Atoi\<close> and the methods of
  \<^verbatim>\<open>net.IP\<close>, with the laws that relate them. An IP address is a byte list of length 4
  or 16, \<^verbatim>\<open>nil\<close> is \<open>None\<close>.
\<close>

section \<open>Package strconv\<close>

definition is_digit :: "char \<Rightarrow> bool" where
  "is_digit c \<longleftrightarrow> 48 \<le> (of_char c :: nat) \<and> (of_char c :: nat) \<le> 57"

definition dec_value :: "string \<Rightarrow> nat" where
  "dec_value s = foldl (\<lambda>a c. 10 * a + ((of_char c :: nat) - 48)) 0 s"

definition signed_dec :: "bool \<Rightarrow> string \<Rightarrow> int option" where
  "signed_dec neg ds =
     (if ds = [] \<or> \<not> list_all is_digit ds then None
      else
        (let v = (if neg then - int (dec_value ds) else int (dec_value ds)) in
         if - (2 ^ 63) \<le> v \<and> v < 2 ^ 63 then Some v else None))"

definition Atoi :: "string \<Rightarrow> int option" where
  "Atoi s =
     (case s of
        [] \<Rightarrow> None
      | c # cs \<Rightarrow>
          if c = CHR ''-'' then signed_dec True cs
          else if c = CHR ''+'' then signed_dec False cs
          else signed_dec False s)"

section \<open>Host and port\<close>

fun index_byte :: "string \<Rightarrow> char \<Rightarrow> nat option" where
  "index_byte [] c = None"
| "index_byte (x # xs) c = (if x = c then Some 0 else map_option Suc (index_byte xs c))"

text \<open>A carriage return at the end of a line is dropped.\<close>

definition dropCR :: "string \<Rightarrow> string" where
  "dropCR s = (if s \<noteq> [] \<and> last s = CHR 0x0D then butlast s else s)"

definition last_index_byte :: "string \<Rightarrow> char \<Rightarrow> nat option" where
  "last_index_byte s c = map_option (\<lambda>k. length s - 1 - k) (index_byte (rev s) c)"

definition SplitHostPort :: "string \<Rightarrow> (string \<times> string) option" where
  "SplitHostPort s =
     (case last_index_byte s CHR '':'' of
        None \<Rightarrow> None
      | Some i \<Rightarrow>
          if hd s = CHR ''['' then
            (case index_byte s CHR '']'' of
               None \<Rightarrow> None
             | Some e \<Rightarrow>
                 if e + 1 = i \<and> CHR ''['' \<notin> set (drop 1 s) \<and> CHR '']'' \<notin> set (drop (e + 1) s)
                 then Some (drop 1 (take e s), drop (i + 1) s) else None)
          else if CHR '':'' \<notin> set (take i s) \<and> CHR ''['' \<notin> set s \<and> CHR '']'' \<notin> set s
          then Some (take i s, drop (i + 1) s) else None)"

definition JoinHostPort :: "string \<Rightarrow> string \<Rightarrow> string" where
  "JoinHostPort host port =
     (if CHR '':'' \<in> set host then ''['' @ host @ '']:'' @ port else host @ '':'' @ port)"

section \<open>IP addresses\<close>

type_synonym ip = "8 word list"

definition To4 :: "ip \<Rightarrow> ip option" where
  "To4 a =
     (if length a = 4 then Some a
      else if length a = 16 \<and> take 12 a = replicate 10 0 @ [0xff, 0xff] then Some (drop 12 a)
      else None)"

definition IsLoopback :: "ip \<Rightarrow> bool" where
  "IsLoopback a = (case To4 a of Some b \<Rightarrow> b ! 0 = 127 | None \<Rightarrow> a = replicate 15 0 @ [1])"

definition IsLinkLocalUnicast :: "ip \<Rightarrow> bool" where
  "IsLinkLocalUnicast a =
     (case To4 a of
        Some b \<Rightarrow> b ! 0 = 169 \<and> b ! 1 = 254
      | None \<Rightarrow> length a = 16 \<and> a ! 0 = 0xfe \<and> drop_bit 6 (a ! 1) = 2)"

text \<open>\<^verbatim>\<open>IP.String\<close> of an address of four bytes.\<close>

definition ip4_String :: "ip \<Rightarrow> string" where
  "ip4_String a = Join (map (\<lambda>b. dec_nat (unat b)) a) ''.''"

section \<open>Numbers\<close>

lemma is_digit_char: "d < 10 \<Longrightarrow> is_digit (char_of (48 + d :: nat))"
  by (simp add: is_digit_def)

lemma dec_nat_all_digits: "list_all is_digit (dec_nat n)"
  by (auto simp: list_all_iff dest!: dec_nat_digits intro: is_digit_char)

lemma dec_value_dec_nat: "dec_value (dec_nat n) = n"
  by (simp only: dec_value_def dec_nat_value mult_zero_left add_0)

lemma digit_chars: "is_digit c \<Longrightarrow> c \<noteq> CHR '':'' \<and> c \<noteq> CHR ''['' \<and> c \<noteq> CHR '']'' \<and> c \<noteq> CHR ''-'' \<and> c \<noteq> CHR ''+''
    \<and> c \<noteq> CHR ''.''"
  by (auto simp: is_digit_def)

lemma Atoi_FormatInt: "- (2 ^ 63) \<le> i \<Longrightarrow> i < 2 ^ 63 \<Longrightarrow> Atoi (FormatInt i) = Some i"
proof -
  assume i: "- (2 ^ 63) \<le> i" "i < 2 ^ 63"
  obtain c cs where d: "dec_nat (nat i) = c # cs" by (cases "dec_nat (nat i)") auto
  then have "is_digit c" using dec_nat_all_digits [of "nat i"] by simp
  then have c: "c \<noteq> CHR ''-''" "c \<noteq> CHR ''+''" by (simp_all add: digit_chars)
  show ?thesis
  proof (cases "i < 0")
    case True
    then show ?thesis
      using i by (simp add: Atoi_def FormatInt_def signed_dec_def dec_nat_all_digits dec_value_dec_nat Let_def)
  next
    case False
    then have "Atoi (FormatInt i) = signed_dec False (dec_nat (nat i))"
      using c by (simp add: Atoi_def FormatInt_def d)
    then show ?thesis
      using i False by (simp add: signed_dec_def dec_nat_all_digits dec_value_dec_nat Let_def)
  qed
qed

lemma FormatInt_plain:
  "0 \<le> i \<Longrightarrow> CHR '':'' \<notin> set (FormatInt i) \<and> CHR ''['' \<notin> set (FormatInt i) \<and> CHR '']'' \<notin> set (FormatInt i)"
  using dec_nat_all_digits [of "nat i"] digit_chars by (auto simp: FormatInt_def list_all_iff)

section \<open>Splitting and joining\<close>

lemma index_byte_None: "index_byte s c = None \<longleftrightarrow> c \<notin> set s"
  by (induction s) auto

lemma index_byte_Some: "index_byte s c = Some i \<longleftrightarrow> i < length s \<and> s ! i = c \<and> c \<notin> set (take i s)"
proof (induction s arbitrary: i)
  case (Cons x s)
  then show ?case by (cases i) auto
qed simp

lemma index_byte_append: "c \<notin> set a \<Longrightarrow> index_byte (a @ c # b) c = Some (length a)"
  by (simp add: index_byte_Some)

lemma last_index_byte_None: "last_index_byte s c = None \<longleftrightarrow> c \<notin> set s"
  by (simp add: last_index_byte_def index_byte_None)

lemma last_index_byte_append: "c \<notin> set b \<Longrightarrow> last_index_byte (a @ c # b) c = Some (length a)"
  using index_byte_append [of c "rev b" "rev a"] by (simp add: last_index_byte_def)

lemma last_index_byte_SomeE:
  assumes "last_index_byte s c = Some i"
  obtains a b where "s = a @ c # b" "length a = i" "c \<notin> set b"
proof -
  have "c \<in> set s" using assms last_index_byte_None [of s c] by auto
  then obtain a b where s: "s = a @ c # b" "c \<notin> set b" by (meson split_list_last)
  then show thesis using that assms last_index_byte_append [of c b a] by simp
qed

lemma split_join:
  assumes "CHR ''['' \<notin> set host" "CHR '']'' \<notin> set host"
    and "CHR '':'' \<notin> set port" "CHR ''['' \<notin> set port" "CHR '']'' \<notin> set port"
  shows "SplitHostPort (JoinHostPort host port) = Some (host, port)"
proof (cases "CHR '':'' \<in> set host")
  case True
  let ?s = "CHR ''['' # host @ CHR '']'' # CHR '':'' # port"
  have "last_index_byte ?s CHR '':'' = Some (length host + 2)"
    using last_index_byte_append [of "CHR '':''" port "CHR ''['' # host @ '']''"] assms(3) by simp
  moreover have "index_byte ?s CHR '']'' = Some (Suc (length host))"
    using index_byte_append [of "CHR '']''" "CHR ''['' # host" "CHR '':'' # port"] assms(2) by simp
  ultimately show ?thesis
    using True assms by (simp add: SplitHostPort_def JoinHostPort_def)
next
  case False
  have "last_index_byte (host @ CHR '':'' # port) CHR '':'' = Some (length host)"
    using assms(3) by (rule last_index_byte_append)
  moreover have "hd (host @ CHR '':'' # port) \<noteq> CHR ''[''"
    using assms(1) by (cases host) auto
  ultimately show ?thesis
    using False assms by (simp add: SplitHostPort_def JoinHostPort_def)
qed

lemma split_plain:
  assumes "SplitHostPort s = Some (host, port)"
  shows "CHR ''['' \<notin> set host \<and> CHR '']'' \<notin> set host
    \<and> CHR '':'' \<notin> set port \<and> CHR ''['' \<notin> set port \<and> CHR '']'' \<notin> set port"
proof -
  obtain i where i: "last_index_byte s CHR '':'' = Some i"
    using assms by (auto simp: SplitHostPort_def split: option.splits)
  then obtain a b where s: "s = a @ CHR '':'' # b" "length a = i" "CHR '':'' \<notin> set b"
    by (rule last_index_byte_SomeE)
  show ?thesis
  proof (cases "hd s = CHR ''[''")
    case True
    then obtain e where e: "index_byte s CHR '']'' = Some e" "e + 1 = i" "CHR ''['' \<notin> set (drop 1 s)"
      "CHR '']'' \<notin> set (drop (e + 1) s)" "host = drop 1 (take e s)" "port = drop (i + 1) s"
      using assms i by (auto simp: SplitHostPort_def split: option.splits if_splits)
    have "port = b" using s e(6) by simp
    moreover have "set host \<subseteq> set (drop 1 s)" "set host \<subseteq> set (take e s)"
      unfolding e(5) by (metis drop_take set_take_subset) (rule set_drop_subset)
    moreover have "set b \<subseteq> set (drop 1 s)" "set b \<subseteq> set (drop (e + 1) s)"
      using s e(2) by (cases a; auto)+
    ultimately show ?thesis
      using s(3) e(1,3,4) by (auto simp: index_byte_Some)
  next
    case False
    then show ?thesis
      using assms i s by (auto simp: SplitHostPort_def split: if_splits dest: in_set_takeD in_set_dropD)
  qed
qed

section \<open>Dotted addresses\<close>

lemma set_Join: "set (Join xs sep) \<subseteq> \<Union> (set ` set xs) \<union> set sep"
  by (induction xs sep rule: Join.induct) auto

lemma ip4_String_chars: "c \<in> set (ip4_String a) \<Longrightarrow> is_digit c \<or> c = CHR ''.''"
  using set_Join [of "map (\<lambda>b. dec_nat (unat b)) a" "''.''"] dec_nat_all_digits
  by (fastforce simp: ip4_String_def list_all_iff)

lemma ip4_String_plain:
  "CHR '':'' \<notin> set (ip4_String a) \<and> CHR ''['' \<notin> set (ip4_String a) \<and> CHR '']'' \<notin> set (ip4_String a)"
  using ip4_String_chars [of _ a] digit_chars by fastforce

lemma ip4_String_neq_Nil: "a \<noteq> [] \<Longrightarrow> ip4_String a \<noteq> []"
  by (cases a rule: list.exhaust; cases "tl a") (auto simp: ip4_String_def)

lemma split_join_ip4:
  "0 \<le> port \<Longrightarrow> SplitHostPort (JoinHostPort (ip4_String a) (FormatInt port)) = Some (ip4_String a, FormatInt port)"
  using ip4_String_plain FormatInt_plain by (intro split_join) auto

end
