(* ===== verification/Stun.thy ===== *)
theory Stun
  imports GoNet
begin

text \<open>
  \<^verbatim>\<open>src/internal/stun/stun.go\<close>: the STUN Binding client and the in-process server. Datagrams are
  lists of bytes (8-bit words). \<^verbatim>\<open>Binding\<close> takes the random transaction id and the
  exchange with the server (\<open>None\<close> for a dial, write or read error) as arguments; the socket
  loop of \<^verbatim>\<open>ServeBinding\<close> is its reply to one datagram. The properties: the client reads
  back the address the server reports, accepts only replies to its own request, and reads any
  list of attributes as the specification of the format says.
\<close>

unbundle bit_operations_syntax

section \<open>Big-endian integers (package encoding/binary)\<close>

definition Uint16 :: "8 word list \<Rightarrow> 16 word" where
  "Uint16 b = ucast (b ! 1) OR push_bit 8 (ucast (b ! 0))"

definition PutUint16 :: "16 word \<Rightarrow> 8 word list" where
  "PutUint16 v = [ucast (drop_bit 8 v), ucast v]"

definition Uint32 :: "8 word list \<Rightarrow> 32 word" where
  "Uint32 b = ucast (b ! 3) OR push_bit 8 (ucast (b ! 2)) OR push_bit 16 (ucast (b ! 1)) OR push_bit 24 (ucast (b ! 0))"

definition PutUint32 :: "32 word \<Rightarrow> 8 word list" where
  "PutUint32 v = [ucast (drop_bit 24 v), ucast (drop_bit 16 v), ucast (drop_bit 8 v), ucast v]"

section \<open>Messages\<close>

definition magicCookie :: "32 word" where "magicCookie = 0x2112A442"
definition bindingReq :: "16 word" where "bindingReq = 0x0001"
definition bindingOK :: "16 word" where "bindingOK = 0x0101"
definition attrMapped :: "16 word" where "attrMapped = 0x0001"
definition attrXOR :: "16 word" where "attrXOR = 0x0020"
definition headerLen :: nat where "headerLen = 20"

record mapped =
  st_IP :: "ip option"
  st_Port :: int

definition no_mapped :: mapped where
  "no_mapped = \<lparr>st_IP = None, st_Port = 0\<rparr>"

definition Mapped_String :: "mapped \<Rightarrow> string" where
  "Mapped_String m =
     (case st_IP m of None \<Rightarrow> [] | Some a \<Rightarrow> JoinHostPort (ip4_String a) (FormatInt (st_Port m)))"

datatype stun_err =
    EmptyServer | ExchangeFailed | ShortMessage | UnexpectedType "16 word" | BadCookie
  | TxidMismatch | NoMappedAddress | ShortAddress | UnsupportedFamily "8 word"

definition magic_bytes :: "8 word list" where
  "magic_bytes = [0x21, 0x12, 0xa4, 0x42]"

definition parseAddr :: "8 word list \<Rightarrow> bool \<Rightarrow> stun_err + mapped" where
  "parseAddr val isxor =
     (if length val < 8 then Inl ShortAddress
      else
        (let family = val ! 1;
             port0 = Uint16 (drop 2 val);
             port = (if isxor then port0 XOR ucast (drop_bit 16 magicCookie) else port0) in
         if family = 0x01 then
           (let a = take 4 (drop 4 val) in
            Inr \<lparr>st_IP = Some (if isxor then map2 (XOR) a magic_bytes else a), st_Port = uint port\<rparr>)
         else Inl (UnsupportedFamily family)))"

text \<open>One attribute: a valid address of either kind replaces the one found before.\<close>

definition read_attr :: "16 word \<Rightarrow> 8 word list \<Rightarrow> mapped \<times> mapped \<Rightarrow> mapped \<times> mapped" where
  "read_attr at val mx =
     (if at = attrMapped then
        (case parseAddr val False of Inl _ \<Rightarrow> mx | Inr m \<Rightarrow> (m, snd mx))
      else if at = attrXOR then
        (case parseAddr val True of Inl _ \<Rightarrow> mx | Inr m \<Rightarrow> (fst mx, m))
      else mx)"

definition pad_len :: "nat \<Rightarrow> nat" where
  "pad_len al = (4 - al mod 4) mod 4"

function attr_loop :: "8 word list \<Rightarrow> mapped \<times> mapped \<Rightarrow> mapped \<times> mapped" where
  "attr_loop body mx =
     (if length body < 4 then mx
      else
        (let at = Uint16 body; al = unat (Uint16 (drop 2 body)); rest = drop 4 body in
         if al > length rest then mx
         else
           (let mx' = read_attr at (take al rest) mx; skip = al + pad_len al in
            if skip > length rest then mx' else attr_loop (drop skip rest) mx')))"
  by pat_completeness auto
termination
  by (relation "measure (\<lambda>(body, mx). length body)") auto

declare attr_loop.simps [simp del]

definition choose_mapped :: "mapped \<times> mapped \<Rightarrow> stun_err + mapped" where
  "choose_mapped mx =
     (if st_IP (snd mx) \<noteq> None then Inr (snd mx)
      else if st_IP (fst mx) \<noteq> None then Inr (fst mx)
      else Inl NoMappedAddress)"

definition parseBinding :: "8 word list \<Rightarrow> 8 word list \<Rightarrow> stun_err + mapped" where
  "parseBinding msg txid =
     (if length msg < headerLen then Inl ShortMessage
      else if Uint16 msg \<noteq> bindingOK then Inl (UnexpectedType (Uint16 msg))
      else if Uint32 (drop 4 msg) \<noteq> magicCookie then Inl BadCookie
      else if take 12 (drop 8 msg) \<noteq> txid then Inl TxidMismatch
      else
        (let body = drop headerLen msg;
             len = min (unat (Uint16 (drop 2 msg))) (length body) in
         choose_mapped (attr_loop (take len body) (no_mapped, no_mapped))))"

definition binding_request :: "8 word list \<Rightarrow> 8 word list" where
  "binding_request txid =
     PutUint16 bindingReq @ PutUint16 0 @ PutUint32 magicCookie @ take 12 (txid @ replicate 12 0)"

definition Binding ::
  "string \<Rightarrow> 8 word list \<Rightarrow> (8 word list \<Rightarrow> 8 word list option) \<Rightarrow> stun_err + mapped" where
  "Binding server txid exchange =
     (if server = [] then Inl EmptyServer
      else case exchange (binding_request txid) of
        None \<Rightarrow> Inl ExchangeFailed
      | Some reply \<Rightarrow> parseBinding (take 512 reply) txid)"

text \<open>
  The body of the loop of \<^verbatim>\<open>ServeBinding\<close>: the reply to a datagram from a source, which is
  \<open>None\<close> when it is not a UDP address.
\<close>

definition serve_reply :: "8 word list \<Rightarrow> (ip \<times> int) option \<Rightarrow> 8 word list option" where
  "serve_reply req source =
     (if length req < headerLen then None
      else case source of
        None \<Rightarrow> None
      | Some (src, port) \<Rightarrow>
          (case To4 src of
             None \<Rightarrow> None
           | Some a \<Rightarrow>
               (let txid = take 12 (drop 8 req);
                    xport = word_of_int port XOR ucast (drop_bit 16 magicCookie);
                    xip = map2 (XOR) a magic_bytes;
                    attr = PutUint16 attrXOR @ PutUint16 8 @ [0, 0x01] @ PutUint16 xport @ xip in
                Some (PutUint16 bindingOK @ PutUint16 (of_nat (length attr)) @ PutUint32 magicCookie
                      @ txid @ attr))))"

section \<open>The attribute format\<close>

text \<open>An attribute list as the format writes it, with any padding bytes.\<close>

type_synonym attribute = "16 word \<times> 8 word list \<times> 8 word list"

fun enc_attr :: "attribute \<Rightarrow> 8 word list" where
  "enc_attr (t, v, pad) = PutUint16 t @ PutUint16 (of_nat (length v)) @ v @ pad"

fun attr_wf :: "attribute \<Rightarrow> bool" where
  "attr_wf (t, v, pad) \<longleftrightarrow> length v < 65536 \<and> length pad = pad_len (length v)"

fun apply_attr :: "attribute \<Rightarrow> mapped \<times> mapped \<Rightarrow> mapped \<times> mapped" where
  "apply_attr (t, v, pad) mx = read_attr t v mx"

definition enc_reply :: "8 word list \<Rightarrow> attribute list \<Rightarrow> 8 word list" where
  "enc_reply txid attrs =
     (let body = concat (map enc_attr attrs) in
      PutUint16 bindingOK @ PutUint16 (of_nat (length body)) @ PutUint32 magicCookie @ txid @ body)"

text \<open>No address, or an IPv4 address with a port.\<close>

definition mapped_ok :: "mapped \<Rightarrow> bool" where
  "mapped_ok m \<longleftrightarrow> m = no_mapped
     \<or> (\<exists>a. st_IP m = Some a \<and> length a = 4 \<and> 0 \<le> st_Port m \<and> st_Port m < 65536)"

section \<open>Integers\<close>

lemma Uint16_Put [simp]: "Uint16 (PutUint16 v @ r) = v"
proof (rule bit_word_eqI)
  fix n assume "n < LENGTH(16)"
  then show "bit (Uint16 (PutUint16 v @ r)) n = bit v n"
    by (cases "n < 8") (auto simp: Uint16_def PutUint16_def bit_simps)
qed

lemma Uint32_Put [simp]: "Uint32 (PutUint32 v @ r) = v"
proof (rule bit_word_eqI)
  fix n assume "n < LENGTH(32)"
  then consider "n < 8" | "8 \<le> n" "n < 16" | "16 \<le> n" "n < 24" | "24 \<le> n" "n < 32" by force
  then show "bit (Uint32 (PutUint32 v @ r)) n = bit v n"
    by cases (auto simp: Uint32_def PutUint32_def bit_simps)
qed

lemma length_Put [simp]: "length (PutUint16 v) = 2" "length (PutUint32 w) = 4"
  by (simp_all add: PutUint16_def PutUint32_def)

lemma xor_xor_word [simp]: "(a XOR b) XOR b = (a :: 'a::len word)"
  by (simp add: xor.assoc)

lemma map2_xor_twice: "length a = length b \<Longrightarrow> map2 (XOR) (map2 (XOR) a b) b = (a :: 8 word list)"
  by (induction a b rule: list_induct2) simp_all

section \<open>Reading attributes\<close>

lemma attr_loop_short: "length body < 4 \<Longrightarrow> attr_loop body mx = mx"
  by (subst attr_loop.simps) simp

lemma attr_loop_step:
  assumes "attr_wf a"
  shows "attr_loop (enc_attr a @ rest) mx = attr_loop rest (apply_attr a mx)"
proof -
  obtain t v pad where a: "a = (t, v, pad)" by (cases a) auto
  have len: "unat (of_nat (length v) :: 16 word) = length v"
    using assms a by (simp add: unat_of_nat take_bit_nat_eq_self)
  have hd: "Uint16 (enc_attr a @ rest) = t"
    by (simp add: a)
  have al: "Uint16 (drop 2 (enc_attr a @ rest)) = of_nat (length v)"
    by (simp add: a)
  have body: "drop 4 (enc_attr a @ rest) = v @ pad @ rest"
    by (simp add: a)
  have "\<not> length (enc_attr a @ rest) < 4" by (simp add: a)
  then show ?thesis
    using assms by (subst attr_loop.simps) (simp only: hd al body len Let_def, simp add: a)
qed

lemma attr_loop_list:
  assumes "list_all attr_wf attrs" "length rest < 4"
  shows "attr_loop (concat (map enc_attr attrs) @ rest) mx = fold apply_attr attrs mx"
  using assms(1)
proof (induction attrs arbitrary: mx)
  case Nil
  then show ?case using assms(2) by (simp add: attr_loop_short)
next
  case (Cons a attrs)
  then show ?case by (simp add: attr_loop_step)
qed

section \<open>The header\<close>

lemma header_fields:
  fixes txid body :: "8 word list" and t n c
  assumes "length txid = 12"
  defines "msg \<equiv> PutUint16 t @ PutUint16 n @ PutUint32 c @ txid @ body"
  shows "length msg = 20 + length body" "Uint16 msg = t" "Uint16 (drop 2 msg) = n" "Uint32 (drop 4 msg) = c"
    "take 12 (drop 8 msg) = txid" "drop 20 msg = body"
proof -
  have "drop 4 msg = PutUint32 c @ txid @ body" "drop 2 msg = PutUint16 n @ PutUint32 c @ txid @ body"
    by (simp_all add: msg_def)
  then show "Uint16 (drop 2 msg) = n" "Uint32 (drop 4 msg) = c" by simp_all
qed (use assms(1) in \<open>simp_all add: msg_def\<close>)

lemma parse_reply:
  assumes "length txid = 12" "length body < 65536"
  shows "parseBinding (PutUint16 bindingOK @ PutUint16 (of_nat (length body)) @ PutUint32 magicCookie @ txid @ body) txid
    = choose_mapped (attr_loop body (no_mapped, no_mapped))"
proof -
  have "unat (of_nat (length body) :: 16 word) = length body"
    using assms(2) by (simp add: unat_of_nat take_bit_nat_eq_self)
  then show ?thesis
    unfolding parseBinding_def Let_def headerLen_def header_fields [OF assms(1)] by simp
qed

lemma parseAddr_ip:
  assumes "parseAddr val x = Inr m"
  shows "\<exists>a. st_IP m = Some a \<and> length a = 4 \<and> 0 \<le> st_Port m \<and> st_Port m < 65536"
proof -
  have "uint (p :: 16 word) < 65536" for p using uint_lt2p [of p] by simp
  then show ?thesis
    using assms by (auto simp: parseAddr_def magic_bytes_def Let_def split: if_splits)
qed

lemma read_attr_ok:
  "mapped_ok (fst mx) \<Longrightarrow> mapped_ok (snd mx) \<Longrightarrow>
   mapped_ok (fst (read_attr t v mx)) \<and> mapped_ok (snd (read_attr t v mx))"
  by (auto simp: read_attr_def mapped_ok_def split: sum.split dest: parseAddr_ip)

lemma attr_loop_ok:
  "mapped_ok (fst mx) \<Longrightarrow> mapped_ok (snd mx) \<Longrightarrow>
   mapped_ok (fst (attr_loop body mx)) \<and> mapped_ok (snd (attr_loop body mx))"
proof (induction body mx rule: attr_loop.induct)
  case (1 body mx)
  show ?case
    using 1 read_attr_ok [OF "1.prems"] by (subst (1 2) attr_loop.simps) (auto simp: Let_def)
qed

lemma parse_enc_reply:
  assumes "length txid = 12" "list_all attr_wf attrs" "length (concat (map enc_attr attrs)) < 65536"
  shows "parseBinding (enc_reply txid attrs) txid
    = choose_mapped (fold apply_attr attrs (no_mapped, no_mapped))"
  unfolding enc_reply_def Let_def parse_reply [OF assms(1,3)]
  using attr_loop_list [OF assms(2), of "[]"] by simp

lemma serve_then_parse:
  assumes "server \<noteq> []" "length txid = 12" "To4 src = Some a" "0 \<le> port" "port < 65536"
  shows "Binding server txid (\<lambda>req. serve_reply req (Some (src, port))) = Inr \<lparr>st_IP = Some a, st_Port = port\<rparr>"
proof -
  let ?x = "word_of_int port XOR ucast (drop_bit 16 magicCookie) :: 16 word"
  let ?v = "[0, 0x01] @ PutUint16 ?x @ map2 (XOR) a magic_bytes"
  have a: "length a = 4" using assms(3) by (auto simp: To4_def split: if_splits)
  have v: "length ?v = 8" using a by (simp add: magic_bytes_def)
  have tx: "take 12 (drop 8 (binding_request txid)) = txid" "length (binding_request txid) = 20"
    using assms(2) by (simp_all add: binding_request_def)
  have rep: "serve_reply (binding_request txid) (Some (src, port)) = Some (enc_reply txid [(attrXOR, ?v, [])])"
    using assms(2,3) v tx by (simp add: serve_reply_def enc_reply_def Let_def headerLen_def)
  have "length (enc_reply txid [(attrXOR, ?v, [])]) = 32"
    using v assms(2) by (simp add: enc_reply_def Let_def)
  then have "Binding server txid (\<lambda>req. serve_reply req (Some (src, port)))
      = parseBinding (enc_reply txid [(attrXOR, ?v, [])]) txid"
    using assms(1) rep by (simp add: Binding_def)
  also have "\<dots> = choose_mapped (read_attr attrXOR ?v (no_mapped, no_mapped))"
    using v assms(2) by (subst parse_enc_reply) (simp_all add: pad_len_def)
  also have "parseAddr ?v True = Inr \<lparr>st_IP = Some a, st_Port = port\<rparr>"
  proof -
    have "uint (word_of_int port :: 16 word) = port"
      using assms(4,5) by (simp add: uint_word_of_int take_bit_int_eq_self)
    then show ?thesis
      using v a map2_xor_twice [of a magic_bytes] by (simp add: parseAddr_def Let_def magic_bytes_def)
  qed
  then have "choose_mapped (read_attr attrXOR ?v (no_mapped, no_mapped)) = Inr \<lparr>st_IP = Some a, st_Port = port\<rparr>"
    by (simp add: read_attr_def attrXOR_def attrMapped_def choose_mapped_def)
  finally show ?thesis .
qed

section \<open>Properties\<close>

text \<open>
  The client reads what the format says: for a reply to its transaction with any list of
  attributes whose total length fits the length field, the result is the last valid
  XOR-MAPPED-ADDRESS, or else the last valid MAPPED-ADDRESS, whatever other attributes and padding
  bytes surround them.
\<close>

theorem stun_reads_attributes:
  assumes "length txid = 12" "list_all attr_wf attrs" "length (concat (map enc_attr attrs)) < 65536"
  shows "parseBinding (enc_reply txid attrs) txid
    = choose_mapped (fold apply_attr attrs (no_mapped, no_mapped))"
  using assms by (rule parse_enc_reply)

text \<open>
  C30. Round trip between client and server: to the client's request the server replies with the
  IPv4 address and port it saw, and the client reads back exactly that address and port.
\<close>

theorem stun_roundtrip:
  assumes "server \<noteq> []" "length txid = 12" "To4 src = Some a" "0 \<le> port" "port < 65536"
  shows "Binding server txid (\<lambda>req. serve_reply req (Some (src, port))) = Inr \<lparr>st_IP = Some a, st_Port = port\<rparr>"
  using assms by (rule serve_then_parse)

theorem stun_roundtrip_witness:
  "Binding ''stun:3478'' (replicate 12 9) (\<lambda>req. serve_reply req (Some ([203, 0, 113, 7], 40000)))
     = Inr \<lparr>st_IP = Some [203, 0, 113, 7], st_Port = 40000\<rparr>"
  by (rule stun_roundtrip) (simp_all add: To4_def)

text \<open>
  C31. The client accepts nothing but a Binding success reply with the magic cookie and the
  transaction id of its own request, and what it returns is always an IPv4 address with a port
  below 65536, whatever the bytes of the datagram.
\<close>

theorem stun_accepts_only_own_reply:
  assumes "Binding server txid exchange = Inr m"
  shows "\<exists>reply a. exchange (binding_request txid) = Some reply \<and> 20 \<le> length (take 512 reply)
    \<and> Uint16 reply = bindingOK \<and> Uint32 (drop 4 reply) = magicCookie \<and> take 12 (drop 8 reply) = txid
    \<and> st_IP m = Some a \<and> length a = 4 \<and> 0 \<le> st_Port m \<and> st_Port m < 65536"
proof -
  obtain reply where r: "exchange (binding_request txid) = Some reply" "parseBinding (take 512 reply) txid = Inr m"
    using assms by (auto simp: Binding_def split: if_splits option.splits)
  have len: "20 \<le> length (take 512 reply)"
    using r(2) by (auto simp: parseBinding_def headerLen_def split: if_splits)
  have same: "Uint16 (take 512 reply) = Uint16 reply" "Uint32 (drop 4 (take 512 reply)) = Uint32 (drop 4 reply)"
    "take 12 (drop 8 (take 512 reply)) = take 12 (drop 8 reply)"
    using len by (auto simp: Uint16_def Uint32_def drop_take)
  obtain body where "choose_mapped (attr_loop body (no_mapped, no_mapped)) = Inr m"
    using r(2) by (auto simp: parseBinding_def Let_def split: if_splits)
  moreover have "mapped_ok (fst (attr_loop body (no_mapped, no_mapped))) \<and> mapped_ok (snd (attr_loop body (no_mapped, no_mapped)))"
    by (rule attr_loop_ok) (simp_all add: mapped_ok_def)
  ultimately have "\<exists>a. st_IP m = Some a \<and> length a = 4 \<and> 0 \<le> st_Port m \<and> st_Port m < 65536"
    by (auto simp: choose_mapped_def mapped_ok_def no_mapped_def split: if_splits)
  then show ?thesis
    using r len same by (auto simp: parseBinding_def headerLen_def split: if_splits)
qed

theorem stun_accepts_witness:
  "\<exists>reply. serve_reply (binding_request (replicate 12 9)) (Some ([203, 0, 113, 7], 40000)) = Some reply
     \<and> take 12 (drop 8 reply) = replicate 12 9"
proof -
  have "Binding ''stun:3478'' (replicate 12 9) (\<lambda>req. serve_reply req (Some ([203, 0, 113, 7], 40000)))
     = Inr \<lparr>st_IP = Some [203, 0, 113, 7], st_Port = 40000\<rparr>"
    by (rule serve_then_parse) (simp_all add: To4_def)
  then show ?thesis using stun_accepts_only_own_reply by blast
qed

end
