(* ===== verification/Netutil.thy ===== *)
theory Netutil
  imports GoNet Prelude
begin

text \<open>
  \<^verbatim>\<open>src/internal/netutil/netutil.go\<close>: local address candidates and the filter for
  addresses received from peers. The result of \<^verbatim>\<open>net.InterfaceAddrs\<close> is an argument
  (\<open>None\<close> when it fails). The loops that skip what they have already seen carry their set of
  seen strings; the properties compare them with the reference definition \<open>firsts\<close>, the first
  occurrences of a list.
\<close>

section \<open>Local addresses\<close>

datatype net_addr = IPNet ip | OtherAddr

fun private_of :: "net_addr \<Rightarrow> ip option" where
  "private_of OtherAddr = None"
| "private_of (IPNet a) =
     (if IsLoopback a then None
      else case To4 a of
        None \<Rightarrow> None
      | Some b \<Rightarrow> if IsLinkLocalUnicast b then None else Some b)"

definition PrivateIPv4 :: "net_addr list option \<Rightarrow> ip list" where
  "PrivateIPv4 ifaces = (case ifaces of None \<Rightarrow> [] | Some addrs \<Rightarrow> List.map_filter private_of addrs)"

fun Join_ip :: "ip option \<Rightarrow> int \<Rightarrow> string" where
  "Join_ip None port = []"
| "Join_ip (Some a) port = JoinHostPort (ip4_String a) (FormatInt port)"

text \<open>The loop body shared by \<^verbatim>\<open>Unique\<close> and the closure of \<^verbatim>\<open>LocalCandidates\<close>.\<close>

fun add_unseen :: "string \<Rightarrow> (string, unit) gomap \<times> string list \<Rightarrow> (string, unit) gomap \<times> string list" where
  "add_unseen s (seen, out) =
     (if s = [] then (seen, out)
      else if gm_has seen s then (seen, out)
      else (gm_put s () seen, out @ [s]))"

definition LocalCandidates :: "net_addr list option \<Rightarrow> int \<Rightarrow> string list" where
  "LocalCandidates ifaces port =
     snd (fold (\<lambda>a. add_unseen (Join_ip (Some a) port)) (PrivateIPv4 ifaces)
       (add_unseen (JoinHostPort ''127.0.0.1'' (FormatInt port)) (gm_empty, [])))"

definition Unique :: "string list \<Rightarrow> string list" where
  "Unique addrs = snd (fold add_unseen addrs (gm_empty, []))"

definition AdvertiseCandidates :: "net_addr list option \<Rightarrow> int \<Rightarrow> string list" where
  "AdvertiseCandidates ifaces port = Unique (map (\<lambda>a. Join_ip (Some a) port) (PrivateIPv4 ifaces))"

section \<open>Received addresses\<close>

text \<open>The canonical form of one received address, \<open>None\<close> when the loop skips it.\<close>

definition canon_addr :: "string \<Rightarrow> string option" where
  "canon_addr raw =
     (let a = TrimSpace raw in
      if a = [] \<or> length a > 128 then None
      else case SplitHostPort a of
        None \<Rightarrow> None
      | Some (host, port) \<Rightarrow>
          if host = [] then None
          else case Atoi port of
            None \<Rightarrow> None
          | Some p \<Rightarrow> if p \<le> 0 \<or> p > 65535 then None else Some (JoinHostPort host (FormatInt p)))"

fun sanitize_loop :: "nat \<Rightarrow> string list \<Rightarrow> (string, unit) gomap \<Rightarrow> string list \<Rightarrow> string list" where
  "sanitize_loop lim [] seen out = out"
| "sanitize_loop lim (a # as) seen out =
     (case canon_addr a of
        None \<Rightarrow> sanitize_loop lim as seen out
      | Some canon \<Rightarrow>
          if gm_has seen canon then sanitize_loop lim as seen out
          else if length (out @ [canon]) \<ge> lim then out @ [canon]
          else sanitize_loop lim as (gm_put canon () seen) (out @ [canon]))"

definition SanitizeAddrs :: "string list \<Rightarrow> int \<Rightarrow> string list" where
  "SanitizeAddrs addrs lim =
     sanitize_loop (if lim \<le> 0 then 8 else nat lim) addrs gm_empty []"

section \<open>Reference definitions\<close>

fun firsts :: "'a list \<Rightarrow> 'a list" where
  "firsts [] = []"
| "firsts (x # xs) = x # firsts (filter (\<lambda>y. y \<noteq> x) xs)"

text \<open>A string of the form host:port with a nonempty host and a port between 1 and 65535.\<close>

definition host_port :: "string \<Rightarrow> bool" where
  "host_port a \<longleftrightarrow> (\<exists>host p. SplitHostPort a = Some (host, FormatInt p) \<and> host \<noteq> [] \<and> 0 < p \<and> p \<le> 65535)"

section \<open>The loops compute first occurrences\<close>

lemma set_firsts [simp]: "set (firsts xs) = set xs"
  by (induction xs rule: firsts.induct) auto

lemma length_firsts: "length (firsts xs) \<le> length xs"
proof (induction xs rule: firsts.induct)
  case (2 x xs)
  from le_trans [OF this length_filter_le] show ?case by simp
qed simp

lemma distinct_firsts [simp]: "distinct (firsts xs)"
  by (induction xs rule: firsts.induct) auto

lemma filter_firsts: "filter P (firsts xs) = firsts (filter P xs)"
proof (induction xs rule: firsts.induct)
  case (2 x xs)
  have "filter P (filter (\<lambda>y. y \<noteq> x) xs) = filter (\<lambda>y. y \<noteq> x) (filter P xs)"
    by (simp add: conj_commute)
  moreover have "filter P (filter (\<lambda>y. y \<noteq> x) xs) = filter P xs" if "\<not> P x"
    using that by (induction xs) auto
  ultimately show ?case using 2 by auto
qed simp

lemma add_unseen_fold:
  assumes "dom (gm_get seen) = set out"
  shows "snd (fold add_unseen xs (seen, out)) = out @ firsts (filter (\<lambda>s. s \<noteq> [] \<and> s \<notin> set out) xs)"
  using assms
proof (induction xs arbitrary: seen out)
  case (Cons x xs)
  show ?case
  proof (cases "x = [] \<or> x \<in> set out")
    case True
    then show ?thesis using Cons by (auto simp: gm_has_iff)
  next
    case False
    then have step: "add_unseen x (seen, out) = (gm_put x () seen, out @ [x])"
      using Cons.prems by (auto simp: gm_has_iff)
    have "filter (\<lambda>s. s \<noteq> [] \<and> s \<notin> set (out @ [x])) xs
        = filter (\<lambda>y. y \<noteq> x) (filter (\<lambda>s. s \<noteq> [] \<and> s \<notin> set out) xs)"
      by (induction xs) auto
    then show ?thesis
      using Cons.IH [of "gm_put x () seen" "out @ [x]"] Cons.prems False step by (simp add: gm.dom_put del: add_unseen.simps)
  qed
qed simp

lemma Unique_firsts: "Unique addrs = firsts (filter (\<lambda>s. s \<noteq> []) addrs)"
  using add_unseen_fold [of gm_empty "[]" addrs] by (simp add: Unique_def gm_fun_laws)

lemma sanitize_loop_firsts:
  assumes "dom (gm_get seen) = set out" "length out < lim"
  shows "sanitize_loop lim xs seen out =
    out @ take (lim - length out) (firsts (filter (\<lambda>s. s \<notin> set out) (List.map_filter canon_addr xs)))"
  using assms
proof (induction xs arbitrary: seen out)
  case (Cons x xs)
  show ?case
  proof (cases "canon_addr x")
    case None
    then show ?thesis using Cons by (simp add: map_filter_simps)
  next
    case (Some c)
    show ?thesis
    proof (cases "c \<in> set out")
      case True
      then show ?thesis using Cons Some by (auto simp: gm_has_iff map_filter_simps)
    next
      case False
      let ?ys = "List.map_filter canon_addr xs"
      have seen: "\<not> gm_has seen c" using Cons.prems False by (simp add: gm_has_iff)
      have flt: "filter (\<lambda>s. s \<notin> set (out @ [c])) ?ys = filter (\<lambda>y. y \<noteq> c) (filter (\<lambda>s. s \<notin> set out) ?ys)"
        by (auto intro!: filter_cong)
      show ?thesis
      proof (cases "Suc (length out) \<ge> lim")
        case True
        then have "lim - length out = 1" using Cons.prems by simp
        then show ?thesis using True False Some seen by (simp add: map_filter_simps)
      next
        case lim: False
        then obtain k where k: "lim - length out = Suc k" "lim - length (out @ [c]) = k"
          by (metis Suc_diff_Suc Cons.prems(2) length_append_singleton)
        have "sanitize_loop lim xs (gm_put c () seen) (out @ [c])
            = (out @ [c]) @ take k (firsts (filter (\<lambda>y. y \<noteq> c) (filter (\<lambda>s. s \<notin> set out) ?ys)))"
          using Cons.IH [of "gm_put c () seen" "out @ [c]"] Cons.prems lim
          unfolding flt k(2) by (simp add: gm.dom_put)
        then show ?thesis using lim seen False Some k(1) by (simp add: map_filter_simps)
      qed
    qed
  qed
qed (simp add: map_filter_simps)

lemma canon_addr_host_port:
  assumes "canon_addr a = Some c"
  shows "host_port c"
proof -
  obtain host port where sp: "SplitHostPort (TrimSpace a) = Some (host, port)" and h: "host \<noteq> []"
    using assms by (auto simp: canon_addr_def Let_def split: if_splits option.splits)
  moreover obtain p where at: "Atoi port = Some p" "0 < p" "p \<le> 65535"
    using assms sp h
    by (cases "Atoi port") (auto simp: canon_addr_def Let_def not_le split: if_splits)
  moreover have "c = JoinHostPort host (FormatInt p)"
    using assms sp h at by (auto simp: canon_addr_def Let_def split: if_splits)
  ultimately have s: "SplitHostPort (TrimSpace a) = Some (host, port)" "host \<noteq> []" "0 < p" "p \<le> 65535"
    "c = JoinHostPort host (FormatInt p)" by simp_all
  then have "SplitHostPort c = Some (host, FormatInt p)"
    using split_plain [OF s(1)] FormatInt_plain [of p] by (auto intro: split_join)
  with s show ?thesis by (auto simp: host_port_def)
qed

lemma sanitize_facts:
  "SanitizeAddrs addrs lim =
     take (if lim \<le> 0 then 8 else nat lim) (firsts (List.map_filter canon_addr addrs))
   \<and> length (SanitizeAddrs addrs lim) \<le> (if lim \<le> 0 then 8 else nat lim)
   \<and> distinct (SanitizeAddrs addrs lim) \<and> list_all host_port (SanitizeAddrs addrs lim)"
proof -
  have eq: "SanitizeAddrs addrs lim =
     take (if lim \<le> 0 then 8 else nat lim) (firsts (List.map_filter canon_addr addrs))"
    using sanitize_loop_firsts [of gm_empty "[]" "if lim \<le> 0 then 8 else nat lim" addrs]
    by (simp add: SanitizeAddrs_def gm_fun_laws)
  have "list_all host_port (firsts (List.map_filter canon_addr addrs))"
    by (auto simp: list_all_iff map_filter_def dest: canon_addr_host_port)
  then have "list_all host_port (SanitizeAddrs addrs lim)"
    unfolding eq by (auto simp: list_all_iff dest: in_set_takeD)
  then show ?thesis using eq by simp
qed

section \<open>Properties\<close>

text \<open>
  C32. The address filter is the loop-free reference: SanitizeAddrs returns the first
  \<^verbatim>\<open>max\<close> (8 when not positive) distinct canonical forms of its input in their order, so the
  result has at most that many entries, no duplicates, and each entry is host:port with a
  nonempty host and a port from 1 to 65535 written in plain decimal.
\<close>

theorem sanitize_addrs_reference:
  "SanitizeAddrs addrs lim =
     take (if lim \<le> 0 then 8 else nat lim) (firsts (List.map_filter canon_addr addrs))
   \<and> length (SanitizeAddrs addrs lim) \<le> (if lim \<le> 0 then 8 else nat lim)
   \<and> distinct (SanitizeAddrs addrs lim) \<and> list_all host_port (SanitizeAddrs addrs lim)"
  by (rule sanitize_facts)

lemma PrivateIPv4_props:
  assumes "a \<in> set (PrivateIPv4 ifaces)"
  shows "length a = 4" "a ! 0 \<noteq> 127" "\<not> (a ! 0 = 169 \<and> a ! 1 = 254)"
proof -
  obtain b where "\<not> IsLoopback b" "To4 b = Some a" "\<not> IsLinkLocalUnicast a"
    using assms
    by (auto simp: PrivateIPv4_def map_filter_def split: option.splits if_splits elim!: private_of.elims)
  then show "length a = 4" "a ! 0 \<noteq> 127" "\<not> (a ! 0 = 169 \<and> a ! 1 = 254)"
    by (auto simp: To4_def IsLoopback_def IsLinkLocalUnicast_def split: if_splits option.splits)
qed

text \<open>
  The address hints a node puts on its handshake are distinct host:port strings of its
  interfaces' IPv4 addresses with the listen port, and none of them is a loopback or link-local
  address; every such interface address is listed.
\<close>

theorem advertise_candidates_spec:
  assumes "0 < port" "port \<le> 65535"
  shows "distinct (AdvertiseCandidates ifaces port)
    \<and> list_all host_port (AdvertiseCandidates ifaces port)
    \<and> set (AdvertiseCandidates ifaces port)
        = (\<lambda>a. JoinHostPort (ip4_String a) (FormatInt port)) ` set (PrivateIPv4 ifaces)
    \<and> list_all (\<lambda>a. length a = 4 \<and> a ! 0 \<noteq> 127 \<and> (a ! 0, a ! 1) \<noteq> (169, 254)) (PrivateIPv4 ifaces)"
proof -
  have ne: "JoinHostPort h p \<noteq> []" for h p by (simp add: JoinHostPort_def)
  have set: "set (AdvertiseCandidates ifaces port)
      = (\<lambda>a. JoinHostPort (ip4_String a) (FormatInt port)) ` set (PrivateIPv4 ifaces)"
    using ne by (auto simp: AdvertiseCandidates_def Unique_firsts)
  have "host_port (JoinHostPort (ip4_String a) (FormatInt port))" if "a \<in> set (PrivateIPv4 ifaces)" for a
  proof -
    have "a \<noteq> []" using PrivateIPv4_props(1) [OF that] by auto
    then show ?thesis
      using split_join_ip4 [of port a] ip4_String_neq_Nil [of a] assms by (auto simp: host_port_def)
  qed
  then have "list_all host_port (AdvertiseCandidates ifaces port)"
    using set by (auto simp: list_all_iff)
  moreover have "distinct (AdvertiseCandidates ifaces port)"
    by (simp add: AdvertiseCandidates_def Unique_firsts)
  ultimately show ?thesis
    using set PrivateIPv4_props by (auto simp: list_all_iff)
qed

end
