(* ===== verification/Peer.thy ===== *)
theory Peer
  imports Netutil Protocol "HOL-Library.Sublist" "HOL-Library.Multiset"
begin

text \<open>
  \<^verbatim>\<open>src/internal/peer/peer.go\<close>: connections and the table of connected peers (the handshake is
  in \<open>Handshake\<close>). Connections are objects shared by the table and by their goroutines,
  so they live in a store: a pointer \<^verbatim>\<open>*Conn\<close> is a handle, the table maps peer ids to handles,
  and pointer comparison is comparison of handles. Context cancellation and the closed socket are
  the flag \<open>cn_done\<close>. The hooks a manager calls are recorded as events, in order.

  A goroutine is modelled by the steps it takes: \<open>read_step\<close> is one turn of the read loop,
  \<open>write_tick\<close> one tick of the write loop, \<open>shutdown\<close> the end of the read loop. The
  \<^verbatim>\<open>select\<close> of \<^verbatim>\<open>Send\<close> may take either ready branch; the choice is an argument.
\<close>

section \<open>Connections\<close>

datatype hs_err =
    HsTLS | HsRead | HsUnexpected string | HsInvalid perr | HsSignature perr | HsStale perr
  | HsBadKey | HsPeerID | HsSign perr | HsWrite | HsPeerKey | HsKeyMismatch

datatype peer_err =
    ErrHandshake hs_err | ErrSelfConnect | ErrDuplicate | ErrUnknownPeer | ErrAmbiguousID
  | ErrSendQueue | ErrTooMany | ErrCanceled

record info =
  pi_ID :: string
  pi_PublicKey :: string
  pi_Nickname :: string
  pi_Addr :: string
  pi_Inbound :: bool
  pi_Connected :: int
  pi_ListenPort :: int
  pi_Addrs :: "string list"

definition no_info :: info where
  "no_info = \<lparr>pi_ID = [], pi_PublicKey = [], pi_Nickname = [], pi_Addr = [], pi_Inbound = False,
     pi_Connected = 0, pi_ListenPort = 0, pi_Addrs = []\<rparr>"

definition Info_ShortID :: "info \<Rightarrow> string" where
  "Info_ShortID i = (if length (pi_ID i) < 8 then pi_ID i else take 8 (pi_ID i))"

record conn =
  cn_info :: info
  cn_inbound :: bool
  cn_sendCh :: "message list"
  cn_done :: bool
  cn_lastRecv :: int
  cn_pingEvery :: int
  cn_idleAfter :: int
  cn_malformed :: nat
  cn_lastPong :: int
  cn_notified :: bool

definition sendCap :: nat where "sendCap = 64"

text \<open>\<^verbatim>\<open>AllowPong\<close>; instants are nanoseconds as \<^verbatim>\<open>UnixNano\<close> gives them.\<close>

definition AllowPong :: "int \<Rightarrow> int \<Rightarrow> conn \<Rightarrow> bool \<times> conn" where
  "AllowPong minInterval now c =
     (let d = (if minInterval \<le> 0 then second else minInterval) in
      if cn_lastPong c \<noteq> 0 \<and> now - cn_lastPong c < d then (False, c)
      else (True, c\<lparr>cn_lastPong := now\<rparr>))"

definition touch :: "int \<Rightarrow> conn \<Rightarrow> conn" where
  "touch now c = c\<lparr>cn_lastRecv := now\<rparr>"

definition Send :: "bool \<Rightarrow> message \<Rightarrow> conn \<Rightarrow> peer_err option \<times> conn" where
  "Send pick m c =
     (let room = length (cn_sendCh c) < sendCap in
      if cn_done c \<and> (pick \<or> \<not> room) then (Some ErrCanceled, c)
      else if room then (None, c\<lparr>cn_sendCh := cn_sendCh c @ [m]\<rparr>)
      else (Some ErrSendQueue, c))"

definition Close_conn :: "conn \<Rightarrow> conn" where
  "Close_conn c = c\<lparr>cn_done := True\<rparr>"

text \<open>
  One turn of \<^verbatim>\<open>readLoop\<close> on the result of \<^verbatim>\<open>protocol.Read\<close>: whether the loop goes on,
  and the message it hands to \<^verbatim>\<open>onMsg\<close>.
\<close>

datatype read_result = ReadMsg message | ReadMalformed | ReadFailed

fun read_step :: "int \<Rightarrow> read_result \<Rightarrow> conn \<Rightarrow> bool \<times> message option \<times> conn" where
  "read_step now ReadFailed c = (False, None, c)"
| "read_step now ReadMalformed c =
     (let c1 = c\<lparr>cn_malformed := cn_malformed c + 1\<rparr> in (cn_malformed c1 < 5, None, c1))"
| "read_step now (ReadMsg m) c = (True, Some m, touch now (c\<lparr>cn_malformed := 0\<rparr>))"

fun readLoop :: "(int \<times> read_result) list \<Rightarrow> conn \<Rightarrow> bool \<times> message list \<times> conn" where
  "readLoop [] c = (True, [], c)"
| "readLoop ((now, r) # rs) c =
     (case read_step now r c of
        (go, m, c1) \<Rightarrow>
          if \<not> go then (False, [], c1)
          else (case readLoop rs c1 of
                  (alive, ms, c2) \<Rightarrow> (alive, (case m of None \<Rightarrow> ms | Some x \<Rightarrow> x # ms), c2)))"

text \<open>One tick of \<^verbatim>\<open>writeLoop\<close>.\<close>

datatype tick = TickClose | TickSkip | TickPing message

definition write_tick :: "(string \<Rightarrow> string) \<Rightarrow> string \<Rightarrow> int \<Rightarrow> conn \<Rightarrow> tick \<times> conn" where
  "write_tick sha256 nonce now c =
     (if cn_idleAfter c > 0 \<and> now - cn_lastRecv c > cn_idleAfter c then (TickClose, Close_conn c)
      else if now - cn_lastRecv c < cn_pingEvery c then (TickSkip, c)
      else (TickPing (NewPing sha256 now nonce (pi_ID (cn_info c))), c))"

text \<open>The other branch of the loop: the next queued message is written, or the connection closes.\<close>

definition write_next :: "bool \<Rightarrow> conn \<Rightarrow> message option \<times> conn" where
  "write_next write_ok c =
     (case cn_sendCh c of
        [] \<Rightarrow> (None, c)
      | m # q \<Rightarrow>
          let c1 = c\<lparr>cn_sendCh := q\<rparr> in if write_ok then (Some m, c1) else (None, Close_conn c1))"

section \<open>The manager\<close>

datatype peer_event = EvUp info | EvDown info | EvReplace info

record pmanager =
  pm_conns :: "(string, nat) gomap"
  pm_store :: "(nat, conn) gomap"
  pm_localID :: string
  pm_maxMsg :: int
  pm_pingEvery :: int
  pm_idleAfter :: int
  pm_onUp :: bool
  pm_onDown :: bool
  pm_onReplace :: bool
  pm_tls :: bool
  pm_listenPort :: int
  pm_advertise :: "string list"
  pm_maxPeers :: int

definition NewPeerManager :: "string \<Rightarrow> int \<Rightarrow> int \<Rightarrow> int \<Rightarrow> pmanager" where
  "NewPeerManager localID maxMsg pingEvery idleAfter =
     \<lparr>pm_conns = gm_empty, pm_store = gm_empty, pm_localID = localID, pm_maxMsg = maxMsg,
      pm_pingEvery = (if pingEvery \<le> 0 then 20 * second else pingEvery),
      pm_idleAfter = (if idleAfter \<le> 0 then 60 * second else idleAfter),
      pm_onUp = False, pm_onDown = False, pm_onReplace = False, pm_tls = False, pm_listenPort = 0,
      pm_advertise = [], pm_maxPeers = 0\<rparr>"

definition SetHooks :: "bool \<Rightarrow> bool \<Rightarrow> pmanager \<Rightarrow> pmanager" where
  "SetHooks onUp onDown m = m\<lparr>pm_onUp := onUp, pm_onDown := onDown\<rparr>"

definition SetReplaceHook :: "bool \<Rightarrow> pmanager \<Rightarrow> pmanager" where
  "SetReplaceHook fn m = m\<lparr>pm_onReplace := fn\<rparr>"

definition SetMaxPeers :: "int \<Rightarrow> pmanager \<Rightarrow> pmanager" where
  "SetMaxPeers n m = m\<lparr>pm_maxPeers := n\<rparr>"

definition EnableTLS :: "pmanager \<Rightarrow> pmanager" where
  "EnableTLS m = m\<lparr>pm_tls := True\<rparr>"

definition SetListenPort :: "int \<Rightarrow> pmanager \<Rightarrow> pmanager" where
  "SetListenPort p m = m\<lparr>pm_listenPort := p\<rparr>"

definition SetAdvertiseAddrs :: "string list \<Rightarrow> pmanager \<Rightarrow> pmanager" where
  "SetAdvertiseAddrs addrs m = m\<lparr>pm_advertise := SanitizeAddrs addrs 8\<rparr>"

definition Connected :: "pmanager \<Rightarrow> string \<Rightarrow> bool" where
  "Connected m peerID = gm_has (pm_conns m) peerID"

definition conn_at :: "pmanager \<Rightarrow> nat \<Rightarrow> conn option" where
  "conn_at m h = gm_get (pm_store m) h"

definition put_conn :: "nat \<Rightarrow> conn \<Rightarrow> pmanager \<Rightarrow> pmanager" where
  "put_conn h c m = m\<lparr>pm_store := gm_put h c (pm_store m)\<rparr>"

definition on_conn :: "nat \<Rightarrow> (conn \<Rightarrow> conn) \<Rightarrow> pmanager \<Rightarrow> pmanager" where
  "on_conn h f m = (case conn_at m h of None \<Rightarrow> m | Some c \<Rightarrow> put_conn h (f c) m)"

text \<open>\<^verbatim>\<open>wrap\<close> allocates the connection at a fresh handle.\<close>

definition wrap :: "nat \<Rightarrow> bool \<Rightarrow> pmanager \<Rightarrow> pmanager" where
  "wrap h inbound m =
     put_conn h \<lparr>cn_info = no_info, cn_inbound = inbound, cn_sendCh = [], cn_done = False, cn_lastRecv = 0,
       cn_pingEvery = pm_pingEvery m, cn_idleAfter = pm_idleAfter m, cn_malformed = 0, cn_lastPong = 0,
       cn_notified = False\<rparr> m"

text \<open>
  \<^verbatim>\<open>adopt\<close> on the connection \<open>c\<close> stored at \<open>h\<close>, in the three parts between which other
  goroutines run: the section under the lock, which decides and changes the table; after the unlock
  the close of the connection that loses or the start of the one that stays; and the hook.
\<close>

datatype verdict = Register | Refuse | DropNew | ReplaceOld nat

definition adopt_verdict :: "conn \<Rightarrow> pmanager \<Rightarrow> verdict" where
  "adopt_verdict c m =
     (case gm_get (pm_conns m) (pi_ID (cn_info c)) of
        None \<Rightarrow>
          if pm_maxPeers m > 0 \<and> int (gm_len (pm_conns m)) \<ge> pm_maxPeers m then Refuse else Register
      | Some e \<Rightarrow>
          let wantOutbound = (pm_localID m < pi_ID (cn_info c));
              newOutbound = (\<not> cn_inbound c);
              oldOutbound = (case conn_at m e of None \<Rightarrow> False | Some ec \<Rightarrow> \<not> cn_inbound ec) in
          if newOutbound = oldOutbound then DropNew
          else if newOutbound = wantOutbound then ReplaceOld e
          else DropNew)"

definition start :: "int \<Rightarrow> nat \<Rightarrow> pmanager \<Rightarrow> pmanager" where
  "start now h m = on_conn h (touch now) m"

definition adopt_locked :: "nat \<Rightarrow> conn \<Rightarrow> pmanager \<Rightarrow> verdict \<times> pmanager" where
  "adopt_locked h c m =
     (let v = adopt_verdict c m in
      (v, if v = Refuse \<or> v = DropNew then m
          else m\<lparr>pm_conns := gm_put (pi_ID (cn_info c)) h (pm_conns m)\<rparr>))"

fun adopt_finish :: "int \<Rightarrow> nat \<Rightarrow> verdict \<Rightarrow> pmanager \<Rightarrow> (peer_err + nat) \<times> pmanager" where
  "adopt_finish now h Refuse m = (Inl ErrTooMany, on_conn h Close_conn m)"
| "adopt_finish now h DropNew m = (Inl ErrDuplicate, on_conn h Close_conn m)"
| "adopt_finish now h Register m = (Inr h, start now h m)"
| "adopt_finish now h (ReplaceOld e) m = (Inr h, start now h (on_conn e Close_conn m))"

fun adopt_hook :: "verdict \<Rightarrow> info \<Rightarrow> pmanager \<Rightarrow> peer_event list" where
  "adopt_hook Register i m = (if pm_onUp m then [EvUp i] else [])"
| "adopt_hook (ReplaceOld e) i m = (if pm_onReplace m then [EvReplace i] else [])"
| "adopt_hook v i m = []"

definition adopt :: "int \<Rightarrow> nat \<Rightarrow> conn \<Rightarrow> pmanager \<Rightarrow> (peer_err + nat) \<times> peer_event list \<times> pmanager" where
  "adopt now h c m =
     (case adopt_locked h c m of
        (v, m1) \<Rightarrow>
          (case adopt_finish now h v m1 of (r, m2) \<Rightarrow> (r, adopt_hook v (cn_info c) m2, m2)))"

text \<open>\<^verbatim>\<open>unregister\<close>: the section under the lock, which tells whether an entry was deleted, and the hook.\<close>

definition unregister_locked :: "nat \<Rightarrow> pmanager \<Rightarrow> info option \<times> pmanager" where
  "unregister_locked h m =
     (case conn_at m h of
        None \<Rightarrow> (None, m)
      | Some c \<Rightarrow>
          let i = cn_info c in
          if gm_get (pm_conns m) (pi_ID i) = Some h
          then (Some i, m\<lparr>pm_conns := gm_del (pi_ID i) (pm_conns m)\<rparr>)
          else (None, m))"

definition unregister :: "nat \<Rightarrow> pmanager \<Rightarrow> peer_event list \<times> pmanager" where
  "unregister h m =
     (case unregister_locked h m of
        (None, m1) \<Rightarrow> ([], m1)
      | (Some i, m1) \<Rightarrow> (if pm_onDown m1 then [EvDown i] else [], m1))"

text \<open>\<^verbatim>\<open>shutdown\<close>: close, and notify the manager once.\<close>

definition shutdown :: "nat \<Rightarrow> pmanager \<Rightarrow> peer_event list \<times> pmanager" where
  "shutdown h m =
     (case conn_at m h of
        None \<Rightarrow> ([], m)
      | Some c \<Rightarrow>
          let m1 = on_conn h Close_conn m in
          if cn_notified c then ([], m1)
          else unregister h (on_conn h (\<lambda>c. c\<lparr>cn_notified := True\<rparr>) m1))"

definition broadcast_one :: "(nat \<Rightarrow> bool) \<Rightarrow> message \<Rightarrow> nat \<Rightarrow> conn \<Rightarrow> conn" where
  "broadcast_one pick msg h c =
     (case Send (pick h) msg c of
        (err, c1) \<Rightarrow> if err = Some ErrSendQueue then Close_conn c1 else c1)"

definition Broadcast_peers :: "string list \<Rightarrow> (nat \<Rightarrow> bool) \<Rightarrow> message \<Rightarrow> string \<Rightarrow> pmanager \<Rightarrow> pmanager" where
  "Broadcast_peers order pick msg exceptPeerID m =
     (let conns = List.map_filter (gm_get (pm_conns m)) (filter (\<lambda>p. p \<noteq> exceptPeerID) order) in
      fold (\<lambda>h. on_conn h (broadcast_one pick msg h)) conns m)"

definition prefix_match :: "string \<Rightarrow> string \<Rightarrow> bool" where
  "prefix_match idOrPrefix p \<longleftrightarrow>
     p = idOrPrefix \<or> (length idOrPrefix \<ge> 4 \<and> length p \<ge> length idOrPrefix
       \<and> take (length idOrPrefix) p = idOrPrefix)"

fun find_loop :: "string \<Rightarrow> (string, nat) gomap \<Rightarrow> string list \<Rightarrow> nat option \<Rightarrow> peer_err + nat" where
  "find_loop key conns [] found = (case found of None \<Rightarrow> Inl ErrUnknownPeer | Some h \<Rightarrow> Inr h)"
| "find_loop key conns (p # ps) found =
     (case gm_get conns p of
        None \<Rightarrow> find_loop key conns ps found
      | Some h \<Rightarrow>
          if prefix_match key p
          then (if found \<noteq> None then Inl ErrAmbiguousID else find_loop key conns ps (Some h))
          else find_loop key conns ps found)"

definition Find :: "string list \<Rightarrow> string \<Rightarrow> pmanager \<Rightarrow> peer_err + nat" where
  "Find order idOrPrefix m =
     (case gm_get (pm_conns m) idOrPrefix of
        Some h \<Rightarrow> Inr h
      | None \<Rightarrow> find_loop idOrPrefix (pm_conns m) order None)"

definition SendTo ::
  "string list \<Rightarrow> bool \<Rightarrow> string \<Rightarrow> message \<Rightarrow> pmanager \<Rightarrow> peer_err option \<times> pmanager" where
  "SendTo order pick peerID msg m =
     (case Find order peerID m of
        Inl e \<Rightarrow> (Some e, m)
      | Inr h \<Rightarrow>
          (case conn_at m h of
             None \<Rightarrow> (Some ErrUnknownPeer, m)
           | Some c \<Rightarrow> (case Send pick msg c of (err, c1) \<Rightarrow> (err, put_conn h c1 m))))"

definition Disconnect :: "string list \<Rightarrow> string \<Rightarrow> pmanager \<Rightarrow> peer_err option \<times> pmanager" where
  "Disconnect order idOrPrefix m =
     (case Find order idOrPrefix m of
        Inl e \<Rightarrow> (Some e, m)
      | Inr h \<Rightarrow> (None, on_conn h Close_conn m))"

definition List_peers :: "string list \<Rightarrow> pmanager \<Rightarrow> info list" where
  "List_peers order m =
     List.map_filter (\<lambda>p. case gm_get (pm_conns m) p of
         None \<Rightarrow> None | Some h \<Rightarrow> map_option cn_info (conn_at m h)) order"

definition Len_peers :: "pmanager \<Rightarrow> nat" where
  "Len_peers m = gm_len (pm_conns m)"

definition CloseAll :: "pmanager \<Rightarrow> pmanager" where
  "CloseAll m = fold (\<lambda>h. on_conn h Close_conn) (map snd (pm_conns m)) m"

definition UpdateNick_peer :: "string \<Rightarrow> string \<Rightarrow> pmanager \<Rightarrow> pmanager" where
  "UpdateNick_peer peerID nick m =
     (case gm_get (pm_conns m) peerID of
        None \<Rightarrow> m
      | Some h \<Rightarrow> on_conn h (\<lambda>c. c\<lparr>cn_info := (cn_info c)\<lparr>pi_Nickname := nick\<rparr>\<rparr>) m)"

section \<open>Histories of a manager\<close>

text \<open>
  The steps that change a manager: a new connection is adopted at a fresh handle, a connection
  reads, writes, ticks or answers a ping, and the operations of the node.
\<close>

datatype peer_op =
    PAdopt int nat conn
  | PRead nat int read_result
  | PTick nat int string
  | PWrite nat bool
  | PPong nat int int
  | PShutdown nat
  | PBroadcast "string list" "nat \<Rightarrow> bool" message string
  | PSendTo "string list" bool string message
  | PDisconnect "string list" string
  | PUpdateNick string string
  | PCloseAll

fun peer_step :: "(string \<Rightarrow> string) \<Rightarrow> peer_op \<Rightarrow> pmanager \<Rightarrow> peer_event list \<times> pmanager" where
  "peer_step sha (PAdopt now h c) m = snd (adopt now h c (put_conn h c m))"
| "peer_step sha (PRead h now r) m =
     (case conn_at m h of
        None \<Rightarrow> ([], m)
      | Some c \<Rightarrow>
          (case read_step now r c of
             (go, msg, c1) \<Rightarrow> if go then ([], put_conn h c1 m) else shutdown h (put_conn h c1 m)))"
| "peer_step sha (PTick h now nonce) m = ([], on_conn h (\<lambda>c. snd (write_tick sha nonce now c)) m)"
| "peer_step sha (PWrite h ok) m = ([], on_conn h (\<lambda>c. snd (write_next ok c)) m)"
| "peer_step sha (PPong h d now) m = ([], on_conn h (\<lambda>c. snd (AllowPong d now c)) m)"
| "peer_step sha (PShutdown h) m = shutdown h m"
| "peer_step sha (PBroadcast order pick msg ex) m = ([], Broadcast_peers order pick msg ex m)"
| "peer_step sha (PSendTo order pick p msg) m = ([], snd (SendTo order pick p msg m))"
| "peer_step sha (PDisconnect order p) m = ([], snd (Disconnect order p m))"
| "peer_step sha (PUpdateNick p nick) m = ([], UpdateNick_peer p nick m)"
| "peer_step sha PCloseAll m = ([], CloseAll m)"

fun peer_op_ok :: "peer_op \<Rightarrow> pmanager \<Rightarrow> bool" where
  "peer_op_ok (PAdopt now h c) m \<longleftrightarrow> conn_at m h = None \<and> \<not> cn_notified c"
| "peer_op_ok op m \<longleftrightarrow> True"

definition peer_inv :: "pmanager \<Rightarrow> bool" where
  "peer_inv m \<longleftrightarrow>
     gm_wf (pm_conns m) \<and> gm_wf (pm_store m)
     \<and> (pm_maxPeers m > 0 \<longrightarrow> int (gm_len (pm_conns m)) \<le> pm_maxPeers m)
     \<and> (\<forall>p h. gm_get (pm_conns m) p = Some h \<longrightarrow>
          (\<exists>c. conn_at m h = Some c \<and> pi_ID (cn_info c) = p \<and> \<not> cn_notified c))"

text \<open>
  The life of a peer as its hooks show it: it comes up while it is down, goes down and is
  replaced while it is up. \<open>None\<close> is a violation.
\<close>

fun life :: "string \<Rightarrow> bool \<Rightarrow> peer_event list \<Rightarrow> bool option" where
  "life p up [] = Some up"
| "life p up (EvUp i # es) =
     (if pi_ID i \<noteq> p then life p up es else if up then None else life p True es)"
| "life p up (EvDown i # es) =
     (if pi_ID i \<noteq> p then life p up es else if up then life p False es else None)"
| "life p up (EvReplace i # es) =
     (if pi_ID i \<noteq> p then life p up es else if up then life p True es else None)"

definition hooked :: "pmanager \<Rightarrow> bool" where
  "hooked m \<longleftrightarrow> pm_onUp m \<and> pm_onDown m \<and> pm_onReplace m"

text \<open>
  The same operations with their goroutines interleaved. A goroutine that has released the lock
  with work left is a task: the part of \<^verbatim>\<open>adopt\<close> after the unlock, or a hook about to be
  called. \<open>Begin\<close> runs an operation up to its unlock and leaves its tasks pending, \<open>Resume\<close> runs any
  one pending task, so every order of table changes, starts and hook calls is a run. \<open>None\<close> is a run
  that no execution has: a handle adopted twice, a task that does not exist.
\<close>

datatype task = Finish int nat verdict info | Call peer_event

record sched =
  sd_mgr :: pmanager
  sd_tasks :: "task list"
  sd_called :: "peer_event list"

datatype sched_op = Begin peer_op | Resume nat

fun begin_op :: "(string \<Rightarrow> string) \<Rightarrow> peer_op \<Rightarrow> pmanager \<Rightarrow> task list \<times> pmanager" where
  "begin_op sha (PAdopt now h c) m =
     (case adopt_locked h c (put_conn h c m) of (v, m1) \<Rightarrow> ([Finish now h v (cn_info c)], m1))"
| "begin_op sha op m = (case peer_step sha op m of (es, m1) \<Rightarrow> (map Call es, m1))"

fun resume_task :: "task \<Rightarrow> pmanager \<Rightarrow> task list \<times> peer_event list \<times> pmanager" where
  "resume_task (Finish now h v i) m =
     (case adopt_finish now h v m of (r, m1) \<Rightarrow> (map Call (adopt_hook v i m1), [], m1))"
| "resume_task (Call e) m = ([], [e], m)"

fun sched_step :: "(string \<Rightarrow> string) \<Rightarrow> sched_op \<Rightarrow> sched \<Rightarrow> sched option" where
  "sched_step sha (Begin op) s =
     (if \<not> peer_op_ok op (sd_mgr s) then None
      else (case begin_op sha op (sd_mgr s) of
              (ts, m) \<Rightarrow> Some (s\<lparr>sd_mgr := m, sd_tasks := sd_tasks s @ ts\<rparr>)))"
| "sched_step sha (Resume k) s =
     (if k \<ge> length (sd_tasks s) then None
      else (case resume_task (sd_tasks s ! k) (sd_mgr s) of
              (ts, es, m) \<Rightarrow>
                Some \<lparr>sd_mgr = m, sd_tasks = take k (sd_tasks s) @ ts @ drop (Suc k) (sd_tasks s),
                      sd_called = sd_called s @ es\<rparr>))"

fun sched_run :: "(string \<Rightarrow> string) \<Rightarrow> sched_op list \<Rightarrow> sched \<Rightarrow> sched option" where
  "sched_run sha [] s = Some s"
| "sched_run sha (op # ops) s = (case sched_step sha op s of None \<Rightarrow> None | Some s1 \<Rightarrow> sched_run sha ops s1)"

definition new_sched :: "pmanager \<Rightarrow> sched" where
  "new_sched m = \<lparr>sd_mgr = m, sd_tasks = [], sd_called = []\<rparr>"

text \<open>The hook call a task will still make.\<close>

fun due :: "task \<Rightarrow> peer_event list" where
  "due (Call e) = [e]"
| "due (Finish now h Register i) = [EvUp i]"
| "due (Finish now h (ReplaceOld e) i) = [EvReplace i]"
| "due (Finish now h v i) = []"

text \<open>
  The reports of a schedule, made and still due, are those of some alternating history that ends
  with the present table.
\<close>

definition reports_ok :: "sched \<Rightarrow> bool" where
  "reports_ok s \<longleftrightarrow>
     (\<exists>ds. mset ds = mset (sd_called s) + mset (concat (map due (sd_tasks s)))
        \<and> (\<forall>p. life p False ds = Some (Connected (sd_mgr s) p)))"

definition sched_inv :: "sched \<Rightarrow> bool" where
  "sched_inv s \<longleftrightarrow> peer_inv (sd_mgr s) \<and> hooked (sd_mgr s) \<and> reports_ok s"

definition ups :: "string \<Rightarrow> peer_event list \<Rightarrow> nat" where
  "ups p es = length (filter (\<lambda>e. case e of EvUp i \<Rightarrow> pi_ID i = p | _ \<Rightarrow> False) es)"

definition downs :: "string \<Rightarrow> peer_event list \<Rightarrow> nat" where
  "downs p es = length (filter (\<lambda>e. case e of EvDown i \<Rightarrow> pi_ID i = p | _ \<Rightarrow> False) es)"

text \<open>Two connections with the same peer, adopted one after the other.\<close>

definition adopt_two ::
  "int \<Rightarrow> nat \<Rightarrow> conn \<Rightarrow> nat \<Rightarrow> conn \<Rightarrow> pmanager \<Rightarrow> peer_event list \<times> pmanager" where
  "adopt_two now h1 c1 h2 c2 m =
     (case adopt now h1 c1 (put_conn h1 c1 m) of
        (_, e1, m1) \<Rightarrow>
          (case adopt now h2 c2 (put_conn h2 c2 m1) of (_, e2, m2) \<Rightarrow> (e1 @ e2, m2)))"

text \<open>A change of a connection that keeps its peer id and its notification state.\<close>

definition benign :: "(conn \<Rightarrow> conn) \<Rightarrow> bool" where
  "benign f \<longleftrightarrow> (\<forall>c. pi_ID (cn_info (f c)) = pi_ID (cn_info c) \<and> cn_notified (f c) = cn_notified c)"

text \<open>A connection for examples.\<close>

definition sample_conn :: "string \<Rightarrow> bool \<Rightarrow> conn" where
  "sample_conn p inbound =
     \<lparr>cn_info = no_info\<lparr>pi_ID := p\<rparr>, cn_inbound = inbound, cn_sendCh = [], cn_done = False, cn_lastRecv = 0,
      cn_pingEvery = 1, cn_idleAfter = 1, cn_malformed = 0, cn_lastPong = 0, cn_notified = False\<rparr>"

lemma sample_conn_simps [simp]:
  "pi_ID (cn_info (sample_conn p inbound)) = p" "cn_inbound (sample_conn p inbound) = inbound"
  "cn_notified (sample_conn p inbound) = False" "cn_malformed (sample_conn p inbound) = 0"
  by (simp_all add: sample_conn_def)

section \<open>The store\<close>

lemma conn_at_put: "conn_at (put_conn h c m) h' = (if h' = h then Some c else conn_at m h')"
  by (simp add: conn_at_def put_conn_def gm_laws)

lemma put_conn_fields [simp]:
  "pm_conns (put_conn h c m) = pm_conns m" "pm_localID (put_conn h c m) = pm_localID m"
  "pm_maxPeers (put_conn h c m) = pm_maxPeers m" "pm_onUp (put_conn h c m) = pm_onUp m"
  "pm_onDown (put_conn h c m) = pm_onDown m" "pm_onReplace (put_conn h c m) = pm_onReplace m"
  by (simp_all add: put_conn_def)

lemma conn_at_on: "conn_at (on_conn h f m) h' = (if h' = h then map_option f (conn_at m h) else conn_at m h')"
  by (auto simp: on_conn_def conn_at_put split: option.split)

lemma on_conn_fields [simp]:
  "pm_conns (on_conn h f m) = pm_conns m" "pm_localID (on_conn h f m) = pm_localID m"
  "pm_maxPeers (on_conn h f m) = pm_maxPeers m" "pm_onUp (on_conn h f m) = pm_onUp m"
  "pm_onDown (on_conn h f m) = pm_onDown m" "pm_onReplace (on_conn h f m) = pm_onReplace m"
  by (auto simp: on_conn_def split: option.split)

lemma conn_at_conns [simp]: "conn_at (m\<lparr>pm_conns := x\<rparr>) h = conn_at m h"
  by (simp add: conn_at_def)

lemma store_wf_put [simp]: "gm_wf (pm_store m) \<Longrightarrow> gm_wf (pm_store (put_conn h c m))"
  by (simp add: put_conn_def gm_laws)

lemma store_wf_on [simp]: "gm_wf (pm_store m) \<Longrightarrow> gm_wf (pm_store (on_conn h f m))"
  by (simp add: on_conn_def split: option.split)

lemma benign_ops:
  "benign Close_conn" "benign (touch now)" "benign (broadcast_one pick msg h)"
  "benign (\<lambda>c. snd (Send pick' msg c))"
  "benign (\<lambda>c. snd (write_tick sha nonce now c))" "benign (\<lambda>c. snd (write_next ok c))"
  "benign (\<lambda>c. snd (AllowPong d now c))"
  "benign (\<lambda>c. c\<lparr>cn_info := (cn_info c)\<lparr>pi_Nickname := nick\<rparr>\<rparr>)"
  by (simp_all add: benign_def Close_conn_def touch_def broadcast_one_def Send_def write_tick_def write_next_def
      AllowPong_def Let_def split: list.split)

lemma benign_read_step: "benign (\<lambda>c. snd (snd (read_step now r c)))"
  by (cases r) (auto simp: benign_def touch_def Let_def)

lemma peer_inv_on [inv_intros]: "benign f \<Longrightarrow> peer_inv m \<Longrightarrow> peer_inv (on_conn h f m)"
  unfolding peer_inv_def benign_def by (fastforce simp: conn_at_on)

lemma on_conn_put: "conn_at m h = Some c \<Longrightarrow> put_conn h (f c) m = on_conn h f m"
  by (simp add: on_conn_def)

lemma fold_on_conn:
  assumes "\<And>h. benign (F h)" "peer_inv m"
  shows "peer_inv (fold (\<lambda>h. on_conn h (F h)) hs m) \<and> pm_conns (fold (\<lambda>h. on_conn h (F h)) hs m) = pm_conns m
    \<and> hooked (fold (\<lambda>h. on_conn h (F h)) hs m) = hooked m
    \<and> pm_maxPeers (fold (\<lambda>h. on_conn h (F h)) hs m) = pm_maxPeers m"
  using assms(2)
proof (induction hs arbitrary: m)
  case (Cons h hs)
  have "peer_inv (on_conn h (F h) m)" "hooked (on_conn h (F h) m) = hooked m"
    using Cons.prems assms(1) by (simp_all add: peer_inv_on hooked_def)
  then show ?case using Cons.IH [of "on_conn h (F h) m"] by simp
qed simp

section \<open>Adoption and removal\<close>

lemma adopt_eq:
  "adopt now h c m =
     (let i = cn_info c; m1 = m\<lparr>pm_conns := gm_put (pi_ID i) h (pm_conns m)\<rparr> in
      case adopt_verdict c m of
        Refuse \<Rightarrow> (Inl ErrTooMany, [], on_conn h Close_conn m)
      | DropNew \<Rightarrow> (Inl ErrDuplicate, [], on_conn h Close_conn m)
      | Register \<Rightarrow> (Inr h, if pm_onUp m then [EvUp i] else [], start now h m1)
      | ReplaceOld e \<Rightarrow>
          (Inr h, if pm_onReplace m then [EvReplace i] else [], start now h (on_conn e Close_conn m1)))"
  by (simp add: adopt_def adopt_locked_def Let_def start_def split: verdict.split)

lemma unregister_eq:
  "unregister h m =
     (case conn_at m h of
        None \<Rightarrow> ([], m)
      | Some c \<Rightarrow>
          if gm_get (pm_conns m) (pi_ID (cn_info c)) = Some h
          then (if pm_onDown m then [EvDown (cn_info c)] else [],
                m\<lparr>pm_conns := gm_del (pi_ID (cn_info c)) (pm_conns m)\<rparr>)
          else ([], m))"
  by (simp add: unregister_def unregister_locked_def Let_def split: option.split)

lemma inv_connD:
  assumes "peer_inv m" "gm_get (pm_conns m) p = Some h"
  obtains c where "conn_at m h = Some c" "pi_ID (cn_info c) = p" "\<not> cn_notified c"
  using assms unfolding peer_inv_def by blast

lemma peer_inv_put_fresh:
  assumes "peer_inv m" "conn_at m h = None"
  shows "peer_inv (put_conn h c m)"
  using assms unfolding peer_inv_def by (fastforce simp: conn_at_put)

lemma peer_inv_enter:
  assumes "peer_inv m" "conn_at m h = Some c" "\<not> cn_notified c" "pi_ID (cn_info c) = p"
    and "gm_has (pm_conns m) p \<or> pm_maxPeers m \<le> 0 \<or> int (gm_len (pm_conns m)) < pm_maxPeers m"
  shows "peer_inv (m\<lparr>pm_conns := gm_put p h (pm_conns m)\<rparr>)"
  using assms unfolding peer_inv_def by (auto simp: gm_laws gm.len_put gm_has_def)

lemma adopt_locked_step:
  assumes "peer_inv m" "conn_at m h = Some c" "\<not> cn_notified c" "hooked m"
    and "adopt_locked h c m = (v, m')"
  shows "peer_inv m' \<and> hooked m' \<and> pm_maxPeers m' = pm_maxPeers m
    \<and> (\<forall>p. life p (Connected m p) (due (Finish now h v (cn_info c))) = Some (Connected m' p))"
proof -
  let ?p = "pi_ID (cn_info c)" and ?m1 = "m\<lparr>pm_conns := gm_put (pi_ID (cn_info c)) h (pm_conns m)\<rparr>"
  have v: "v = adopt_verdict c m" "m' = (if v = Refuse \<or> v = DropNew then m else ?m1)"
    using assms(5) by (auto simp: adopt_locked_def Let_def)
  show ?thesis
  proof (cases v)
    case Register
    then have new: "gm_get (pm_conns m) ?p = None" "pm_maxPeers m \<le> 0 \<or> int (gm_len (pm_conns m)) < pm_maxPeers m"
      using v(1) by (auto simp: adopt_verdict_def Let_def split: option.splits if_splits)
    have "peer_inv ?m1" using assms new by (intro peer_inv_enter) auto
    then show ?thesis
      using assms(4) v(2) Register new by (auto simp: hooked_def Connected_def gm_has_def gm_laws)
  next
    case (ReplaceOld e)
    then have old: "gm_get (pm_conns m) ?p = Some e"
      using v(1) by (auto simp: adopt_verdict_def Let_def split: option.splits if_splits)
    have "peer_inv ?m1" using assms old by (intro peer_inv_enter) (auto simp: gm_has_def)
    then show ?thesis
      using assms(4) v(2) ReplaceOld old by (auto simp: hooked_def Connected_def gm_has_def gm_laws)
  qed (use assms v in \<open>simp_all\<close>)
qed

lemma adopt_finish_step:
  assumes "peer_inv m" "adopt_finish now h v m = (r, m')"
  shows "peer_inv m' \<and> hooked m' = hooked m \<and> pm_maxPeers m' = pm_maxPeers m
    \<and> (\<forall>p. Connected m' p = Connected m p) \<and> (hooked m \<longrightarrow> adopt_hook v i m' = due (Finish now h v i))"
  using assms by (cases v) (auto simp: start_def hooked_def Connected_def intro!: peer_inv_on benign_ops)

lemma adopt_step:
  assumes "peer_inv m" "conn_at m h = Some c" "\<not> cn_notified c" "hooked m"
    and "adopt now h c m = (r, es, m')"
  shows "peer_inv m' \<and> hooked m' \<and> pm_maxPeers m' = pm_maxPeers m
    \<and> (\<forall>p. life p (Connected m p) es = Some (Connected m' p))"
proof -
  obtain v m1 where l: "adopt_locked h c m = (v, m1)" by (cases "adopt_locked h c m")
  then have f: "adopt_finish now h v m1 = (r, m')" "es = adopt_hook v (cn_info c) m'"
    using assms(5) by (auto simp: adopt_def split: prod.splits)
  show ?thesis
    using adopt_locked_step [OF assms(1-4) l, of now] adopt_finish_step [OF _ f(1)] f(2) by auto
qed

lemma unregister_step:
  assumes "gm_wf (pm_conns m)" "gm_wf (pm_store m)"
    and lim: "pm_maxPeers m > 0 \<longrightarrow> int (gm_len (pm_conns m)) \<le> pm_maxPeers m"
    and others: "\<And>p h'. gm_get (pm_conns m) p = Some h' \<Longrightarrow>
      \<exists>c. conn_at m h' = Some c \<and> pi_ID (cn_info c) = p \<and> (h' \<noteq> h \<longrightarrow> \<not> cn_notified c)"
    and "hooked m" "unregister h m = (es, m')"
  shows "peer_inv m' \<and> hooked m' \<and> pm_maxPeers m' = pm_maxPeers m
    \<and> (\<forall>p. life p (Connected m p) es = Some (Connected m' p))"
proof (cases "\<exists>p. gm_get (pm_conns m) p = Some h")
  case True
  then obtain p c where p: "gm_get (pm_conns m) p = Some h" "conn_at m h = Some c" "pi_ID (cn_info c) = p"
    using others by blast
  have uniq: "gm_get (pm_conns m) q = Some h \<Longrightarrow> q = p" for q
    using others [of q h] p by auto
  have m': "m' = m\<lparr>pm_conns := gm_del p (pm_conns m)\<rparr>" "es = [EvDown (cn_info c)]"
    using assms(5,6) p by (auto simp: unregister_eq Let_def hooked_def)
  have "gm_len (gm_del p (pm_conns m)) \<le> gm_len (pm_conns m)"
    using gm.len_del_less [OF assms(1) p(1)] by simp
  moreover have "\<exists>c. conn_at m h' = Some c \<and> pi_ID (cn_info c) = q \<and> \<not> cn_notified c"
    if "q \<noteq> p" "gm_get (pm_conns m) q = Some h'" for q h'
    using others [OF that(2)] uniq that by (cases "h' = h") auto
  ultimately show ?thesis
    unfolding m' peer_inv_def using assms(1-3,5) p
    by (auto simp: gm_laws hooked_def Connected_def gm_has_def)
next
  case False
  then have "m' = m" "es = []"
    using assms(6) by (auto simp: unregister_eq Let_def split: option.splits if_splits)
  moreover have "peer_inv m"
    unfolding peer_inv_def using assms(1-3) others False by metis
  ultimately show ?thesis using assms(5) by (simp add: Connected_def)
qed

lemma shutdown_step:
  assumes "peer_inv m" "hooked m" "shutdown h m = (es, m')"
  shows "peer_inv m' \<and> hooked m' \<and> pm_maxPeers m' = pm_maxPeers m
    \<and> (\<forall>p. life p (Connected m p) es = Some (Connected m' p))"
proof (cases "conn_at m h")
  case None
  then show ?thesis using assms by (simp add: shutdown_def)
next
  case (Some c)
  let ?m1 = "on_conn h Close_conn m"
  have m1: "peer_inv ?m1" "hooked ?m1" using assms(1,2) by (simp_all add: peer_inv_on benign_ops hooked_def)
  show ?thesis
  proof (cases "cn_notified c")
    case True
    then show ?thesis using assms(3) Some m1 by (auto simp: shutdown_def Connected_def)
  next
    case False
    let ?m2 = "on_conn h (\<lambda>c. c\<lparr>cn_notified := True\<rparr>) ?m1"
    have "unregister h ?m2 = (es, m')" using assms(3) Some False by (simp add: shutdown_def Let_def)
    moreover have "\<exists>c. conn_at ?m2 h' = Some c \<and> pi_ID (cn_info c) = p \<and> (h' \<noteq> h \<longrightarrow> \<not> cn_notified c)"
      if reg: "gm_get (pm_conns ?m2) p = Some h'" for p h'
    proof -
      obtain d where "conn_at m h' = Some d" "pi_ID (cn_info d) = p" "\<not> cn_notified d"
        using inv_connD [OF assms(1), of p h'] reg unfolding on_conn_fields by blast
      then show ?thesis by (auto simp: conn_at_on Close_conn_def)
    qed
    moreover have "gm_wf (pm_conns ?m2)" "gm_wf (pm_store ?m2)" "hooked ?m2"
      "pm_maxPeers ?m2 > 0 \<longrightarrow> int (gm_len (pm_conns ?m2)) \<le> pm_maxPeers ?m2"
      using assms(1,2) by (simp_all add: peer_inv_def hooked_def)
    ultimately have "peer_inv m' \<and> hooked m' \<and> pm_maxPeers m' = pm_maxPeers ?m2
      \<and> (\<forall>p. life p (Connected ?m2 p) es = Some (Connected m' p))"
      by (intro unregister_step)
    then show ?thesis by (simp add: Connected_def)
  qed
qed

lemma peer_step_inv:
  assumes "peer_inv m" "hooked m" "peer_op_ok op m" "peer_step sha op m = (es, m')"
  shows "peer_inv m' \<and> hooked m' \<and> pm_maxPeers m' = pm_maxPeers m
    \<and> (\<forall>p. life p (Connected m p) es = Some (Connected m' p))"
proof -
  have benign: "peer_inv (on_conn h f m) \<and> hooked (on_conn h f m) \<and> pm_maxPeers (on_conn h f m) = pm_maxPeers m
      \<and> (\<forall>p. Connected (on_conn h f m) p = Connected m p)" if "benign f" for h f
    using assms(1,2) that by (simp add: peer_inv_on hooked_def Connected_def)
  show ?thesis
  proof (cases op)
    case (PAdopt now h c)
    obtain r where "adopt now h c (put_conn h c m) = (r, es, m')"
      using assms(4) PAdopt by (cases "adopt now h c (put_conn h c m)") auto
    then show ?thesis
      using adopt_step [of "put_conn h c m" h c now r es m'] assms PAdopt
      by (simp add: peer_inv_put_fresh conn_at_put hooked_def Connected_def)
  next
    case (PRead h now r)
    show ?thesis
    proof (cases "conn_at m h")
      case None
      then show ?thesis using assms PRead by simp
    next
      case (Some c)
      let ?m1 = "on_conn h (\<lambda>c. snd (snd (read_step now r c))) m"
      have m1: "put_conn h (snd (snd (read_step now r c))) m = ?m1"
        using on_conn_put [OF Some, of "\<lambda>c. snd (snd (read_step now r c))"] by simp
      note b = benign [OF benign_read_step [of now r], of h]
      show ?thesis
      proof (cases "fst (read_step now r c)")
        case True
        then have "es = []" "m' = ?m1" using assms(4) PRead Some m1 by (simp_all add: case_prod_unfold)
        then show ?thesis using b by simp
      next
        case False
        then have "shutdown h ?m1 = (es, m')" using assms(4) PRead Some m1 by (simp add: case_prod_unfold)
        then show ?thesis using shutdown_step [of ?m1 h es m'] b by simp
      qed
    qed
  next
    case (PShutdown h)
    then have "shutdown h m = (es, m')" using assms(4) by simp
    then show ?thesis by (rule shutdown_step [OF assms(1,2)])
  next
    case (PBroadcast order pick msg ex)
    define hs where "hs = List.map_filter (gm_get (pm_conns m)) (filter (\<lambda>p. p \<noteq> ex) order)"
    have "m' = fold (\<lambda>h. on_conn h (broadcast_one pick msg h)) hs m" "es = []"
      using assms(4) PBroadcast by (simp_all add: Broadcast_peers_def hs_def)
    then show ?thesis
      using fold_on_conn [of "broadcast_one pick msg" m hs, OF benign_ops(3) assms(1)] assms(2) by (simp add: Connected_def)
  next
    case PCloseAll
    then have "m' = fold (\<lambda>h. on_conn h Close_conn) (map snd (pm_conns m)) m" "es = []"
      using assms(4) by (simp_all add: CloseAll_def)
    then show ?thesis
      using fold_on_conn [of "\<lambda>h. Close_conn" m "map snd (pm_conns m)", OF benign_ops(1) assms(1)] assms(2) by (simp add: Connected_def)
  next
    case (PSendTo order pick p msg)
    show ?thesis
    proof (cases "\<exists>h c. Find order p m = Inr h \<and> conn_at m h = Some c")
      case True
      then obtain h c where h: "Find order p m = Inr h" "conn_at m h = Some c" by blast
      have "m' = put_conn h (snd (Send pick msg c)) m" "es = []"
        using assms(4) h unfolding PSendTo by (auto simp: SendTo_def case_prod_unfold)
      then have "m' = on_conn h (\<lambda>c. snd (Send pick msg c)) m" "es = []"
        using on_conn_put [OF h(2), of "\<lambda>c. snd (Send pick msg c)"] by simp_all
      then show ?thesis using benign [OF benign_ops(4)] by simp
    next
      case False
      then have "m' = m" "es = []"
        using assms(4) unfolding PSendTo by (auto simp: SendTo_def split: sum.splits option.splits)
      then show ?thesis using assms by simp
    qed
  qed (use assms benign benign_ops in \<open>auto simp: Disconnect_def UpdateNick_peer_def split: sum.splits option.splits\<close>)
qed

lemma life_append: "life p up (es @ es') = Option.bind (life p up es) (\<lambda>b. life p b es')"
  by (induction p up es rule: life.induct) auto

section \<open>Interleaved goroutines\<close>

lemma due_Call [simp]: "concat (map due (map Call es)) = es" "concat (map (due \<circ> Call) es) = es"
  by (induction es) simp_all

lemma begin_op_inv:
  assumes "peer_inv m" "hooked m" "peer_op_ok op m" "begin_op sha op m = (ts, m')"
  shows "peer_inv m' \<and> hooked m' \<and> pm_maxPeers m' = pm_maxPeers m
    \<and> (\<forall>p. life p (Connected m p) (concat (map due ts)) = Some (Connected m' p))"
proof (cases "\<exists>now h c. op = PAdopt now h c")
  case True
  then obtain now h c where op: "op = PAdopt now h c" by blast
  obtain v where v: "adopt_locked h c (put_conn h c m) = (v, m')" "ts = [Finish now h v (cn_info c)]"
    using assms(4) op by (auto split: prod.splits)
  show ?thesis
    using adopt_locked_step [OF _ _ _ _ v(1), of now] assms op v(2)
    by (simp add: peer_inv_put_fresh conn_at_put hooked_def Connected_def)
next
  case False
  then obtain es where es: "peer_step sha op m = (es, m')" "ts = map Call es"
    using assms(4) by (cases op) (auto split: prod.splits)
  show ?thesis unfolding es(2) due_Call(1) by (rule peer_step_inv [OF assms(1-3) es(1)])
qed

lemma resume_task_inv:
  assumes "peer_inv m" "hooked m" "resume_task t m = (ts, es, m')"
  shows "peer_inv m' \<and> hooked m' \<and> pm_maxPeers m' = pm_maxPeers m \<and> (\<forall>p. Connected m' p = Connected m p)
    \<and> due t = concat (map due ts) @ es"
proof (cases t)
  case (Finish now h v i)
  obtain r where r: "adopt_finish now h v m = (r, m')" "ts = map Call (adopt_hook v i m')" "es = []"
    using assms(3) Finish by (auto split: prod.splits)
  show ?thesis
    using adopt_finish_step [OF assms(1) r(1), of i] assms(2) r(2,3) Finish by simp
qed (use assms in auto)

lemma sched_step_inv:
  assumes "sched_inv s" "sched_step sha op s = Some s'"
  shows "sched_inv s' \<and> pm_maxPeers (sd_mgr s') = pm_maxPeers (sd_mgr s)"
proof -
  obtain ds where ds: "mset ds = mset (sd_called s) + mset (concat (map due (sd_tasks s)))"
    "\<And>p. life p False ds = Some (Connected (sd_mgr s) p)" and inv: "peer_inv (sd_mgr s)" "hooked (sd_mgr s)"
    using assms(1) unfolding sched_inv_def reports_ok_def by blast
  show ?thesis
  proof (cases op)
    case (Begin b)
    then obtain ts m where b: "begin_op sha b (sd_mgr s) = (ts, m)" "peer_op_ok b (sd_mgr s)"
      "s' = s\<lparr>sd_mgr := m, sd_tasks := sd_tasks s @ ts\<rparr>"
      using assms(2) by (auto split: if_splits prod.splits)
    note st = begin_op_inv [OF inv b(2,1)]
    have "reports_ok s'"
      unfolding reports_ok_def b(3) using ds st
      by (intro exI [of _ "ds @ concat (map due ts)"]) (simp add: life_append)
    then show ?thesis using st b(3) by (simp add: sched_inv_def)
  next
    case (Resume k)
    then obtain ts es m where k: "resume_task (sd_tasks s ! k) (sd_mgr s) = (ts, es, m)" "k < length (sd_tasks s)"
      "s' = \<lparr>sd_mgr = m, sd_tasks = take k (sd_tasks s) @ ts @ drop (Suc k) (sd_tasks s), sd_called = sd_called s @ es\<rparr>"
      using assms(2) by (auto split: if_splits prod.splits)
    note st = resume_task_inv [OF inv k(1)]
    have "concat (map due (sd_tasks s)) = concat (map due (take k (sd_tasks s))) @ due (sd_tasks s ! k)
        @ concat (map due (drop (Suc k) (sd_tasks s)))"
      using arg_cong [OF id_take_nth_drop [OF k(2)], of "\<lambda>l. concat (map due l)"] by simp
    then have "reports_ok s'"
      unfolding reports_ok_def k(3) using ds st by (intro exI [of _ ds]) (simp add: ac_simps)
    then show ?thesis using st k(3) by (simp add: sched_inv_def)
  qed
qed

lemma sched_run_inv:
  "sched_inv s \<Longrightarrow> sched_run sha ops s = Some s' \<Longrightarrow>
   sched_inv s' \<and> pm_maxPeers (sd_mgr s') = pm_maxPeers (sd_mgr s)"
proof (induction ops arbitrary: s)
  case (Cons op ops)
  obtain s1 where s1: "sched_step sha op s = Some s1" "sched_run sha ops s1 = Some s'"
    using Cons.prems(2) by (auto split: option.splits)
  show ?case
    using sched_step_inv [OF Cons.prems(1) s1(1)] Cons.IH [OF _ s1(2)] by simp
qed simp

lemma life_count:
  "life p up es = Some up' \<Longrightarrow> of_bool up + ups p es = of_bool up' + downs p es"
  by (induction p up es rule: life.induct) (auto simp: ups_def downs_def split: if_splits)

lemma ups_mset: "mset es = mset es' \<Longrightarrow> ups p es = ups p es'"
  and downs_mset: "mset es = mset es' \<Longrightarrow> downs p es = downs p es'"
  unfolding ups_def downs_def by (metis mset_filter size_mset)+

lemma ups_append [simp]: "ups p (es @ es') = ups p es + ups p es'"
  and downs_append [simp]: "downs p (es @ es') = downs p es + downs p es'"
  by (simp_all add: ups_def downs_def)

lemma reports_balance:
  assumes "reports_ok s"
  shows "ups p (sd_called s) + ups p (concat (map due (sd_tasks s)))
    = downs p (sd_called s) + downs p (concat (map due (sd_tasks s))) + of_bool (Connected (sd_mgr s) p)"
proof -
  obtain ds where ds: "mset ds = mset (sd_called s @ concat (map due (sd_tasks s)))"
    "life p False ds = Some (Connected (sd_mgr s) p)"
    using assms unfolding reports_ok_def by auto
  show ?thesis
    using life_count [OF ds(2)] ups_mset [OF ds(1), of p] downs_mset [OF ds(1), of p] by simp
qed

lemma early_down:
  assumes "hooked m" "conn_at m h = None" "\<not> cn_notified c"
    and "gm_get (pm_conns m) (pi_ID (cn_info c)) = None"
    and "pm_maxPeers m \<le> 0 \<or> int (gm_len (pm_conns m)) < pm_maxPeers m"
  shows "\<exists>s. sched_run sha [Begin (PAdopt now h c), Resume 0, Begin (PRead h t ReadFailed), Resume 1, Resume 0]
      (new_sched m) = Some s
    \<and> sd_called s = [EvDown (cn_info c), EvUp (cn_info c)] \<and> sd_tasks s = []
    \<and> gm_get (pm_conns (sd_mgr s)) (pi_ID (cn_info c)) = None"
proof -
  have v: "adopt_verdict c (put_conn h c m) = Register"
    using assms(4,5) by (auto simp: adopt_verdict_def)
  show ?thesis
    using assms(1-3) v
    by (simp add: new_sched_def adopt_locked_def Let_def start_def hooked_def conn_at_on conn_at_put touch_def
        shutdown_def unregister_eq Close_conn_def gm_laws)
qed

section \<open>Duplicate connections\<close>

lemma adopt_register:
  assumes "gm_get (pm_conns m) (pi_ID (cn_info c)) = None"
    and "pm_maxPeers m \<le> 0 \<or> int (gm_len (pm_conns m)) < pm_maxPeers m"
  shows "adopt now h c m = (Inr h, if pm_onUp m then [EvUp (cn_info c)] else [],
    start now h (m\<lparr>pm_conns := gm_put (pi_ID (cn_info c)) h (pm_conns m)\<rparr>))"
  using assms by (auto simp: adopt_eq adopt_verdict_def Let_def)

text \<open>
  The second of two connections with one peer in opposite directions: the outbound one is kept
  at the end with the smaller id, the inbound one at the other.
\<close>

lemma adopt_second:
  assumes reg: "gm_get (pm_conns m) p = Some e" "conn_at m e = Some ec" "cn_inbound ec = (\<not> cn_inbound c)"
    and c: "pi_ID (cn_info c) = p"
  shows "adopt now h c m =
    (if cn_inbound c = (\<not> pm_localID m < p)
     then (Inr h, if pm_onReplace m then [EvReplace (cn_info c)] else [],
        start now h (on_conn e Close_conn (m\<lparr>pm_conns := gm_put p h (pm_conns m)\<rparr>)))
     else (Inl ErrDuplicate, [], on_conn h Close_conn m))"
  using assms by (auto simp: adopt_eq adopt_verdict_def Let_def)

lemma adopt_two_keeps:
  assumes new: "gm_get (pm_conns m) p = None" "pm_maxPeers m \<le> 0 \<or> int (gm_len (pm_conns m)) < pm_maxPeers m"
    and c: "pi_ID (cn_info c1) = p" "pi_ID (cn_info c2) = p" "cn_inbound c1 = (\<not> cn_inbound c2)" "h1 \<noteq> h2"
    and run: "adopt_two now h1 c1 h2 c2 m = (es, m')"
  defines "w \<equiv> if cn_inbound c1 = (\<not> pm_localID m < p) then h1 else h2"
    and "l \<equiv> if cn_inbound c1 = (\<not> pm_localID m < p) then h2 else h1"
  shows "gm_get (pm_conns m') p = Some w
    \<and> map_option cn_done (conn_at m' l) = Some True
    \<and> map_option cn_done (conn_at m' w) = Some (cn_done (if w = h1 then c1 else c2))
    \<and> map_option (pi_ID \<circ> cn_info) (conn_at m' l) = Some p"
proof -
  let ?m1 = "start now h1 ((put_conn h1 c1 m)\<lparr>pm_conns := gm_put p h1 (pm_conns m)\<rparr>)"
  have a1: "adopt now h1 c1 (put_conn h1 c1 m) = (Inr h1, if pm_onUp m then [EvUp (cn_info c1)] else [], ?m1)"
    using adopt_register [of "put_conn h1 c1 m" c1 now h1] new c(1) by simp
  let ?m1' = "put_conn h2 c2 ?m1"
  have e: "gm_get (pm_conns ?m1') p = Some h1" "conn_at ?m1' h1 = Some (touch now c1)"
    "cn_inbound (touch now c1) = (\<not> cn_inbound c2)" "pm_localID ?m1' = pm_localID m"
    using c(3,4) by (simp_all add: start_def gm_laws conn_at_put conn_at_on touch_def)
  note a2 = adopt_second [OF e(1-3) c(2), of now h2]
  have m': "m' = snd (snd (adopt now h2 c2 ?m1'))"
    using run a1 by (auto simp: adopt_two_def case_prod_unfold)
  show ?thesis
  proof (cases "cn_inbound c2 = (\<not> pm_localID m < p)")
    case True
    then have "m' = start now h2 (on_conn h1 Close_conn (?m1'\<lparr>pm_conns := gm_put p h2 (pm_conns ?m1')\<rparr>))"
      using m' a2 e(4) by simp
    moreover have "w = h2" "l = h1" using True c(3) by (auto simp: w_def l_def)
    ultimately show ?thesis
      using c e(2) by (auto simp: start_def gm_laws conn_at_on conn_at_put touch_def Close_conn_def)
  next
    case False
    then have "m' = on_conn h2 Close_conn ?m1'" using m' a2 e(4) by simp
    moreover have "w = h1" "l = h2" using False c(3) by (auto simp: w_def l_def)
    ultimately show ?thesis
      using c e by (auto simp: conn_at_on conn_at_put touch_def Close_conn_def)
  qed
qed

lemma adopt_keeps_smaller:
  assumes "gm_get (pm_conns m) p = None" "pm_maxPeers m \<le> 0 \<or> int (gm_len (pm_conns m)) < pm_maxPeers m"
    and "pi_ID (cn_info out) = p" "pi_ID (cn_info inb) = p"
    and "\<not> cn_inbound out" "cn_inbound inb" "ho \<noteq> hi"
    and "(if outFirst then adopt_two t ho out hi inb m else adopt_two t hi inb ho out m) = (es, m')"
  shows "gm_get (pm_conns m') p = Some (if pm_localID m < p then ho else hi)
    \<and> map_option cn_done (conn_at m' (if pm_localID m < p then hi else ho)) = Some True
    \<and> map_option (pi_ID \<circ> cn_info) (conn_at m' (if pm_localID m < p then hi else ho)) = Some p"
proof (cases outFirst)
  case True
  then have "adopt_two t ho out hi inb m = (es, m')" using assms(8) by simp
  from adopt_two_keeps [OF assms(1) assms(2) assms(3,4) _ assms(7) this] assms(5,6)
  show ?thesis by (simp split: if_splits)
next
  case False
  then have "adopt_two t hi inb ho out m = (es, m')" using assms(8) by simp
  from adopt_two_keeps [OF assms(1) assms(2) assms(4,3) _ assms(7) [symmetric] this] assms(5,6)
  show ?thesis by (simp split: if_splits)
qed

text \<open>The end of the loser's read loop leaves the winner in the table and raises no event.\<close>

lemma shutdown_loser:
  assumes "gm_get (pm_conns m) p = Some w" "map_option (pi_ID \<circ> cn_info) (conn_at m l) = Some p" "l \<noteq> w"
    and "shutdown l m = (es, m')"
  shows "es = [] \<and> gm_get (pm_conns m') p = Some w"
proof -
  obtain c where c: "conn_at m l = Some c" "pi_ID (cn_info c) = p"
    using assms(2) by auto
  then show ?thesis
    using assms(1,3,4)
    by (auto simp: shutdown_def unregister_eq conn_at_on Close_conn_def Let_def split: if_splits)
qed

section \<open>Lookup\<close>

lemma find_loop_spec:
  assumes "\<And>p. p \<in> set ps \<Longrightarrow> gm_get conns p \<noteq> None"
  shows "find_loop key conns ps found =
    (case (found, filter (prefix_match key) ps) of
       (None, []) \<Rightarrow> Inl ErrUnknownPeer
     | (None, [p]) \<Rightarrow> Inr (the (gm_get conns p))
     | (Some h, []) \<Rightarrow> Inr h
     | _ \<Rightarrow> Inl ErrAmbiguousID)"
  using assms
proof (induction ps arbitrary: found)
  case (Cons p ps)
  then obtain h where "gm_get conns p = Some h" by auto
  then show ?case
    using Cons by (auto split: option.split list.split)
qed (simp split: option.split)

section \<open>The read loop\<close>

lemma strikes_broken:
  assumes "k < n" "r \<noteq> x"
  shows "sublist (replicate n x) (replicate k x @ r # rs) \<longleftrightarrow> sublist (replicate n x) rs"
proof
  assume "sublist (replicate n x) (replicate k x @ r # rs)"
  then consider "sublist (replicate n x) (replicate k x)" | "sublist (replicate n x) (r # rs)"
    | a b where "replicate n x = a @ b" "suffix a (replicate k x)" "prefix b (r # rs)"
    by (auto simp: sublist_append)
  then show "sublist (replicate n x) rs"
  proof cases
    case 1
    then show ?thesis using assms(1) by (auto dest: sublist_length_le)
  next
    case 2
    then show ?thesis using assms by (cases n) (auto simp: sublist_Cons_right)
  next
    case 3
    have "set b \<subseteq> {x}" by (metis "3"(1) Un_iff set_append set_replicate_conv_if subsetI empty_iff)
    then have "b = []" using 3(3) assms(2) by (cases b) auto
    then have "n \<le> k" using 3(1,2) by (metis append_Nil2 length_replicate suffix_length_le)
    then show ?thesis using assms(1) by simp
  qed
next
  assume "sublist (replicate n x) rs"
  then show "sublist (replicate n x) (replicate k x @ r # rs)"
    by (metis sublist_Cons_right sublist_append_leftI sublist_order.order_trans)
qed

lemma readLoop_alive:
  assumes "cn_malformed c = k" "k < 5" "readLoop rs c = (alive, ms, c')"
  shows "alive \<longleftrightarrow> ReadFailed \<notin> set (map snd rs)
      \<and> \<not> sublist (replicate 5 ReadMalformed) (replicate k ReadMalformed @ map snd rs)"
  using assms
proof (induction rs arbitrary: c k ms alive)
  case Nil
  then show ?case by (auto dest: sublist_length_le)
next
  case (Cons e rs)
  obtain now r where e: "e = (now, r)" by (cases e)
  show ?case
  proof (cases r)
    case (ReadMsg m)
    obtain a ms' where rl: "readLoop rs (touch now (c\<lparr>cn_malformed := 0\<rparr>)) = (a, ms', c')" "alive = a"
      using Cons.prems(3) e ReadMsg by (auto split: prod.splits)
    then show ?thesis
      using Cons.IH [OF _ _ rl(1), of 0] strikes_broken [of k 5 "ReadMsg m" ReadMalformed] Cons.prems(2) e ReadMsg
      by (simp add: touch_def)
  next
    case ReadFailed
    then show ?thesis using Cons.prems e by auto
  next
    case ReadMalformed
    have shift: "replicate k ReadMalformed @ ReadMalformed # xs = replicate (Suc k) ReadMalformed @ xs" for xs
      by (simp add: replicate_app_Cons_same)
    show ?thesis
    proof (cases "Suc k < 5")
      case True
      then obtain a ms' where rl: "readLoop rs (c\<lparr>cn_malformed := Suc k\<rparr>) = (a, ms', c')" "alive = a"
        using Cons.prems(1,3) e ReadMalformed by (auto simp: Let_def split: prod.splits)
      then show ?thesis
        unfolding e ReadMalformed list.map snd_conv shift using Cons.IH [OF _ True rl(1)] by simp
    next
      case False
      then have five: "Suc k = 5" using Cons.prems(2) by simp
      then have "alive = False" using Cons.prems(1,3) e ReadMalformed by (auto simp: Let_def)
      moreover have "sublist (replicate 5 ReadMalformed) (replicate k ReadMalformed @ map snd (e # rs))"
        unfolding e ReadMalformed list.map snd_conv shift five by (rule sublist_append_rightI)
      ultimately show ?thesis by simp
    qed
  qed
qed

section \<open>Properties\<close>

text \<open>
  C19. The peer table is consistent however the goroutines of its operations interleave, where a
  goroutine is interrupted after it releases the lock of the table, before it starts or closes a
  connection and before it calls a hook: each peer id has at most one entry, its connection has
  completed its handshake under exactly that id and has not ended, and the number of peers never
  exceeds the limit. The hook calls made and still due are, in some order, a history that alternates
  for each peer (up while down, down and replace while up) and ends with the present table. So when no
  call is due, a peer was reported up once more than down when it is in the table, and equally often
  when it is not.
\<close>

theorem peer_lifecycle:
  assumes "m0 = SetReplaceHook True (SetHooks True True (SetMaxPeers n (NewPeerManager me maxMsg ping idle)))"
    and "sched_run sha ops (new_sched m0) = Some s"
  shows "peer_inv (sd_mgr s) \<and> (n > 0 \<longrightarrow> int (Len_peers (sd_mgr s)) \<le> n) \<and> reports_ok s
    \<and> (sd_tasks s = [] \<longrightarrow>
         (\<forall>p. ups p (sd_called s) = downs p (sd_called s) + of_bool (Connected (sd_mgr s) p)))"
proof -
  have m0: "peer_inv m0" "hooked m0" "pm_maxPeers m0 = n" "\<And>p. \<not> Connected m0 p"
    unfolding assms(1)
    by (simp_all add: peer_inv_def hooked_def SetReplaceHook_def SetHooks_def SetMaxPeers_def NewPeerManager_def
        gm_laws Connected_def gm_has_def)
  then have "sched_inv (new_sched m0)"
    by (simp add: sched_inv_def reports_ok_def new_sched_def)
  then have s: "sched_inv s" "pm_maxPeers (sd_mgr s) = n"
    using sched_run_inv [OF _ assms(2)] m0(3) by (simp_all add: new_sched_def)
  then show ?thesis
    using reports_balance [of s] by (auto simp: sched_inv_def peer_inv_def Len_peers_def ups_def downs_def)
qed

theorem peer_lifecycle_witness:
  "\<exists>s. sched_run id [Begin (PAdopt 0 1 (sample_conn ''b'' True)), Resume 0, Begin (PRead 1 5 ReadFailed),
        Resume 1, Resume 0]
      (new_sched (SetReplaceHook True (SetHooks True True (SetMaxPeers 2 (NewPeerManager ''a'' 0 0 0))))) = Some s
    \<and> reports_ok s \<and> ups ''b'' (sd_called s) = downs ''b'' (sd_called s) + of_bool (Connected (sd_mgr s) ''b'')
    \<and> ups ''b'' (sd_called s) = 1"
proof -
  let ?m = "SetReplaceHook True (SetHooks True True (SetMaxPeers 2 (NewPeerManager ''a'' 0 0 0)))"
  let ?ops = "[Begin (PAdopt 0 1 (sample_conn ''b'' True)), Resume 0, Begin (PRead 1 5 ReadFailed), Resume 1, Resume 0]"
  obtain s where s: "sched_run id ?ops (new_sched ?m) = Some s" "sd_tasks s = []" "ups ''b'' (sd_called s) = 1"
  proof -
    have "\<exists>s. sched_run id ?ops (new_sched ?m) = Some s
      \<and> sd_called s = [EvDown (cn_info (sample_conn ''b'' True)), EvUp (cn_info (sample_conn ''b'' True))]
      \<and> sd_tasks s = [] \<and> gm_get (pm_conns (sd_mgr s)) (pi_ID (cn_info (sample_conn ''b'' True))) = None"
      by (rule early_down)
        (simp_all add: hooked_def conn_at_def SetReplaceHook_def SetHooks_def SetMaxPeers_def NewPeerManager_def gm_laws)
    then show thesis using that by (auto simp: ups_def)
  qed
  show ?thesis
    using peer_lifecycle [OF refl s(1)] s by blast
qed

text \<open>
  The order of the calls is not guaranteed: when the read loop of a connection ends before the
  goroutine that adopted it comes to its hook, the peer is reported down first and up
  afterwards, and stays reported up although it is not in the table.
\<close>

theorem down_reported_before_up:
  assumes "hooked m" "conn_at m h = None" "\<not> cn_notified c"
    and "gm_get (pm_conns m) (pi_ID (cn_info c)) = None"
    and "pm_maxPeers m \<le> 0 \<or> int (gm_len (pm_conns m)) < pm_maxPeers m"
  shows "\<exists>s i. sched_run sha [Begin (PAdopt now h c), Resume 0, Begin (PRead h t ReadFailed), Resume 1, Resume 0]
      (new_sched m) = Some s
    \<and> sd_called s = [EvDown i, EvUp i] \<and> pi_ID i = pi_ID (cn_info c) \<and> \<not> Connected (sd_mgr s) (pi_ID i)"
proof -
  obtain s where "sched_run sha [Begin (PAdopt now h c), Resume 0, Begin (PRead h t ReadFailed), Resume 1, Resume 0]
      (new_sched m) = Some s" "sd_called s = [EvDown (cn_info c), EvUp (cn_info c)]"
    "gm_get (pm_conns (sd_mgr s)) (pi_ID (cn_info c)) = None"
    using early_down [OF assms] by blast
  then show ?thesis
    by (intro exI [of _ s] exI [of _ "cn_info c"]) (simp add: Connected_def gm_has_def del: sched_run.simps)
qed

text \<open>
  C15. Both ends keep the same connection. When two peers that are not yet connected and have room
  for one more peer (or no limit) dial each other at the same time, so that each adopts one session
  it initiated (outbound) and one the other initiated (inbound), then in whatever order each end
  adopts them, both keep the session initiated by the peer with the
  smaller id and close the other, and when the read loop of the closed one ends the kept one
  stays registered and no peer is reported down.
\<close>

theorem duplicate_convergence:
  assumes ends: "pm_localID mA = a" "pm_localID mB = b" "a \<noteq> b"
    and new: "gm_get (pm_conns mA) b = None" "pm_maxPeers mA \<le> 0 \<or> int (Len_peers mA) < pm_maxPeers mA"
      "gm_get (pm_conns mB) a = None" "pm_maxPeers mB \<le> 0 \<or> int (Len_peers mB) < pm_maxPeers mB"
    and ids: "pi_ID (cn_info xA) = b" "pi_ID (cn_info yA) = b" "pi_ID (cn_info xB) = a" "pi_ID (cn_info yB) = a"
    and dirs: "\<not> cn_inbound xA" "cn_inbound yA" "cn_inbound xB" "\<not> cn_inbound yB"
    and hs: "hx \<noteq> hy" "gx \<noteq> gy"
    and runA: "(if firstA then adopt_two t hx xA hy yA mA else adopt_two t hy yA hx xA mA) = (eA, mA1)"
    and runB: "(if firstB then adopt_two t gx xB gy yB mB else adopt_two t gy yB gx xB mB) = (eB, mB1)"
    and endA: "shutdown (if a < b then hy else hx) mA1 = (dA, mA2)"
    and endB: "shutdown (if a < b then gy else gx) mB1 = (dB, mB2)"
  shows "gm_get (pm_conns mA2) b = Some (if a < b then hx else hy)
    \<and> gm_get (pm_conns mB2) a = Some (if a < b then gx else gy)
    \<and> map_option cn_done (conn_at mA1 (if a < b then hy else hx)) = Some True
    \<and> map_option cn_done (conn_at mB1 (if a < b then gy else gx)) = Some True
    \<and> dA = [] \<and> dB = []"
proof -
  have less: "(b < a) = (\<not> a < b)" using ends(3) by auto
  note A = adopt_keeps_smaller [OF new(1) new(2) [unfolded Len_peers_def] ids(1,2) dirs(1,2) hs(1), of firstA t eA mA1]
  note B = adopt_keeps_smaller [OF new(3) new(4) [unfolded Len_peers_def] ids(4,3) dirs(4,3) hs(2) [symmetric], of "\<not> firstB" t eB mB1]
  have "dA = [] \<and> gm_get (pm_conns mA2) b = Some (if a < b then hx else hy)"
    using A runA hs(1) endA ends(1) by (intro shutdown_loser [of mA1 b _ "if a < b then hy else hx"]) auto
  moreover have "dB = [] \<and> gm_get (pm_conns mB2) a = Some (if a < b then gx else gy)"
    using B runB hs(2) endB ends(2) less by (intro shutdown_loser [of mB1 a _ "if a < b then gy else gx"]) (auto split: if_splits)
  ultimately show ?thesis using A B runA runB ends(1,2) less by (auto split: if_splits)
qed

theorem duplicate_convergence_witness:
  "let mA = snd (adopt_two 0 1 (sample_conn ''b'' False) 2 (sample_conn ''b'' True) (SetMaxPeers 64 (NewPeerManager ''a'' 0 0 0)));
       mB = snd (adopt_two 0 2 (sample_conn ''a'' False) 1 (sample_conn ''a'' True) (SetMaxPeers 64 (NewPeerManager ''b'' 0 0 0))) in
   gm_get (pm_conns (snd (shutdown 2 mA))) ''b'' = Some 1 \<and> gm_get (pm_conns (snd (shutdown 2 mB))) ''a'' = Some 1"
proof -
  let ?A = "SetMaxPeers 64 (NewPeerManager ''a'' 0 0 0)" and ?B = "SetMaxPeers 64 (NewPeerManager ''b'' 0 0 0)"
  let ?xA = "sample_conn ''b'' False" and ?yA = "sample_conn ''b'' True"
  let ?xB = "sample_conn ''a'' True" and ?yB = "sample_conn ''a'' False"
  have less: "''a'' < ''b''" by (simp add: less_char_def)
  have m: "pm_localID ?A = ''a''" "pm_localID ?B = ''b''" "gm_get (pm_conns ?A) ''b'' = None" "int (Len_peers ?A) < pm_maxPeers ?A"
    "gm_get (pm_conns ?B) ''a'' = None" "int (Len_peers ?B) < pm_maxPeers ?B"
    by (simp_all add: NewPeerManager_def SetMaxPeers_def Len_peers_def gm_laws)
  obtain eA mA1 where A: "adopt_two 0 1 ?xA 2 ?yA ?A = (eA, mA1)" by (rule prod.exhaust)
  obtain eB mB1 where B: "adopt_two 0 2 ?yB 1 ?xB ?B = (eB, mB1)" by (rule prod.exhaust)
  obtain dA mA2 where SA: "shutdown 2 mA1 = (dA, mA2)" by (rule prod.exhaust)
  obtain dB mB2 where SB: "shutdown 2 mB1 = (dB, mB2)" by (rule prod.exhaust)
  have "gm_get (pm_conns mA2) ''b'' = Some 1 \<and> gm_get (pm_conns mB2) ''a'' = Some 1"
    using duplicate_convergence [of ?A "''a''" ?B "''b''" ?xA ?yA ?xB ?yB 1 2 1 2 True 0 eA mA1 False eB mB1 dA mA2 dB mB2]
      m A B SA SB less by simp
  then show ?thesis unfolding Let_def A B snd_conv SA SB .
qed

text \<open>
  Finding a peer by id or prefix does not depend on the iteration order of the table: an exact
  id wins; otherwise the result is the only connected peer whose id starts with the key (of at
  least four characters), the ambiguity error when there are several, and the unknown-peer error
  when there is none.
\<close>

theorem find_spec:
  fixes key :: string
  assumes "range_order (pm_conns m) order"
  defines "matches \<equiv> {p \<in> dom (gm_get (pm_conns m)). prefix_match key p}"
  shows "Find order key m =
    (case gm_get (pm_conns m) key of
       Some h \<Rightarrow> Inr h
     | None \<Rightarrow>
         if matches = {} then Inl ErrUnknownPeer
         else if card matches = 1 then Inr (the (gm_get (pm_conns m) (the_elem matches)))
         else Inl ErrAmbiguousID)"
proof -
  let ?ms = "filter (prefix_match key) order"
  have dom: "set order = dom (gm_get (pm_conns m))" "distinct order"
    using assms(1) by (simp_all add: range_order_def)
  have ms: "set ?ms = matches" "distinct ?ms" using dom by (auto simp: matches_def)
  then have card: "card matches = length ?ms" by (metis distinct_card)
  have "find_loop key (pm_conns m) order None =
    (case (None :: nat option, ?ms) of
       (None, []) \<Rightarrow> Inl ErrUnknownPeer | (None, [p]) \<Rightarrow> Inr (the (gm_get (pm_conns m) p))
     | (Some h, []) \<Rightarrow> Inr h | _ \<Rightarrow> Inl ErrAmbiguousID)"
    using dom by (intro find_loop_spec) auto
  moreover have "the_elem matches = p" if "?ms = [p]" for p
  proof -
    have "matches = {p}" using ms(1) that by simp
    then show ?thesis by simp
  qed
  ultimately show ?thesis
    using ms(1) card by (auto simp: Find_def split: option.split list.split)
qed

text \<open>
  The read loop of a connection ends exactly when a read fails or five malformed frames arrive in
  a row; valid frames in between forgive the earlier ones.
\<close>

theorem read_loop_tolerance:
  assumes "cn_malformed c = 0"
  shows "fst (readLoop rs c) \<longleftrightarrow>
    ReadFailed \<notin> set (map snd rs) \<and> \<not> sublist (replicate 5 ReadMalformed) (map snd rs)"
proof -
  obtain alive ms c' where "readLoop rs c = (alive, ms, c')" by (cases "readLoop rs c") auto
  then show ?thesis using readLoop_alive [OF assms, of rs alive ms c'] by simp
qed

end
