(* ===== verification/Handshake.thy ===== *)
theory Handshake
  imports Peer Sign
begin

text \<open>
  \<^verbatim>\<open>src/internal/peer/peer.go\<close>, the handshake: \<^verbatim>\<open>identityFromHandshake\<close>,
  \<^verbatim>\<open>handshake\<close> and \<^verbatim>\<open>HandshakeAndAdopt\<close>. What comes from outside one call is the record
  \<open>hs_env\<close>: the results of the TLS handshake, of reading and of writing a frame, the nonce, the
  clock readings, the remote address, and the key of the TLS peer certificate (\<open>None\<close> for an error,
  \<open>Some None\<close> on a plain connection).
\<close>

section \<open>Definitions\<close>

record hs_env =
  he_tls_ok :: bool
  he_read :: "message option"
  he_write_ok :: bool
  he_nonce :: string
  he_sent_at :: int
  he_now :: int
  he_peer_key :: "string option option"
  he_addr :: string

definition nick_or_short :: "message \<Rightarrow> string" where
  "nick_or_short msg =
     (if mNickname msg = [] then (if length (mPeerID msg) \<ge> 8 then take 8 (mPeerID msg) else mPeerID msg)
      else mNickname msg)"

definition identityFromHandshake :: "unicode \<Rightarrow> crypto \<Rightarrow> int \<Rightarrow> message \<Rightarrow> hs_err + info" where
  "identityFromHandshake uc c now msg0 =
     (case Validate uc (Some msg0) of
        (Some e, _) \<Rightarrow> Inl (HsInvalid e)
      | (None, m1) \<Rightarrow>
          let msg = the m1 in
          (case VerifySignature uc c (Some msg) of
             Some e \<Rightarrow> Inl (HsSignature e)
           | None \<Rightarrow>
               (case Fresh (Some msg) now of
                  Some e \<Rightarrow> Inl (HsStale e)
                | None \<Rightarrow>
                    (case hex_decode (mPublicKey msg) of
                       None \<Rightarrow> Inl HsBadKey
                     | Some pub \<Rightarrow>
                         if length pub \<noteq> PublicKeySize then Inl HsBadKey
                         else if \<not> VerifyPeerID uc c pub (mPeerID msg) then Inl HsPeerID
                         else Inr (no_info\<lparr>pi_ID := mPeerID msg, pi_PublicKey := pub,
                                pi_Nickname := nick_or_short msg, pi_ListenPort := mPort msg,
                                pi_Addrs := SanitizeAddrs (mAddrs msg) 8\<rparr>)))))"

definition make_hello :: "crypto \<Rightarrow> hs_env \<Rightarrow> identity \<Rightarrow> string \<Rightarrow> pmanager \<Rightarrow> perr + message" where
  "make_hello c env ident nick m =
     Sign c (idPrivateKey ident)
       (Some ((NewHello (c_sha256 c) (he_sent_at env) (he_nonce env) (idPeerID ident) (PublicKeyHex ident) nick)
          \<lparr>mPort := pm_listenPort m, mAddrs := pm_advertise m\<rparr>))"

definition make_welcome :: "crypto \<Rightarrow> hs_env \<Rightarrow> identity \<Rightarrow> string \<Rightarrow> pmanager \<Rightarrow> perr + message" where
  "make_welcome c env ident nick m =
     Sign c (idPrivateKey ident)
       (Some ((NewWelcome (c_sha256 c) (he_sent_at env) (he_nonce env) (idPeerID ident) (PublicKeyHex ident) nick)
          \<lparr>mPort := pm_listenPort m, mAddrs := pm_advertise m\<rparr>))"

text \<open>The result of the handshake and the frames it wrote.\<close>

definition handshake ::
  "unicode \<Rightarrow> crypto \<Rightarrow> hs_env \<Rightarrow> identity \<Rightarrow> string \<Rightarrow> bool \<Rightarrow> pmanager \<Rightarrow> (hs_err + info) \<times> message list" where
  "handshake uc c env ident nick inbound m =
     (if inbound then
        (case he_read env of
           None \<Rightarrow> (Inl HsRead, [])
         | Some msg \<Rightarrow>
             if mType msg \<noteq> TypeHello then (Inl (HsUnexpected (mType msg)), [])
             else
               (case identityFromHandshake uc c (he_now env) msg of
                  Inl e \<Rightarrow> (Inl e, [])
                | Inr i \<Rightarrow>
                    (case make_welcome c env ident nick m of
                       Inl e \<Rightarrow> (Inl (HsSign e), [])
                     | Inr welcome \<Rightarrow>
                         if \<not> he_write_ok env then (Inl HsWrite, []) else (Inr i, [welcome]))))
      else
        (case make_hello c env ident nick m of
           Inl e \<Rightarrow> (Inl (HsSign e), [])
         | Inr hello \<Rightarrow>
             if \<not> he_write_ok env then (Inl HsWrite, [])
             else
               (case he_read env of
                  None \<Rightarrow> (Inl HsRead, [hello])
                | Some msg \<Rightarrow>
                    if mType msg \<noteq> TypeWelcome then (Inl (HsUnexpected (mType msg)), [hello])
                    else (identityFromHandshake uc c (he_now env) msg, [hello]))))"

definition HandshakeAndAdopt ::
  "unicode \<Rightarrow> crypto \<Rightarrow> hs_env \<Rightarrow> identity \<Rightarrow> string \<Rightarrow> bool \<Rightarrow> nat \<Rightarrow> pmanager
    \<Rightarrow> (peer_err + nat) \<times> peer_event list \<times> pmanager" where
  "HandshakeAndAdopt uc c env ident nick inbound h m =
     (if pm_tls m \<and> \<not> he_tls_ok env then (Inl (ErrHandshake HsTLS), [], m)
      else
        (let m1 = wrap h inbound m; failed = on_conn h Close_conn m1 in
         case fst (handshake uc c env ident nick inbound m1) of
           Inl e \<Rightarrow> (Inl (ErrHandshake e), [], failed)
         | Inr i \<Rightarrow>
             if pi_ID i = pm_localID m1 then (Inl ErrSelfConnect, [], failed)
             else
               (case he_peer_key env of
                  None \<Rightarrow> (Inl (ErrHandshake HsPeerKey), [], failed)
                | Some k \<Rightarrow>
                    if k \<noteq> None \<and> k \<noteq> Some (pi_PublicKey i)
                    then (Inl (ErrHandshake HsKeyMismatch), [], failed)
                    else
                      (let i' = i\<lparr>pi_Inbound := inbound, pi_Connected := he_now env, pi_Addr := he_addr env\<rparr>;
                           m2 = on_conn h (\<lambda>cn. cn\<lparr>cn_info := i'\<rparr>) m1 in
                       adopt (he_now env) h (the (conn_at m2 h)) m2))))"

text \<open>What a peer proved about itself: the claimed id, up to case, is the digest of a key that signed the frame.\<close>

definition proved :: "unicode \<Rightarrow> crypto \<Rightarrow> message \<Rightarrow> info \<Rightarrow> bool" where
  "proved uc c msg i \<longleftrightarrow>
     pi_ID i = mPeerID msg \<and> length (pi_ID i) = 64
     \<and> ToLower uc (pi_ID i) = DerivePeerID c (pi_PublicKey i)
     \<and> hex_decode (mPublicKey msg) = Some (pi_PublicKey i) \<and> length (pi_PublicKey i) = PublicKeySize
     \<and> (\<exists>sig. hex_decode (mSignature msg) = Some sig
          \<and> c_verify c (pi_PublicKey i) (SignBytes (Some msg)) sig)"

text \<open>The conditions on a clock: after 1970, and the two clocks agree up to the allowed skew.\<close>

definition clocks_ok :: "int \<Rightarrow> int \<Rightarrow> bool" where
  "clocks_ok sent now \<longleftrightarrow> unixToInternal * second + second \<le> sent \<and> sent < 2 ^ 61 * second
     \<and> sent \<le> now + MaxFutureSkew \<and> now \<le> sent + MaxPastSkew - second"

text \<open>Examples: an exchange between two identities.\<close>

definition sample_env :: "message option \<Rightarrow> hs_env" where
  "sample_env msg =
     \<lparr>he_tls_ok = False, he_read = msg, he_write_ok = True, he_nonce = [], he_sent_at = sample_now,
      he_now = sample_now, he_peer_key = Some None, he_addr = ''10.0.0.2:50000''\<rparr>"

definition sample_manager :: "char \<Rightarrow> pmanager" where
  "sample_manager k = NewPeerManager (idPeerID (sample_ident k)) 65536 0 0"

definition sample_hello :: "char \<Rightarrow> message" where
  "sample_hello k = projr (make_hello toy_crypto (sample_env None) (sample_ident k) ''ann'' (sample_manager k))"

definition sample_welcome :: "char \<Rightarrow> message" where
  "sample_welcome k = projr (make_welcome toy_crypto (sample_env None) (sample_ident k) ''bob'' (sample_manager k))"

section \<open>Accepting a frame\<close>

lemma hello_types: "TypeHello \<noteq> []" "TypeWelcome \<noteq> []" "TypeHello \<noteq> TypeWelcome"
  by (simp_all add: type_defs)

lemma Validate_handshake:
  assumes "mType msg = TypeHello \<or> mType msg = TypeWelcome"
  shows "Validate uc (Some msg) = (None, Some m1) \<longleftrightarrow>
    m1 = msg \<and> ValidateEnvelope (Some msg) = None \<and> mVersion msg = Version \<and> length (mPeerID msg) = MaxPeerIDLen
    \<and> mPublicKey msg \<noteq> []"
  using assms unfolding Validate_ok_iff by (auto simp: validate_type_def)

lemma identityFromHandshake_Inr:
  assumes "mType msg = TypeHello \<or> mType msg = TypeWelcome" "identityFromHandshake uc c now msg = Inr i"
  shows "proved uc c msg i \<and> Fresh (Some msg) now = None \<and> pi_Nickname i \<noteq> []
    \<and> length (pi_Addrs i) \<le> 8 \<and> distinct (pi_Addrs i)"
proof -
  obtain e m1 where v0: "Validate uc (Some msg) = (e, Some m1)"
    by (cases "validate_type uc msg"; cases "ValidateEnvelope (Some msg)") auto
  then have v: "Validate uc (Some msg) = (None, Some m1)"
    using assms(2) by (cases e) (auto simp: identityFromHandshake_def simp del: Validate.simps)
  then have m1: "m1 = msg" "length (mPeerID msg) = 64"
    using Validate_handshake [OF assms(1)] by (simp_all add: size_defs)
  have ok: "VerifySignature uc c (Some msg) = None" "Fresh (Some msg) now = None"
    using assms(2) v m1 by (auto simp: identityFromHandshake_def split: option.splits)
  obtain pub where pub: "hex_decode (mPublicKey msg) = Some pub" "length pub = PublicKeySize"
    "VerifyPeerID uc c pub (mPeerID msg)"
    "i = no_info\<lparr>pi_ID := mPeerID msg, pi_PublicKey := pub, pi_Nickname := nick_or_short msg,
       pi_ListenPort := mPort msg, pi_Addrs := SanitizeAddrs (mAddrs msg) 8\<rparr>"
    using assms(2) v m1 ok by (auto simp: identityFromHandshake_def split: option.splits if_splits)
  have addrs: "length (SanitizeAddrs a 8) \<le> 8 \<and> distinct (SanitizeAddrs a 8)" for a
    using sanitize_facts [of a 8] by simp
  have "mPeerID msg \<noteq> []" using m1(2) by auto
  then have "nick_or_short msg \<noteq> []" by (simp add: nick_or_short_def)
  then show ?thesis
    using ok pub m1(2) addrs VerifySignature_iff [of uc c msg]
    by (auto simp: proved_def VerifyPeerID_def simp del: SignBytes.simps)
qed

lemma identityFromHandshake_accepts:
  assumes "mType msg = TypeHello \<or> mType msg = TypeWelcome" "ValidateEnvelope (Some msg) = None"
    and "mVersion msg = Version" "length (mPeerID msg) = 64"
    and "VerifySignature uc c (Some msg) = None" "Fresh (Some msg) now = None"
    and "mPublicKey msg = hex_encode pub" "length pub = PublicKeySize" "VerifyPeerID uc c pub (mPeerID msg)"
  shows "\<exists>i. identityFromHandshake uc c now msg = Inr i \<and> pi_ID i = mPeerID msg \<and> pi_PublicKey i = pub"
proof -
  have "mPublicKey msg \<noteq> []" using assms(7,8) by (auto simp: PublicKeySize_def)
  then have "Validate uc (Some msg) = (None, Some msg)"
    using assms(1-4) Validate_handshake [OF assms(1), of uc msg] by (simp add: size_defs)
  then show ?thesis
    using assms(5-9) by (simp add: identityFromHandshake_def go_simps)
qed

section \<open>Honest frames\<close>

lemma Fresh_unix_of:
  assumes "unixToInternal * second + second \<le> t" "t < 2 ^ 61 * second" "mTimestamp m = unix_of t"
    and "t \<le> now + MaxFutureSkew" "now \<le> t + MaxPastSkew - second"
  shows "Fresh (Some m) now = None" "unix_of t \<noteq> 0"
proof -
  let ?s = "t div second"
  have s: "unixToInternal + 1 \<le> ?s" "?s < 2 ^ 61" "?s * second \<le> t" "t - second < ?s * second"
    using assms(1,2) by (auto simp: second_def unixToInternal_def)
  have sint: "sint (unix_of t) = ?s - unixToInternal"
    using assms(1,2) by (intro sint_unix_of) (auto simp: second_def)
  then show "unix_of t \<noteq> 0" using s(1) by force
  have "0 \<le> now" "now < 2 ^ 62 * second"
    using assms by (auto simp: second_def unixToInternal_def MaxFutureSkew_def MaxPastSkew_def)
  then show "Fresh (Some m) now = None"
    using sint s assms(3-5) \<open>unix_of t \<noteq> 0\<close> by (subst Fresh_window) (auto simp: second_def)
qed

lemma key_ok_public: "key_ok c priv \<Longrightarrow> length (ed_public priv) = PublicKeySize"
  by (simp add: key_ok_def length_ed_public)

lemma frame_accepted:
  assumes key: "key_ok c priv" and len: "length (mPeerID b) = 64"
    and idn: "ToLower uc (mPeerID b) = DerivePeerID c (ed_public priv)"
    and b: "mType b = TypeHello \<or> mType b = TypeWelcome" "mVersion b = Version" "mSender b = []"
      "mPublicKey b = hex_encode (ed_public priv)" "mID b \<noteq> []" "length (mID b) \<le> 128" "mTimestamp b = unix_of sent"
    and clk: "clocks_ok sent now"
  obtains msg i where "Sign c priv (Some b) = Inr msg" "mType msg = mType b"
    "identityFromHandshake uc c now msg = Inr i" "pi_ID i = mPeerID b" "pi_PublicKey i = ed_public priv"
proof -
  have pl: "length (ed_public priv) = PublicKeySize" using key by (rule key_ok_public)
  obtain msg where sg: "Sign c priv (Some b) = Inr msg"
    using key by (auto simp: key_ok_def Let_def simp del: SignBytes.simps)
  then obtain p s where sh: "msg = b\<lparr>mPublicKey := p, mSignature := s\<rparr>" using Sign_shape by blast
  have p: "mPublicKey msg = hex_encode (ed_public priv)"
    using sg pl b(4) by (auto simp: PublicKeySize_def Let_def simp del: SignBytes.simps split: if_splits)
  have cl: "claimed_id b = mPeerID b" using b(3) by (simp add: claimed_id_def)
  have "VerifySignature uc c (Some msg) = None"
    using Sign_verifies [OF key _ _ sg, of uc] b(4) idn cl by simp
  moreover have fr: "Fresh (Some msg) now = None" "unix_of sent \<noteq> 0"
    using Fresh_unix_of [of sent msg now] clk b(7) sh by (simp_all add: clocks_ok_def)
  moreover have "ValidateEnvelope (Some msg) = None"
    using b fr(2) sh by (auto simp: ValidateEnvelope.simps type_defs size_defs)
  moreover have "VerifyPeerID uc c (ed_public priv) (mPeerID msg)"
    using idn sh by (simp add: VerifyPeerID_def)
  ultimately obtain i where "identityFromHandshake uc c now msg = Inr i" "pi_ID i = mPeerID b" "pi_PublicKey i = ed_public priv"
    using identityFromHandshake_accepts [of msg uc c now "ed_public priv"] b sh p pl len by auto
  then show thesis using that sg sh by simp
qed

lemma NewID_length: "sha_ok c \<Longrightarrow> length (NewID (c_sha256 c) nonce x ts pl) = 64"
  by (simp add: NewID_def sha_ok_def)

lemma idPeerID_length: "sha_ok c \<Longrightarrow> id_ok c ident \<Longrightarrow> length (idPeerID ident) = 64"
  by (simp add: id_ok_def DerivePeerID_def sha_ok_def)

lemma make_hello_accepted:
  assumes "sha_ok c" "id_ok c ident" "key_ok c (idPrivateKey ident)" "clocks_ok (he_sent_at env) now"
  obtains msg i where "make_hello c env ident nick m = Inr msg" "mType msg = TypeHello"
    "identityFromHandshake uc c now msg = Inr i" "pi_ID i = idPeerID ident" "pi_PublicKey i = idPublicKey ident"
proof -
  let ?b = "(NewHello (c_sha256 c) (he_sent_at env) (he_nonce env) (idPeerID ident) (PublicKeyHex ident) nick)
          \<lparr>mPort := pm_listenPort m, mAddrs := pm_advertise m\<rparr>"
  have nid: "mID ?b \<noteq> []" "length (mID ?b) \<le> 128"
    using NewID_length [OF assms(1)] by (auto simp: NewHello_def Let_def simp flip: length_0_conv)
  have idn: "ToLower uc (idPeerID ident) = DerivePeerID c (ed_public (idPrivateKey ident))"
    using assms(2) by (simp add: id_ok_def DerivePeerID_def go_simps)
  have pub: "idPublicKey ident = ed_public (idPrivateKey ident)" using assms(2) by (simp add: id_ok_def)
  obtain msg i where "Sign c (idPrivateKey ident) (Some ?b) = Inr msg" "mType msg = mType ?b"
    "identityFromHandshake uc c now msg = Inr i" "pi_ID i = mPeerID ?b" "pi_PublicKey i = ed_public (idPrivateKey ident)"
    by (rule frame_accepted [OF assms(3), of ?b uc "he_sent_at env" now])
       (use nid idn pub idPeerID_length [OF assms(1,2)] assms(4) in
         \<open>simp_all add: NewHello_def zero_message_def Let_def PublicKeyHex_def\<close>)
  then show thesis using that pub by (simp add: make_hello_def NewHello_def Let_def)
qed

lemma make_welcome_accepted:
  assumes "sha_ok c" "id_ok c ident" "key_ok c (idPrivateKey ident)" "clocks_ok (he_sent_at env) now"
  obtains msg i where "make_welcome c env ident nick m = Inr msg" "mType msg = TypeWelcome"
    "identityFromHandshake uc c now msg = Inr i" "pi_ID i = idPeerID ident" "pi_PublicKey i = idPublicKey ident"
proof -
  let ?b = "(NewWelcome (c_sha256 c) (he_sent_at env) (he_nonce env) (idPeerID ident) (PublicKeyHex ident) nick)
          \<lparr>mPort := pm_listenPort m, mAddrs := pm_advertise m\<rparr>"
  have nid: "mID ?b \<noteq> []" "length (mID ?b) \<le> 128"
    using NewID_length [OF assms(1)] by (auto simp: NewWelcome_def Let_def simp flip: length_0_conv)
  have idn: "ToLower uc (idPeerID ident) = DerivePeerID c (ed_public (idPrivateKey ident))"
    using assms(2) by (simp add: id_ok_def DerivePeerID_def go_simps)
  have pub: "idPublicKey ident = ed_public (idPrivateKey ident)" using assms(2) by (simp add: id_ok_def)
  obtain msg i where "Sign c (idPrivateKey ident) (Some ?b) = Inr msg" "mType msg = mType ?b"
    "identityFromHandshake uc c now msg = Inr i" "pi_ID i = mPeerID ?b" "pi_PublicKey i = ed_public (idPrivateKey ident)"
    by (rule frame_accepted [OF assms(3), of ?b uc "he_sent_at env" now])
       (use nid idn pub idPeerID_length [OF assms(1,2)] assms(4) in
         \<open>simp_all add: NewWelcome_def zero_message_def Let_def PublicKeyHex_def\<close>)
  then show thesis using that pub by (simp add: make_welcome_def NewWelcome_def Let_def)
qed

lemma make_read [simp]:
  "make_hello c (env\<lparr>he_read := r\<rparr>) ident nick m = make_hello c env ident nick m"
  "make_welcome c (env\<lparr>he_read := r\<rparr>) ident nick m = make_welcome c env ident nick m"
  by (simp_all add: make_hello_def make_welcome_def)

text \<open>A handshake that succeeds for a peer that is not in the table is followed by its registration.\<close>

lemma handshake_registers:
  assumes hs: "fst (handshake uc c env ident nick inbound (wrap h inbound m)) = Inr i"
    and "pi_ID i \<noteq> pm_localID m" "gm_get (pm_conns m) (pi_ID i) = None"
    and "pm_maxPeers m \<le> 0 \<or> int (Len_peers m) < pm_maxPeers m" "pm_tls m \<longrightarrow> he_tls_ok env"
    and "he_peer_key env = Some None \<or> he_peer_key env = Some (Some (pi_PublicKey i))"
  shows "\<exists>es m'. HandshakeAndAdopt uc c env ident nick inbound h m = (Inr h, es, m') \<and> Connected m' (pi_ID i)
    \<and> (\<forall>p. p \<noteq> pi_ID i \<longrightarrow> gm_get (pm_conns m') p = gm_get (pm_conns m) p)"
proof -
  have w: "pm_localID (wrap h inbound m) = pm_localID m" "pm_conns (wrap h inbound m) = pm_conns m"
    "pm_maxPeers (wrap h inbound m) = pm_maxPeers m"
    by (simp_all add: wrap_def)
  define i' where "i' = i\<lparr>pi_Inbound := inbound, pi_Connected := he_now env, pi_Addr := he_addr env\<rparr>"
  let ?m2 = "on_conn h (\<lambda>cn. cn\<lparr>cn_info := i'\<rparr>) (wrap h inbound m)"
  obtain c2 where c2: "conn_at ?m2 h = Some c2" "cn_info c2 = i'"
    by (auto simp: conn_at_on wrap_def conn_at_put)
  have "HandshakeAndAdopt uc c env ident nick inbound h m = adopt (he_now env) h c2 ?m2"
    using hs assms(2,5,6) w(1) c2(1) unfolding HandshakeAndAdopt_def Let_def i'_def by auto
  also have "\<dots> = (Inr h, if pm_onUp ?m2 then [EvUp i'] else [],
      start (he_now env) h (?m2\<lparr>pm_conns := gm_put (pi_ID i) h (pm_conns ?m2)\<rparr>))"
    using adopt_register [of ?m2 c2 "he_now env" h] assms(3,4) c2(2) w by (simp add: i'_def Len_peers_def)
  finally show ?thesis by (auto simp: Connected_def start_def gm_has_def gm_laws w)
qed

section \<open>The examples satisfy the laws\<close>

lemma sample_clocks: "clocks_ok sample_now sample_now"
  by (simp add: clocks_ok_def sample_now_def second_def unixToInternal_def MaxFutureSkew_def MaxPastSkew_def)

lemma sample_env_simps [simp]:
  "he_write_ok (sample_env msg)" "he_sent_at (sample_env msg) = sample_now" "he_now (sample_env msg) = sample_now"
  "he_read (sample_env msg) = msg" "he_peer_key (sample_env msg) = Some None" "he_nonce (sample_env msg) = []"
  by (simp_all add: sample_env_def)

lemma sample_frames:
  "make_hello toy_crypto (sample_env msg) (sample_ident k) ''ann'' (sample_manager k) = Inr (sample_hello k)"
  "make_welcome toy_crypto (sample_env msg) (sample_ident k) ''bob'' (sample_manager k) = Inr (sample_welcome k)"
proof -
  have clk: "clocks_ok (he_sent_at (sample_env None)) sample_now" using sample_clocks by simp
  obtain h where "make_hello toy_crypto (sample_env None) (sample_ident k) ''ann'' (sample_manager k) = Inr h"
    by (rule make_hello_accepted [OF toy_sha sample_ident_ok [of k] clk])
  moreover obtain w where "make_welcome toy_crypto (sample_env None) (sample_ident k) ''bob'' (sample_manager k) = Inr w"
    by (rule make_welcome_accepted [OF toy_sha sample_ident_ok [of k] clk])
  ultimately show "make_hello toy_crypto (sample_env msg) (sample_ident k) ''ann'' (sample_manager k) = Inr (sample_hello k)"
    "make_welcome toy_crypto (sample_env msg) (sample_ident k) ''bob'' (sample_manager k) = Inr (sample_welcome k)"
    by (simp_all add: sample_hello_def sample_welcome_def make_hello_def make_welcome_def)
qed

lemma sample_hello_accepted:
  "\<exists>i. identityFromHandshake uc toy_crypto sample_now (sample_hello k) = Inr i \<and> mType (sample_hello k) = TypeHello
     \<and> pi_ID i = idPeerID (sample_ident k) \<and> pi_PublicKey i = idPublicKey (sample_ident k)"
proof -
  obtain msg i where "make_hello toy_crypto (sample_env None) (sample_ident k) ''ann'' (sample_manager k) = Inr msg"
    "mType msg = TypeHello" "identityFromHandshake uc toy_crypto sample_now msg = Inr i"
    "pi_ID i = idPeerID (sample_ident k)" "pi_PublicKey i = idPublicKey (sample_ident k)"
    using sample_clocks by (rule_tac make_hello_accepted [OF toy_sha sample_ident_ok [of k], of "sample_env None" sample_now]) auto
  then show ?thesis using sample_frames(1) by auto
qed

lemma adopted_proved:
  assumes "HandshakeAndAdopt uc c env ident nick inbound h m = (Inr h', es, m')"
  shows "h' = h \<and> (pm_tls m \<longrightarrow> he_tls_ok env)
    \<and> (\<exists>msg cn. he_read env = Some msg \<and> mType msg = (if inbound then TypeHello else TypeWelcome)
         \<and> Fresh (Some msg) (he_now env) = None
         \<and> conn_at m' h = Some cn \<and> proved uc c msg (cn_info cn)
         \<and> pi_ID (cn_info cn) \<noteq> pm_localID m
         \<and> (\<forall>k. he_peer_key env = Some (Some k) \<longrightarrow> k = pi_PublicKey (cn_info cn))
         \<and> gm_get (pm_conns m') (pi_ID (cn_info cn)) = Some h)"
proof -
  let ?m1 = "wrap h inbound m"
  have local: "pm_localID ?m1 = pm_localID m" by (simp add: wrap_def)
  have tls: "pm_tls m \<longrightarrow> he_tls_ok env" using assms by (auto simp: HandshakeAndAdopt_def split: if_splits)
  then obtain i where i: "fst (handshake uc c env ident nick inbound ?m1) = Inr i"
    using assms by (cases "fst (handshake uc c env ident nick inbound ?m1)") (auto simp: HandshakeAndAdopt_def Let_def)
  then obtain msg where msg: "he_read env = Some msg" "mType msg = (if inbound then TypeHello else TypeWelcome)"
    "identityFromHandshake uc c (he_now env) msg = Inr i"
    by (auto simp: handshake_def split: if_splits option.splits sum.splits)
  define i' where "i' = i\<lparr>pi_Inbound := inbound, pi_Connected := he_now env, pi_Addr := he_addr env\<rparr>"
  let ?m2 = "on_conn h (\<lambda>cn. cn\<lparr>cn_info := i'\<rparr>) ?m1"
  have pk: "pi_ID i \<noteq> pm_localID m" "\<And>k. he_peer_key env = Some (Some k) \<Longrightarrow> k = pi_PublicKey i"
    and ad: "adopt (he_now env) h (the (conn_at ?m2 h)) ?m2 = (Inr h', es, m')"
    using assms i tls local by (auto simp: HandshakeAndAdopt_def Let_def i'_def split: if_splits option.splits)
  obtain c2 where c2: "conn_at ?m2 h = Some c2" "cn_info c2 = i'"
    by (auto simp: conn_at_on wrap_def conn_at_put)
  have reg: "h' = h \<and> gm_get (pm_conns m') (pi_ID i') = Some h \<and> (\<exists>cn. conn_at m' h = Some cn \<and> cn_info cn = i')"
    using ad c2 by (auto simp: adopt_eq Let_def start_def conn_at_on gm_laws touch_def Close_conn_def
        split: verdict.splits if_splits)
  have "mType msg = TypeHello \<or> mType msg = TypeWelcome" using msg(2) by (simp split: if_splits)
  then have pr: "proved uc c msg i" "Fresh (Some msg) (he_now env) = None"
    using identityFromHandshake_Inr [OF _ msg(3)] by auto
  have "proved uc c msg i'" using pr(1) by (auto simp: proved_def i'_def)
  then show ?thesis
    using reg tls msg pr(2) pk by (auto simp: i'_def)
qed

section \<open>Properties\<close>

text \<open>
  C20. Only authenticated peers enter the table. If HandshakeAndAdopt returns a connection, the remote
  sent a fresh handshake frame of the expected type that is signed with the public key it carries;
  the peer id of the registered connection is, up to the case of its hex digits, the SHA-256
  digest of that key; it is not the local id; with TLS the key is the one of the peer's
  certificate; and the table maps that peer id to this connection.
\<close>

theorem handshake_authenticates:
  assumes "HandshakeAndAdopt uc c env ident nick inbound h m = (Inr h', es, m')"
  shows "h' = h \<and> (pm_tls m \<longrightarrow> he_tls_ok env)
    \<and> (\<exists>msg cn. he_read env = Some msg \<and> mType msg = (if inbound then TypeHello else TypeWelcome)
         \<and> Fresh (Some msg) (he_now env) = None
         \<and> conn_at m' h = Some cn \<and> proved uc c msg (cn_info cn)
         \<and> pi_ID (cn_info cn) \<noteq> pm_localID m
         \<and> (\<forall>k. he_peer_key env = Some (Some k) \<longrightarrow> k = pi_PublicKey (cn_info cn))
         \<and> gm_get (pm_conns m') (pi_ID (cn_info cn)) = Some h)"
  using assms by (rule adopted_proved)

theorem handshake_authenticates_witness:
  "\<exists>cn. conn_at (snd (snd (HandshakeAndAdopt sample_uc toy_crypto (sample_env (Some (sample_hello CHR ''k''))) (sample_ident CHR ''j'')
           ''bob'' True 1 (sample_manager CHR ''j'')))) 1 = Some cn
     \<and> proved sample_uc toy_crypto (sample_hello CHR ''k'') (cn_info cn)"
proof -
  let ?run = "HandshakeAndAdopt sample_uc toy_crypto (sample_env (Some (sample_hello CHR ''k''))) (sample_ident CHR ''j'')
           ''bob'' True 1 (sample_manager CHR ''j'')"
  obtain i where i: "identityFromHandshake sample_uc toy_crypto sample_now (sample_hello CHR ''k'') = Inr i"
    "mType (sample_hello CHR ''k'') = TypeHello" "pi_ID i = idPeerID (sample_ident CHR ''k'')"
    using sample_hello_accepted by blast
  have wrapped: "make_welcome toy_crypto (sample_env (Some (sample_hello CHR ''k''))) (sample_ident CHR ''j'') ''bob''
      (wrap 1 True (sample_manager CHR ''j'')) = Inr (sample_welcome CHR ''j'')"
    using sample_frames(2) [of _ "CHR ''j''"] by (simp add: make_welcome_def wrap_def put_conn_def)
  have "pi_ID i \<noteq> pm_localID (sample_manager CHR ''j'')"
    unfolding i(3) sample_manager_def NewPeerManager_def sample_ident_def DerivePeerID_def
    by (simp add: toy_crypto_def hex_encode_inj)
  then have "fst ?run = Inr 1"
    using i wrapped
    by (simp add: HandshakeAndAdopt_def handshake_def Let_def wrap_def sample_manager_def NewPeerManager_def adopt_eq
        adopt_verdict_def conn_at_on conn_at_put gm_laws)
  then have "?run = (Inr 1, fst (snd ?run), snd (snd ?run))" by (metis prod.collapse)
  from handshake_authenticates [OF this] show ?thesis by auto
qed

text \<open>
  C21. Honest peers complete the handshake. When two nodes have consistent identities, can write to
  each other and their clocks agree up to the allowed skew, the dialling end writes one hello; the accepting
  end, given that hello, learns the id and key of the dialling end and writes one welcome; and the
  dialling end, given that welcome, learns the id and key of the accepting end.
\<close>

theorem honest_handshake:
  assumes "sha_ok c" "id_ok c identA" "key_ok c (idPrivateKey identA)" "id_ok c identB" "key_ok c (idPrivateKey identB)"
    and "he_write_ok envA" "he_write_ok envB"
    and "clocks_ok (he_sent_at envA) (he_now envB)" "clocks_ok (he_sent_at envB) (he_now envA)"
  shows "\<exists>hello wel iA iB. snd (handshake uc c envA identA nickA False mA) = [hello]
    \<and> handshake uc c (envB\<lparr>he_read := Some hello\<rparr>) identB nickB True mB = (Inr iA, [wel])
    \<and> handshake uc c (envA\<lparr>he_read := Some wel\<rparr>) identA nickA False mA = (Inr iB, [hello])
    \<and> pi_ID iA = idPeerID identA \<and> pi_PublicKey iA = idPublicKey identA
    \<and> pi_ID iB = idPeerID identB \<and> pi_PublicKey iB = idPublicKey identB"
proof -
  obtain hello iA where A: "make_hello c envA identA nickA mA = Inr hello" "mType hello = TypeHello"
    "identityFromHandshake uc c (he_now envB) hello = Inr iA" "pi_ID iA = idPeerID identA" "pi_PublicKey iA = idPublicKey identA"
    by (rule make_hello_accepted [OF assms(1-3,8)])
  obtain wel iB where B: "make_welcome c envB identB nickB mB = Inr wel" "mType wel = TypeWelcome"
    "identityFromHandshake uc c (he_now envA) wel = Inr iB" "pi_ID iB = idPeerID identB" "pi_PublicKey iB = idPublicKey identB"
    by (rule make_welcome_accepted [OF assms(1,4,5,9)])
  have "snd (handshake uc c envA identA nickA False mA) = [hello]"
    using A(1) assms(6) by (auto simp: handshake_def split: option.split)
  moreover have "handshake uc c (envB\<lparr>he_read := Some hello\<rparr>) identB nickB True mB = (Inr iA, [wel])"
    using A B assms(7) by (simp add: handshake_def make_read)
  moreover have "handshake uc c (envA\<lparr>he_read := Some wel\<rparr>) identA nickA False mA = (Inr iB, [hello])"
    using A B assms(6) by (simp add: handshake_def make_read)
  ultimately show ?thesis using A(4,5) B(4,5) by blast
qed

theorem honest_handshake_witness:
  "\<exists>hello wel iA iB.
      handshake sample_uc toy_crypto (sample_env (Some hello)) (sample_ident CHR ''j'') ''bob'' True
        (sample_manager CHR ''j'') = (Inr iA, [wel])
    \<and> handshake sample_uc toy_crypto (sample_env (Some wel)) (sample_ident CHR ''k'') ''ann'' False
        (sample_manager CHR ''k'') = (Inr iB, [hello])
    \<and> pi_ID iA = idPeerID (sample_ident CHR ''k'') \<and> pi_ID iB = idPeerID (sample_ident CHR ''j'')"
  using honest_handshake [OF toy_sha sample_ident_ok [of "CHR ''k''"] sample_ident_ok [of "CHR ''j''"],
      of "sample_env None" "sample_env None" sample_uc "''ann''" "sample_manager CHR ''k''" "''bob''" "sample_manager CHR ''j''"]
    sample_clocks
  by (simp add: sample_env_def) blast

text \<open>
  C23. A peer id in another case is another peer. The documentation rejects a handshake whose digest is
  not exactly the claimed id; the code compares with the id in lower case but keeps the id as
  sent. So the owner of any identity, the node's own included, who sends a frame that claims his id
  in another case is registered under that spelling as a further peer, on inbound and outbound
  connections, with TLS or without, as long as the table has room: the entry of the id itself, if
  there is one, stays as it is, and neither the refusal of self-connections nor the duplicate rule
  applies.
\<close>

theorem peer_id_case_variant:
  assumes "sha_ok c" "id_ok c ident" "key_ok c (idPrivateKey ident)" "id_ok c self" "key_ok c (idPrivateKey self)"
    and "clocks_ok (he_sent_at env) (he_now env)"
    and variant: "length v = 64" "ToLower uc v = idPeerID ident" "v \<noteq> idPeerID ident"
    and me: "pm_localID m = idPeerID self" "gm_get (pm_conns m) v = None"
      "pm_maxPeers m \<le> 0 \<or> int (Len_peers m) < pm_maxPeers m"
    and env: "he_write_ok env" "pm_tls m \<longrightarrow> he_tls_ok env"
      "he_peer_key env = Some None \<or> he_peer_key env = Some (Some (idPublicKey ident))"
    and frame: "Sign c (idPrivateKey ident)
      (Some ((if inbound then NewHello else NewWelcome) (c_sha256 c) (he_sent_at env) nonce v (PublicKeyHex ident) nick))
        = Inr msg" "he_read env = Some msg"
  shows "\<exists>es m'. HandshakeAndAdopt uc c env self nick' inbound h m = (Inr h, es, m') \<and> Connected m' v
    \<and> (\<forall>p. p \<noteq> v \<longrightarrow> gm_get (pm_conns m') p = gm_get (pm_conns m) p)"
proof -
  define b where "b = (if inbound then NewHello else NewWelcome) (c_sha256 c) (he_sent_at env) nonce v (PublicKeyHex ident) nick"
  have b: "mType b = (if inbound then TypeHello else TypeWelcome)" "mVersion b = Version" "mSender b = []"
    "mPublicKey b = PublicKeyHex ident" "mPeerID b = v" "mTimestamp b = unix_of (he_sent_at env)" "length (mID b) = 64"
    using NewID_length [OF assms(1)]
    by (auto simp: b_def NewHello_def NewWelcome_def zero_message_def Let_def)
  have pub: "idPublicKey ident = ed_public (idPrivateKey ident)" "idPeerID ident = DerivePeerID c (ed_public (idPrivateKey ident))"
    using assms(2) by (simp_all add: id_ok_def)
  have other: "v \<noteq> pm_localID m"
    using variant(2,3) me(1) assms(4) by (auto simp: id_ok_def DerivePeerID_def ToLower_hex_encode)
  obtain i where i: "mType msg = mType b" "identityFromHandshake uc c (he_now env) msg = Inr i" "pi_ID i = v"
    "pi_PublicKey i = idPublicKey ident"
    by (rule frame_accepted [OF assms(3), of b uc "he_sent_at env" "he_now env"])
       (use b pub variant(1,2) frame(1) [folded b_def] assms(6) in
         \<open>auto simp: PublicKeyHex_def simp del: Sign.simps\<close>)
  obtain wel hello where "make_welcome c env self nick' (wrap h inbound m) = Inr wel"
    "make_hello c env self nick' (wrap h inbound m) = Inr hello"
    using assms(5) by (auto simp: make_welcome_def make_hello_def key_ok_def Let_def simp del: SignBytes.simps)
  then have hs: "fst (handshake uc c env self nick' inbound (wrap h inbound m)) = Inr i"
    using i(1,2) b(1) frame(2) env(1) by (cases inbound) (simp_all add: handshake_def)
  show ?thesis
    by (rule handshake_registers [OF hs, unfolded i(3,4)]) (use other me env in auto)
qed

theorem peer_id_case_variant_witness:
  "let v = concat (replicate 32 ''6B'');
       msg = projr (Sign toy_crypto (replicate 64 CHR ''k'')
               (Some (NewHello (c_sha256 toy_crypto) sample_now [] v (PublicKeyHex (sample_ident CHR ''k'')) ''eve''))) in
   \<exists>es m'. HandshakeAndAdopt sample_uc toy_crypto
       ((sample_env (Some msg))\<lparr>he_tls_ok := True, he_peer_key := Some (Some (replicate 32 CHR ''k''))\<rparr>)
       (sample_ident CHR ''j'') ''bob'' True 1 (EnableTLS (SetMaxPeers 64 (sample_manager CHR ''j''))) = (Inr 1, es, m')
     \<and> Connected m' v"
proof -
  define v where "v = concat (replicate 32 ''6B'')"
  define msg where "msg = projr (Sign toy_crypto (replicate 64 CHR ''k'')
    (Some (NewHello (c_sha256 toy_crypto) sample_now [] v (PublicKeyHex (sample_ident CHR ''k'')) ''eve'')))"
  let ?env = "(sample_env (Some msg))\<lparr>he_tls_ok := True, he_peer_key := Some (Some (replicate 32 CHR ''k''))\<rparr>"
  have pid: "idPeerID (sample_ident CHR ''k'') = concat (replicate 32 ''6b'')"
    by (simp add: sample_ident_def DerivePeerID_def toy_crypto_def) code_simp
  have v: "length v = 64" "map lower_char v = concat (replicate 32 ''6b'')" "ascii v" "v \<noteq> concat (replicate 32 ''6b'')"
    unfolding v_def by code_simp+
  have "ToLower sample_uc v = idPeerID (sample_ident CHR ''k'')"
    using v pid by (simp add: ToLower_ascii)
  moreover have "Sign toy_crypto (idPrivateKey (sample_ident CHR ''k''))
      (Some ((if True then NewHello else NewWelcome) (c_sha256 toy_crypto) (he_sent_at ?env) [] v
        (PublicKeyHex (sample_ident CHR ''k'')) ''eve'')) = Inr msg"
    by (simp add: msg_def sample_ident_def PrivateKeySize_def Let_def)
  moreover have "idPublicKey (sample_ident CHR ''k'') = replicate 32 CHR ''k''"
    by (simp add: sample_ident_def)
  ultimately have "\<exists>es m'. HandshakeAndAdopt sample_uc toy_crypto ?env (sample_ident CHR ''j'') ''bob'' True 1
       (EnableTLS (SetMaxPeers 64 (sample_manager CHR ''j''))) = (Inr 1, es, m') \<and> Connected m' v
     \<and> (\<forall>p. p \<noteq> v \<longrightarrow> gm_get (pm_conns m') p
            = gm_get (pm_conns (EnableTLS (SetMaxPeers 64 (sample_manager CHR ''j'')))) p)"
    using v pid sample_clocks
    by (intro peer_id_case_variant [OF toy_sha sample_ident_ok [of "CHR ''k''"] sample_ident_ok [of "CHR ''j''"], of _ v sample_uc])
       (simp_all add: sample_manager_def NewPeerManager_def EnableTLS_def SetMaxPeers_def Len_peers_def gm_laws)
  then show ?thesis unfolding Let_def msg_def [symmetric] v_def [symmetric] by blast
qed

end
