(* ===== verification/Directory.thy ===== *)
theory Directory
  imports Netutil
begin

text \<open>
  \<^verbatim>\<open>src/internal/directory/directory.go\<close>: the table of known peers with the local aliases, and
  the file it is kept in. A nil \<^verbatim>\<open>*Directory\<close> is \<open>None\<close>. Loops that return the first hit
  of an iteration over the table take the iteration order. JSON encoding, the file system's
  answers and the rendering of the current time are arguments.
\<close>

section \<open>Records\<close>

record dir_record =
  dr_PeerID :: string
  dr_PublicKey :: string
  dr_Nickname :: string
  dr_Alias :: string
  dr_LastAddr :: string
  dr_ExtraAddrs :: "string list"
  dr_LastSeen :: string

definition new_record :: "string \<Rightarrow> dir_record" where
  "new_record peerID =
     \<lparr>dr_PeerID = peerID, dr_PublicKey = [], dr_Nickname = [], dr_Alias = [], dr_LastAddr = [],
      dr_ExtraAddrs = [], dr_LastSeen = []\<rparr>"

record directory =
  dd_path :: string
  dd_byID :: "(string, dir_record) gomap"
  dd_dirty :: bool

datatype dir_err =
    NoDirectory | DirRead | DirParse | DirMarshal | DirMkdir | DirWrite | DirRename
  | InvalidAlias | AliasUsed string | NoAlias | AmbiguousPrefix string | UnknownRecord string | NoSavedAddress string

section \<open>Files\<close>

text \<open>\<^verbatim>\<open>filepath.Join\<close> is the argument \<open>fjoin\<close>.\<close>

definition Path_dir :: "(string \<Rightarrow> string \<Rightarrow> string) \<Rightarrow> string \<Rightarrow> string" where
  "Path_dir fjoin dir = fjoin dir ''peers.json''"

definition New_dir :: "(string \<Rightarrow> string \<Rightarrow> string) \<Rightarrow> string \<Rightarrow> directory" where
  "New_dir fjoin dataDir = \<lparr>dd_path = Path_dir fjoin dataDir, dd_byID = gm_empty, dd_dirty = False\<rparr>"

definition load_record :: "dir_record \<Rightarrow> directory \<Rightarrow> directory" where
  "load_record rec d =
     (if dr_PeerID rec = [] then d else d\<lparr>dd_byID := gm_put (dr_PeerID rec) rec (dd_byID d)\<rparr>)"

definition Load_dir ::
  "(string \<Rightarrow> string \<Rightarrow> string) \<Rightarrow> (string \<Rightarrow> dir_record list option) \<Rightarrow> (string \<Rightarrow> file_read) \<Rightarrow> string
    \<Rightarrow> dir_err + directory" where
  "Load_dir fjoin unmarshal fs dataDir =
     (let d = New_dir fjoin dataDir in
      case fs (dd_path d) of
        FileMissing \<Rightarrow> Inr d
      | FileError \<Rightarrow> Inl DirRead
      | FileData raw \<Rightarrow>
          (case unmarshal raw of
             None \<Rightarrow> Inl DirParse
           | Some recs \<Rightarrow> Inr (fold load_record recs d)))"

text \<open>
  \<^verbatim>\<open>Save\<close>: the error, the directory, and the bytes now stored at the path when the file was
  replaced. The flags say whether the directory could be made, the temporary file written and
  renamed.
\<close>

definition markDirty :: "directory \<Rightarrow> directory" where
  "markDirty d = d\<lparr>dd_dirty := True\<rparr>"

fun Save_dir ::
  "(dir_record list \<Rightarrow> string option) \<Rightarrow> bool \<Rightarrow> bool \<Rightarrow> bool \<Rightarrow> directory option
    \<Rightarrow> dir_err option \<times> directory option \<times> string option" where
  "Save_dir marshal mk wr rn None = (None, None, None)"
| "Save_dir marshal mk wr rn (Some d) =
     (if \<not> dd_dirty d then (None, Some d, None)
      else
        (let recs = sort_key dr_PeerID (map snd (dd_byID d)); d1 = d\<lparr>dd_dirty := False\<rparr> in
         case marshal recs of
           None \<Rightarrow> (Some DirMarshal, Some (markDirty d1), None)
         | Some data \<Rightarrow>
             if \<not> mk then (Some DirMkdir, Some (markDirty d1), None)
             else if \<not> wr then (Some DirWrite, Some (markDirty d1), None)
             else if \<not> rn then (Some DirRename, Some (markDirty d1), None)
             else (None, Some d1, Some (data @ [CHR 0x0A]))))"

section \<open>Aliases\<close>

definition ContainsAny :: "string \<Rightarrow> string \<Rightarrow> bool" where
  "ContainsAny s chars \<longleftrightarrow> (\<exists>c \<in> set s. c \<in> set chars)"

definition ValidAlias :: "string \<Rightarrow> bool" where
  "ValidAlias s0 =
     (let s = TrimSpace s0 in
      if s = [] \<or> RuneCount s > 32 then False
      else if ContainsAny s ''.:/@#'' then False
      else (\<forall>r \<in> set (runes s). \<not> (r < 32 \<or> r = 127)))"

definition ensureLocked :: "string \<Rightarrow> directory \<Rightarrow> directory" where
  "ensureLocked peerID d =
     (if gm_has (dd_byID d) peerID then d
      else d\<lparr>dd_byID := gm_put peerID (new_record peerID) (dd_byID d)\<rparr>)"

definition on_record :: "string \<Rightarrow> (dir_record \<Rightarrow> dir_record) \<Rightarrow> directory \<Rightarrow> directory" where
  "on_record peerID f d =
     (case gm_get (dd_byID d) peerID of
        None \<Rightarrow> d
      | Some rec \<Rightarrow> d\<lparr>dd_byID := gm_put peerID (f rec) (dd_byID d)\<rparr>)"

fun Observe ::
  "string \<Rightarrow> string \<Rightarrow> string \<Rightarrow> string \<Rightarrow> string \<Rightarrow> string list \<Rightarrow> directory option \<Rightarrow> directory option" where
  "Observe now peerID pubHex nick addr extra None = None"
| "Observe now peerID pubHex nick addr extra (Some d) =
     (if peerID = [] then Some d
      else
        Some ((on_record peerID
          (\<lambda>rec. rec\<lparr>dr_PublicKey := (if pubHex \<noteq> [] then pubHex else dr_PublicKey rec),
             dr_Nickname := (if nick \<noteq> [] then nick else dr_Nickname rec),
             dr_LastAddr := (if addr \<noteq> [] then addr else dr_LastAddr rec),
             dr_ExtraAddrs := (if extra \<noteq> [] then SanitizeAddrs (dr_ExtraAddrs rec @ extra) 8 else dr_ExtraAddrs rec),
             dr_LastSeen := now\<rparr>)
          (ensureLocked peerID d))\<lparr>dd_dirty := True\<rparr>))"

fun id_by_alias :: "unicode \<Rightarrow> (string, dir_record) gomap \<Rightarrow> string list \<Rightarrow> string \<Rightarrow> string" where
  "id_by_alias uc byID [] alias = []"
| "id_by_alias uc byID (p # ps) alias =
     (case gm_get byID p of
        None \<Rightarrow> id_by_alias uc byID ps alias
      | Some rec \<Rightarrow>
          if dr_Alias rec \<noteq> [] \<and> EqualFold uc (dr_Alias rec) alias then p else id_by_alias uc byID ps alias)"

definition idByAliasLocked :: "unicode \<Rightarrow> string list \<Rightarrow> string \<Rightarrow> directory \<Rightarrow> string" where
  "idByAliasLocked uc order alias d = id_by_alias uc (dd_byID d) order alias"

fun SetAlias ::
  "unicode \<Rightarrow> string list \<Rightarrow> string \<Rightarrow> string \<Rightarrow> directory option \<Rightarrow> dir_err option \<times> directory option" where
  "SetAlias uc order peerID alias0 None = (Some NoDirectory, None)"
| "SetAlias uc order peerID alias0 (Some d) =
     (let alias = TrimSpace alias0 in
      if \<not> ValidAlias alias then (Some InvalidAlias, Some d)
      else
        (let existing = idByAliasLocked uc order alias d in
         if existing \<noteq> [] \<and> existing \<noteq> peerID then (Some (AliasUsed (take 8 existing)), Some d)
         else
           (None, Some ((on_record peerID (\<lambda>rec. rec\<lparr>dr_Alias := alias\<rparr>) (ensureLocked peerID d))
              \<lparr>dd_dirty := True\<rparr>))))"

section \<open>Lookup\<close>

fun prefix_scan :: "string \<Rightarrow> (string, dir_record) gomap \<Rightarrow> string list \<Rightarrow> string option \<Rightarrow> dir_err + string option" where
  "prefix_scan key byID [] found = Inr found"
| "prefix_scan key byID (p # ps) found =
     (if length key \<ge> 4 \<and> HasPrefix p key
      then (if found \<noteq> None then Inl (AmbiguousPrefix key) else prefix_scan key byID ps (Some p))
      else prefix_scan key byID ps found)"

text \<open>The key of the record \<^verbatim>\<open>lookupLocked\<close> returns a pointer to; \<open>order1\<close> and \<open>order2\<close> are its two iterations.\<close>

definition lookupLocked :: "unicode \<Rightarrow> string list \<Rightarrow> string list \<Rightarrow> string \<Rightarrow> directory \<Rightarrow> dir_err + string" where
  "lookupLocked uc order1 order2 key0 d =
     (let key = TrimSpace key0 in
      if gm_has (dd_byID d) key then Inr key
      else
        (let p = idByAliasLocked uc order1 key d in
         if p \<noteq> [] then Inr p
         else
           (case prefix_scan key (dd_byID d) order2 None of
              Inl e \<Rightarrow> Inl e
            | Inr (Some q) \<Rightarrow> Inr q
            | Inr None \<Rightarrow> Inl (UnknownRecord key))))"

fun ClearAlias ::
  "unicode \<Rightarrow> string list \<Rightarrow> string list \<Rightarrow> string \<Rightarrow> directory option \<Rightarrow> dir_err option \<times> directory option" where
  "ClearAlias uc order1 order2 key None = (Some NoDirectory, None)"
| "ClearAlias uc order1 order2 key (Some d) =
     (case lookupLocked uc order1 order2 key d of
        Inl e \<Rightarrow> (Some e, Some d)
      | Inr p \<Rightarrow>
          (case gm_get (dd_byID d) p of
             None \<Rightarrow> (Some (UnknownRecord key), Some d)
           | Some rec \<Rightarrow>
               if dr_Alias rec = [] then (Some NoAlias, Some d)
               else (None, Some ((on_record p (\<lambda>r. r\<lparr>dr_Alias := []\<rparr>) d)\<lparr>dd_dirty := True\<rparr>))))"

fun Alias :: "string \<Rightarrow> directory option \<Rightarrow> string" where
  "Alias peerID None = []"
| "Alias peerID (Some d) = (case gm_get (dd_byID d) peerID of None \<Rightarrow> [] | Some rec \<Rightarrow> dr_Alias rec)"

definition DisplayName :: "string \<Rightarrow> string \<Rightarrow> directory option \<Rightarrow> string" where
  "DisplayName peerID nickname d =
     (let a = Alias peerID d in
      if a \<noteq> [] then a
      else if nickname \<noteq> [] then nickname
      else if length peerID \<ge> 8 then take 8 peerID else peerID)"

fun Lookup_dir :: "unicode \<Rightarrow> string list \<Rightarrow> string list \<Rightarrow> string \<Rightarrow> directory option \<Rightarrow> dir_err + dir_record" where
  "Lookup_dir uc order1 order2 key None = Inl NoDirectory"
| "Lookup_dir uc order1 order2 key (Some d) =
     (case lookupLocked uc order1 order2 key d of
        Inl e \<Rightarrow> Inl e
      | Inr p \<Rightarrow> (case gm_get (dd_byID d) p of None \<Rightarrow> Inl (UnknownRecord key) | Some rec \<Rightarrow> Inr rec))"

definition AddrsFor :: "unicode \<Rightarrow> string list \<Rightarrow> string list \<Rightarrow> string \<Rightarrow> directory option \<Rightarrow> dir_err + string list" where
  "AddrsFor uc order1 order2 key d =
     (case Lookup_dir uc order1 order2 key d of
        Inl e \<Rightarrow> Inl e
      | Inr rec \<Rightarrow>
          (let out = SanitizeAddrs (dr_LastAddr rec # dr_ExtraAddrs rec) 8 in
           if out = [] then Inl (NoSavedAddress (DisplayName (dr_PeerID rec) (dr_Nickname rec) d)) else Inr out))"

definition AddrFor :: "unicode \<Rightarrow> string list \<Rightarrow> string list \<Rightarrow> string \<Rightarrow> directory option \<Rightarrow> dir_err + string" where
  "AddrFor uc order1 order2 key d =
     (case AddrsFor uc order1 order2 key d of Inl e \<Rightarrow> Inl e | Inr addrs \<Rightarrow> Inr (addrs ! 0))"

text \<open>The order of \<^verbatim>\<open>List\<close>: aliased records first, by alias, then by peer id.\<close>

definition rec_less :: "unicode \<Rightarrow> dir_record \<Rightarrow> dir_record \<Rightarrow> bool" where
  "rec_less uc i j =
     (let ai = ToLower uc (dr_Alias i); aj = ToLower uc (dr_Alias j) in
      if ai \<noteq> aj then (if ai = [] then False else if aj = [] then True else ai < aj)
      else dr_PeerID i < dr_PeerID j)"

definition List_dir :: "unicode \<Rightarrow> directory option \<Rightarrow> dir_record list" where
  "List_dir uc d = (case d of None \<Rightarrow> [] | Some x \<Rightarrow> sort_by (rec_less uc) (map snd (dd_byID x)))"

definition ReconnectTargets :: "unicode \<Rightarrow> directory option \<Rightarrow> dir_record list" where
  "ReconnectTargets uc d = filter (\<lambda>rec. dr_LastAddr rec \<noteq> [] \<or> dr_ExtraAddrs rec \<noteq> []) (List_dir uc d)"

section \<open>Histories\<close>

datatype dir_op =
    DObserve string string string string string "string list"
  | DSetAlias "string list" string string
  | DClearAlias "string list" "string list" string

fun dir_step :: "unicode \<Rightarrow> dir_op \<Rightarrow> directory \<Rightarrow> directory" where
  "dir_step uc (DObserve now p pub nick addr extra) d = the (Observe now p pub nick addr extra (Some d))"
| "dir_step uc (DSetAlias order p alias) d = the (snd (SetAlias uc order p alias (Some d)))"
| "dir_step uc (DClearAlias o1 o2 key) d = the (snd (ClearAlias uc o1 o2 key (Some d)))"

fun dir_op_ok :: "dir_op \<Rightarrow> directory \<Rightarrow> bool" where
  "dir_op_ok (DSetAlias order p alias) d = (range_order (dd_byID d) order \<and> p \<noteq> [])"
| "dir_op_ok op d = True"

abbreviation dir_ops_ok :: "unicode \<Rightarrow> dir_op list \<Rightarrow> directory \<Rightarrow> bool" where
  "dir_ops_ok uc \<equiv> ops_ok (dir_step uc) dir_op_ok"

definition dir_inv :: "unicode \<Rightarrow> directory \<Rightarrow> bool" where
  "dir_inv uc d \<longleftrightarrow>
     gm_wf (dd_byID d)
     \<and> (\<forall>p rec. gm_get (dd_byID d) p = Some rec \<longrightarrow> p \<noteq> [] \<and> dr_PeerID rec = p
          \<and> (dr_Alias rec \<noteq> [] \<longrightarrow> ValidAlias (dr_Alias rec)))
     \<and> (\<forall>p q r s. gm_get (dd_byID d) p = Some r \<longrightarrow> gm_get (dd_byID d) q = Some s \<longrightarrow>
          dr_Alias r \<noteq> [] \<longrightarrow> dr_Alias s \<noteq> [] \<longrightarrow> EqualFold uc (dr_Alias r) (dr_Alias s) \<longrightarrow> p = q)"

section \<open>The invariant\<close>

lemma EqualFold_trans: "EqualFold uc a b \<Longrightarrow> EqualFold uc c b \<Longrightarrow> EqualFold uc a c"
  by (simp add: EqualFold_def)

lemma id_by_alias_hit:
  "id_by_alias uc byID ps alias \<noteq> [] \<Longrightarrow>
   \<exists>rec. gm_get byID (id_by_alias uc byID ps alias) = Some rec \<and> dr_Alias rec \<noteq> []
     \<and> EqualFold uc (dr_Alias rec) alias"
  by (induction ps) (auto split: option.splits if_splits)

lemma id_by_alias_miss:
  "id_by_alias uc byID ps alias = [] \<Longrightarrow> [] \<notin> set ps \<Longrightarrow> q \<in> set ps \<Longrightarrow> gm_get byID q = Some rec \<Longrightarrow>
   dr_Alias rec \<noteq> [] \<Longrightarrow> \<not> EqualFold uc (dr_Alias rec) alias"
  by (induction ps) (auto split: option.splits if_splits)

lemma dir_inv_put:
  assumes "dir_inv uc d" "p \<noteq> []" "dr_PeerID r = p" "dr_Alias r \<noteq> [] \<Longrightarrow> ValidAlias (dr_Alias r)"
    and "\<And>q s. dr_Alias r \<noteq> [] \<Longrightarrow> q \<noteq> p \<Longrightarrow> gm_get (dd_byID d) q = Some s \<Longrightarrow> dr_Alias s \<noteq> [] \<Longrightarrow>
      \<not> EqualFold uc (dr_Alias s) (dr_Alias r)"
  shows "dir_inv uc (d\<lparr>dd_byID := gm_put p r (dd_byID d), dd_dirty := b\<rparr>)"
proof -
  have sym: "EqualFold uc a b = EqualFold uc b a" for a b by (auto simp: EqualFold_def)
  show ?thesis
    using assms unfolding dir_inv_def by (auto simp: gm_laws sym split: if_splits)
qed

lemma dir_inv_dirty: "dir_inv uc (d\<lparr>dd_dirty := b\<rparr>) = dir_inv uc d"
  by (simp add: dir_inv_def)

lemma dir_inv_ensure: "dir_inv uc d \<Longrightarrow> p \<noteq> [] \<Longrightarrow> dir_inv uc (ensureLocked p d)"
  using dir_inv_put [of uc d p "new_record p" "dd_dirty d"] by (simp add: ensureLocked_def new_record_def)

lemma get_ensure:
  "gm_get (dd_byID (ensureLocked p d)) q =
     (if q = p then (case gm_get (dd_byID d) p of None \<Rightarrow> Some (new_record p) | Some r \<Rightarrow> Some r)
      else gm_get (dd_byID d) q)"
  by (auto simp: ensureLocked_def gm_has_def gm_laws split: option.split)

lemma dir_step_inv [inv_intros]:
  assumes inv: "dir_inv uc d" and ok: "dir_op_ok op d"
  shows "dir_inv uc (dir_step uc op d)"
proof (cases op)
  case (DObserve now p pub nick addr extra)
  show ?thesis
  proof (cases "p = []")
    case False
    let ?d = "ensureLocked p d"
    have e: "dir_inv uc ?d" using inv False by (rule dir_inv_ensure)
    obtain r where r: "gm_get (dd_byID ?d) p = Some r"
      by (cases "gm_get (dd_byID d) p") (auto simp: get_ensure)
    have old: "dr_PeerID r = p" "dr_Alias r \<noteq> [] \<Longrightarrow> ValidAlias (dr_Alias r)"
      "\<And>q s. dr_Alias r \<noteq> [] \<Longrightarrow> q \<noteq> p \<Longrightarrow> gm_get (dd_byID ?d) q = Some s \<Longrightarrow> dr_Alias s \<noteq> [] \<Longrightarrow>
        \<not> EqualFold uc (dr_Alias s) (dr_Alias r)"
      using e r unfolding dir_inv_def by blast+
    have upd: "dir_inv uc (?d\<lparr>dd_byID := gm_put p r' (dd_byID ?d), dd_dirty := True\<rparr>)"
      if "dr_PeerID r' = dr_PeerID r" "dr_Alias r' = dr_Alias r" for r'
      using dir_inv_put [OF e False, of r' True] old that by auto
    show ?thesis
      using DObserve False r by (simp add: on_record_def upd)
  qed (use DObserve inv in \<open>simp\<close>)
next
  case (DSetAlias order p al)
  let ?a = "TrimSpace al" and ?d = "ensureLocked p d"
  let ?ex = "idByAliasLocked uc order ?a d"
  show ?thesis
  proof (cases "ValidAlias ?a \<and> (?ex = [] \<or> ?ex = p)")
    case True
    have p: "p \<noteq> []" and ord: "set order = dom (gm_get (dd_byID d))"
      using ok DSetAlias range_order_set by auto
    have e: "dir_inv uc ?d" using inv p by (rule dir_inv_ensure)
    obtain r where r: "gm_get (dd_byID ?d) p = Some r"
      by (cases "gm_get (dd_byID d) p") (auto simp: get_ensure)
    then have pid: "dr_PeerID r = p" using e unfolding dir_inv_def by blast
    have ne: "[] \<notin> set order" using inv ord unfolding dir_inv_def by blast
    have clash: "\<not> EqualFold uc (dr_Alias s) ?a"
      if q: "q \<noteq> p" "gm_get (dd_byID ?d) q = Some s" "dr_Alias s \<noteq> []" for q s
    proof
      assume eq: "EqualFold uc (dr_Alias s) ?a"
      have qd: "gm_get (dd_byID d) q = Some s" "q \<in> set order" using q ord by (auto simp: get_ensure)
      then have "?ex \<noteq> []"
        using id_by_alias_miss [OF _ ne qd(2,1) q(3)] eq by (auto simp: idByAliasLocked_def)
      then have "?ex = p" "\<exists>t. gm_get (dd_byID d) p = Some t \<and> dr_Alias t \<noteq> [] \<and> EqualFold uc (dr_Alias t) ?a"
        using True id_by_alias_hit [of uc "dd_byID d" order ?a] by (auto simp: idByAliasLocked_def)
      then obtain t where t: "gm_get (dd_byID d) p = Some t" "dr_Alias t \<noteq> []" "EqualFold uc (dr_Alias t) ?a" by blast
      then show False
        using inv qd(1) q(1,3) EqualFold_trans [OF eq t(3)] unfolding dir_inv_def by blast
    qed
    have "?a \<noteq> []" using True by (auto simp: ValidAlias_def Let_def)
    then have "dir_inv uc (?d\<lparr>dd_byID := gm_put p (r\<lparr>dr_Alias := ?a\<rparr>) (dd_byID ?d), dd_dirty := True\<rparr>)"
      using True pid p clash by (intro dir_inv_put e) auto
    then show ?thesis using DSetAlias True r by (auto simp: on_record_def Let_def)
  qed (use DSetAlias inv in \<open>auto simp: Let_def\<close>)
next
  case (DClearAlias o1 o2 key)
  have "dir_inv uc (d\<lparr>dd_byID := gm_put p (r\<lparr>dr_Alias := []\<rparr>) (dd_byID d), dd_dirty := True\<rparr>)"
    if "gm_get (dd_byID d) p = Some r" for p r
    using inv that by (intro dir_inv_put) (auto simp: dir_inv_def)
  then show ?thesis
    using DClearAlias inv by (auto simp: on_record_def split: sum.split option.split)
qed

interpretation dirs: component "dir_step uc" dir_op_ok "dir_inv uc" for uc
  by unfold_locales (rule dir_step_inv)

section \<open>Lookup does not depend on the iteration order\<close>

lemma id_by_alias_order:
  assumes inv: "dir_inv uc d" and o: "range_order (dd_byID d) o1" "range_order (dd_byID d) o2"
  shows "idByAliasLocked uc o1 alias d = idByAliasLocked uc o2 alias d"
proof -
  have dom: "set o1 = dom (gm_get (dd_byID d))" "set o2 = dom (gm_get (dd_byID d))"
    using o range_order_set by blast+
  then have ne: "[] \<notin> set o1" "[] \<notin> set o2"
    using inv unfolding dir_inv_def by blast+
  have one: "id_by_alias uc (dd_byID d) oa alias = id_by_alias uc (dd_byID d) ob alias"
    if a: "id_by_alias uc (dd_byID d) oa alias \<noteq> []" and nb: "[] \<notin> set ob"
      and s: "set ob = dom (gm_get (dd_byID d))" for oa ob
  proof -
    obtain r where r: "gm_get (dd_byID d) (id_by_alias uc (dd_byID d) oa alias) = Some r" "dr_Alias r \<noteq> []"
      "EqualFold uc (dr_Alias r) alias"
      using id_by_alias_hit [OF a] by blast
    then have "id_by_alias uc (dd_byID d) ob alias \<noteq> []"
      using id_by_alias_miss [OF _ nb _ r(1,2)] s by blast
    then obtain t where "gm_get (dd_byID d) (id_by_alias uc (dd_byID d) ob alias) = Some t" "dr_Alias t \<noteq> []"
      "EqualFold uc (dr_Alias t) alias"
      using id_by_alias_hit by blast
    then show ?thesis using inv r EqualFold_trans unfolding dir_inv_def by blast
  qed
  show ?thesis
    using one [of o1 o2] one [of o2 o1] ne dom unfolding idByAliasLocked_def by metis
qed

lemma prefix_scan_spec:
  "prefix_scan key byID ps found =
     (case (found, filter (\<lambda>p. length key \<ge> 4 \<and> HasPrefix p key) ps) of
        (x, []) \<Rightarrow> Inr x | (None, [p]) \<Rightarrow> Inr (Some p) | _ \<Rightarrow> Inl (AmbiguousPrefix key))"
  by (induction ps arbitrary: found) (auto split: option.split list.split)

lemma prefix_scan_order:
  assumes "distinct o1" "distinct o2" "set o1 = set o2"
  shows "prefix_scan key byID o1 None = prefix_scan key byID o2 None"
proof -
  let ?f = "filter (\<lambda>p. length key \<ge> 4 \<and> HasPrefix p key)"
  have set: "set (?f o1) = set (?f o2)" and d: "distinct (?f o1)" "distinct (?f o2)"
    using assms by simp_all
  then have len: "length (?f o1) = length (?f o2)" by (metis distinct_card)
  have "?f o1 = ?f o2" if "length (?f o1) \<le> 1"
  proof (cases "?f o1")
    case (Cons x xs)
    have "length (?f o2) \<le> 1" "?f o2 \<noteq> []" using that len Cons by (simp, metis list.distinct(1) length_0_conv)
    moreover have "?f o1 = [x]" using that Cons by simp
    moreover obtain y where "?f o2 = [y]" using calculation length_le_1_cases [of "?f o2"] by blast
    ultimately show ?thesis using set by (metis list.set(1,2) singleton_insert_inj_eq)
  qed (use len in \<open>simp\<close>)
  then show ?thesis
    unfolding prefix_scan_spec using len by (auto split: list.split)
qed

lemma lookup_order:
  assumes "dir_inv uc d"
    and "range_order (dd_byID d) o1" "range_order (dd_byID d) o2" "range_order (dd_byID d) o1'" "range_order (dd_byID d) o2'"
  shows "lookupLocked uc o1 o2 key d = lookupLocked uc o1' o2' key d"
proof -
  have "prefix_scan k (dd_byID d) o2 None = prefix_scan k (dd_byID d) o2' None" for k
    using assms(3,5) by (intro prefix_scan_order) (auto simp: range_order_def)
  then show ?thesis
    unfolding lookupLocked_def Let_def id_by_alias_order [OF assms(1,2,4)] by simp
qed

section \<open>Loading what was saved\<close>

lemma fold_load_record:
  assumes "distinct (map dr_PeerID recs)" "\<And>r. r \<in> set recs \<Longrightarrow> dr_PeerID r \<noteq> []"
  shows "gm_get (dd_byID (fold load_record recs d)) p =
    (case map_of (map (\<lambda>r. (dr_PeerID r, r)) recs) p of Some r \<Rightarrow> Some r | None \<Rightarrow> gm_get (dd_byID d) p)"
  using assms
proof (induction recs arbitrary: d)
  case (Cons r recs)
  have "map_of (map (\<lambda>r. (dr_PeerID r, r)) recs) (dr_PeerID r) = None"
    using Cons.prems(1) by (auto simp: map_of_eq_None_iff image_iff)
  then show ?case
    using Cons by (auto simp: load_record_def gm_laws split: option.split)
qed simp

lemma fold_load_frame: "dd_path (fold load_record recs d) = dd_path d \<and> dd_dirty (fold load_record recs d) = dd_dirty d"
  by (induction recs arbitrary: d) (auto simp: load_record_def)

lemma inv_entries:
  assumes "dir_inv uc d"
  shows "(p, r) \<in> set (dd_byID d) \<longleftrightarrow> gm_get (dd_byID d) p = Some r"
    and "(p, r) \<in> set (dd_byID d) \<Longrightarrow> dr_PeerID r = p \<and> p \<noteq> []"
proof -
  have wf: "gm_wf (dd_byID d)" using assms by (simp add: dir_inv_def)
  show g: "(p, r) \<in> set (dd_byID d) \<longleftrightarrow> gm_get (dd_byID d) p = Some r" for p r
    using gm_get_eq_Some [OF wf] by auto
  show "(p, r) \<in> set (dd_byID d) \<Longrightarrow> dr_PeerID r = p \<and> p \<noteq> []"
    using assms g unfolding dir_inv_def by blast
qed

lemma saved_records:
  assumes "dir_inv uc d"
  defines "recs \<equiv> sort_key dr_PeerID (map snd (dd_byID d))"
  shows "distinct (map dr_PeerID recs)" "\<And>r. r \<in> set recs \<Longrightarrow> dr_PeerID r \<noteq> []"
    "map_of (map (\<lambda>r. (dr_PeerID r, r)) recs) = gm_get (dd_byID d)"
proof -
  have ids: "map dr_PeerID (map snd (dd_byID d)) = map fst (dd_byID d)"
    using inv_entries(2) [OF assms(1)] by auto
  have "distinct (map dr_PeerID (map snd (dd_byID d)))"
    unfolding ids using assms(1) by (simp add: dir_inv_def gm_wf_def)
  then have "inj_on dr_PeerID (set (map snd (dd_byID d)))" "distinct (map snd (dd_byID d))"
    using distinct_map by blast+
  then show d: "distinct (map dr_PeerID recs)" by (simp add: recs_def distinct_map)
  show "\<And>r. r \<in> set recs \<Longrightarrow> dr_PeerID r \<noteq> []"
    using inv_entries(2) [OF assms(1)] by (auto simp: recs_def)
  show "map_of (map (\<lambda>r. (dr_PeerID r, r)) recs) = gm_get (dd_byID d)"
  proof
    fix p
    have "distinct (map fst (map (\<lambda>r. (dr_PeerID r, r)) recs))" using d by (simp add: comp_def)
    then have "map_of (map (\<lambda>r. (dr_PeerID r, r)) recs) p = Some r \<longleftrightarrow> gm_get (dd_byID d) p = Some r" for r
      unfolding map_of_eq_Some_iff [OF \<open>distinct (map fst _)\<close>] inv_entries(1) [OF assms(1), symmetric]
      using inv_entries(2) [OF assms(1)] by (auto simp: recs_def image_iff) force
    then show "map_of (map (\<lambda>r. (dr_PeerID r, r)) recs) p = gm_get (dd_byID d) p"
      by (metis option.exhaust)
  qed
qed

section \<open>Properties\<close>

text \<open>
  C33. Aliases name one peer. After any history of observations and alias changes on a new directory no
  two peers have aliases that are equal up to letter case, every alias is a valid one, and looking
  a key up (exact id, then alias, then unique id prefix) gives the same answer whatever order the
  table is iterated in.
\<close>

theorem alias_unique:
  assumes "dir_ops_ok uc ops (New_dir fjoin dataDir)" "d = fold (dir_step uc) ops (New_dir fjoin dataDir)"
    and "range_order (dd_byID d) o1" "range_order (dd_byID d) o2" "range_order (dd_byID d) o1'" "range_order (dd_byID d) o2'"
  shows "dir_inv uc d \<and> Lookup_dir uc o1 o2 key (Some d) = Lookup_dir uc o1' o2' key (Some d)"
proof -
  have "dir_inv uc (New_dir fjoin dataDir)" by (simp add: dir_inv_def New_dir_def gm_laws)
  then have inv: "dir_inv uc d" using dirs.history_keeps assms(1,2) by simp
  then show ?thesis using lookup_order [OF inv assms(3-6)] by simp
qed

theorem alias_unique_witness:
  "let uc = \<lparr>uc_lower = id, uc_fold = id\<rparr>; p = ''aabb1''; q = ''aabb2'';
       d = fold (dir_step uc) [DObserve ''t'' p [] [] [] [], DObserve ''t'' q [] [] [] [], DSetAlias [q, p] p ''Bob'']
             (New_dir (@) ''data'') in
   dir_inv uc d \<and> Lookup_dir uc [p, q] [q, p] ''bob'' (Some d) = Lookup_dir uc [q, p] [p, q] ''bob'' (Some d)"
proof -
  let ?uc = "\<lparr>uc_lower = id, uc_fold = id\<rparr>" and ?p = "''aabb1''" and ?q = "''aabb2''"
  let ?ops = "[DObserve ''t'' ?p [] [] [] [], DObserve ''t'' ?q [] [] [] [], DSetAlias [?q, ?p] ?p ''Bob'']"
  define d where "d = fold (dir_step ?uc) ?ops (New_dir (@) ''data'')"
  have keys: "gm_keys (dd_byID d) = [?p, ?q]"
    by (simp add: d_def New_dir_def ensureLocked_def on_record_def gm_has_def gm_get_def gm_put_def gm_empty_def
        gm_keys_def new_record_def Let_def)
  have ok: "dir_ops_ok ?uc ?ops (New_dir (@) ''data'')"
    by (simp add: New_dir_def ensureLocked_def on_record_def gm_has_def gm_get_def gm_put_def gm_empty_def
        gm_keys_def range_order_def insert_commute del: set_gm_keys)
  have ord: "range_order (dd_byID d) [?p, ?q]" "range_order (dd_byID d) [?q, ?p]"
    unfolding range_order_def keys by auto
  show ?thesis
    using alias_unique [OF ok d_def ord(1,2,2,1), of "''bob''"] unfolding Let_def d_def .
qed

text \<open>
  C34. What Save writes, Load reads back: when the JSON text of the records parses to the same records,
  saving a changed directory clears its dirty flag, and loading the file gives a directory with
  exactly the same record for every peer id.
\<close>

theorem save_load_roundtrip:
  assumes "dir_inv uc d" "dd_dirty d" "dd_path d = Path_dir fjoin dataDir"
    and json: "marshal (sort_key dr_PeerID (map snd (dd_byID d))) = Some data"
      "unmarshal (data @ [CHR 0x0A]) = Some (sort_key dr_PeerID (map snd (dd_byID d)))"
    and saved: "Save_dir marshal True True True (Some d) = (err, d1, Some bytes)" "fs (dd_path d) = FileData bytes"
  shows "err = None \<and> d1 = Some (d\<lparr>dd_dirty := False\<rparr>)
    \<and> (\<exists>d2. Load_dir fjoin unmarshal fs dataDir = Inr d2 \<and> gm_get (dd_byID d2) = gm_get (dd_byID d)
         \<and> dd_path d2 = dd_path d \<and> \<not> dd_dirty d2)"
proof -
  let ?recs = "sort_key dr_PeerID (map snd (dd_byID d))"
  have sv: "err = None" "d1 = Some (d\<lparr>dd_dirty := False\<rparr>)" "bytes = data @ [CHR 0x0A]"
    using saved(1) assms(2) json(1) by (simp_all add: Let_def)
  let ?d2 = "fold load_record ?recs (New_dir fjoin dataDir)"
  have "Load_dir fjoin unmarshal fs dataDir = Inr ?d2"
    using saved(2) sv(3) json(2) assms(3) by (simp add: Load_dir_def New_dir_def)
  moreover have "gm_get (dd_byID ?d2) = gm_get (dd_byID d)"
    using fold_load_record [OF saved_records(1,2) [OF assms(1)], of "New_dir fjoin dataDir"] saved_records(3) [OF assms(1)]
    by (auto simp: New_dir_def gm_laws fun_eq_iff split: option.split)
  ultimately show ?thesis
    using sv fold_load_frame [of ?recs "New_dir fjoin dataDir"] assms(3) by (simp add: New_dir_def)
qed

theorem save_load_roundtrip_witness:
  "\<exists>d2. Load_dir (@) (\<lambda>s. if s = ''{}'' @ [CHR 0x0A] then Some [new_record ''p''] else None)
        (\<lambda>p. FileData (''{}'' @ [CHR 0x0A])) ''data'' = Inr d2
     \<and> gm_get (dd_byID d2) = gm_get [(''p'', new_record ''p'')]"
proof -
  let ?d = "\<lparr>dd_path = Path_dir (@) ''data'', dd_byID = [(''p'', new_record ''p'')], dd_dirty = True\<rparr>"
  have "dir_inv \<lparr>uc_lower = id, uc_fold = id\<rparr> ?d"
    by (auto simp: dir_inv_def gm_wf_def gm_get_def new_record_def split: if_splits)
  from save_load_roundtrip [OF this, of "(@)" "''data''" "\<lambda>_. Some ''{}''" "''{}''"
      "\<lambda>s. if s = ''{}'' @ [CHR 0x0A] then Some [new_record ''p''] else None" None _ "''{}'' @ [CHR 0x0A]"
      "\<lambda>p. FileData (''{}'' @ [CHR 0x0A])"]
  show ?thesis by (auto simp: Let_def)
qed

end
