(* ===== verification/Discovery.thy ===== *)
theory Discovery
  imports Protocol Identity Netutil
begin

text \<open>
  \<^verbatim>\<open>src/internal/discovery/discovery.go\<close>: signed LAN announcements and the table of the
  neighbours that were heard. The UDP socket is reduced to whether it is open; one turn of the read
  loop is \<open>handle_datagram\<close>, which takes the decoded datagram (\<open>None\<close> when JSON decoding
  failed), the sender's IPv4 address and the clock readings. The eviction loop is a
  \<open>partial_function\<close>, so that it returns is proved and not built in; each of its
  iterations over the table uses an order given by \<open>pick\<close>.
\<close>

section \<open>Announcements\<close>

record announcement =
  an_Type :: string
  an_Version :: int
  an_PeerID :: string
  an_PublicKey :: string
  an_Nickname :: string
  an_Port :: int
  an_TLS :: bool
  an_Timestamp :: "64 word"
  an_Signature :: string
  an_Addr :: string
  an_Seen :: int
  an_Verified :: bool

definition signBytes :: "announcement \<Rightarrow> string" where
  "signBytes a =
     Join [an_Type a, FormatInt (an_Version a), an_PeerID a, an_PublicKey a, an_Nickname a, FormatInt (an_Port a),
       if an_TLS a then ''1'' else ''0'', FormatInt (sint (an_Timestamp a))] [CHR 0x0A]"

text \<open>\<^verbatim>\<open>ed25519.Sign\<close> panics on a key of another size: \<open>None\<close>.\<close>

definition Sign_ann :: "crypto \<Rightarrow> string \<Rightarrow> announcement \<Rightarrow> announcement option" where
  "Sign_ann c priv a =
     (if length priv \<noteq> PrivateKeySize then None
      else
        (let a1 = (if an_PublicKey a = [] then a\<lparr>an_PublicKey := hex_encode (ed_public priv)\<rparr> else a) in
         Some (a1\<lparr>an_Signature := hex_encode (c_sign c priv (signBytes a1))\<rparr>)))"

datatype ann_err = AnnUnsigned | AnnBadKey | AnnIDMismatch | AnnBadSignature | AnnInvalidSignature | AnnWindow

definition Verify_ann :: "unicode \<Rightarrow> crypto \<Rightarrow> int \<Rightarrow> announcement \<Rightarrow> ann_err option" where
  "Verify_ann uc c clock a =
     (if an_Signature a = [] \<or> an_PublicKey a = [] then Some AnnUnsigned
      else
        (case hex_decode (an_PublicKey a) of
           None \<Rightarrow> Some AnnBadKey
         | Some pub \<Rightarrow>
             if length pub \<noteq> PublicKeySize then Some AnnBadKey
             else if hex_encode (c_sha256 c pub) \<noteq> ToLower uc (an_PeerID a) then Some AnnIDMismatch
             else
               (case hex_decode (an_Signature a) of
                  None \<Rightarrow> Some AnnBadSignature
                | Some sig \<Rightarrow>
                    if length sig \<noteq> SignatureSize then Some AnnBadSignature
                    else if \<not> c_verify c pub (signBytes a) sig then Some AnnInvalidSignature
                    else if 0 <s an_Timestamp a then
                      (let now = unix_of clock in
                       if now + 120 <s an_Timestamp a \<or> an_Timestamp a <s now - 300 then Some AnnWindow else None)
                    else None)))"

section \<open>The service\<close>

text \<open>
  \<open>ds_conn\<close> says whether \<^verbatim>\<open>Start\<close> opened the socket (it sets the group address with it),
  \<open>ds_onPeer\<close> whether a callback is set; its calls are recorded in the result of
  \<open>handle_datagram\<close>.
\<close>

record discovery =
  ds_ident :: "identity option"
  ds_local :: announcement
  ds_seen :: "(string, announcement) gomap"
  ds_conn :: bool
  ds_closed :: bool
  ds_onPeer :: bool

definition New_disc :: "identity option \<Rightarrow> string \<Rightarrow> int \<Rightarrow> bool \<Rightarrow> discovery" where
  "New_disc ident nick tcpPort tls =
     \<lparr>ds_ident = ident,
      ds_local =
        \<lparr>an_Type = ''discovery'', an_Version = 2,
         an_PeerID = (case ident of None \<Rightarrow> [] | Some i \<Rightarrow> idPeerID i),
         an_PublicKey = (case ident of None \<Rightarrow> [] | Some i \<Rightarrow> PublicKeyHex i),
         an_Nickname = nick, an_Port = tcpPort, an_TLS = tls, an_Timestamp = 0, an_Signature = [],
         an_Addr = [], an_Seen = 0, an_Verified = False\<rparr>,
      ds_seen = gm_empty, ds_conn = False, ds_closed = False, ds_onPeer = False\<rparr>"

definition SetNickname :: "string \<Rightarrow> discovery \<Rightarrow> discovery" where
  "SetNickname n s = s\<lparr>ds_local := (ds_local s)\<lparr>an_Nickname := n\<rparr>\<rparr>"

definition SetOnPeer :: "bool \<Rightarrow> discovery \<Rightarrow> discovery" where
  "SetOnPeer fn s = s\<lparr>ds_onPeer := fn\<rparr>"

text \<open>\<open>listened\<close>: whether \<^verbatim>\<open>net.ListenMulticastUDP\<close> succeeded.\<close>

definition Start_disc :: "bool \<Rightarrow> discovery \<Rightarrow> bool \<times> discovery" where
  "Start_disc listened s = (if \<not> listened then (False, s) else (True, s\<lparr>ds_conn := True\<rparr>))"

definition Close_disc :: "discovery \<Rightarrow> discovery" where
  "Close_disc s = (if ds_closed s then s else s\<lparr>ds_closed := True\<rparr>)"

datatype announce_result = NotSent | SignPanic | Datagram string

definition Announce :: "crypto \<Rightarrow> (announcement \<Rightarrow> string option) \<Rightarrow> int \<Rightarrow> discovery \<Rightarrow> announce_result" where
  "Announce c marshal clock s =
     (if ds_closed s \<or> \<not> ds_conn s then NotSent
      else
        (let payload = (ds_local s)\<lparr>an_Timestamp := unix_of clock\<rparr>;
             signed = (case ds_ident s of None \<Rightarrow> Some payload | Some i \<Rightarrow> Sign_ann c (idPrivateKey i) payload) in
         case signed of
           None \<Rightarrow> SignPanic
         | Some p \<Rightarrow> (case marshal p of None \<Rightarrow> NotSent | Some bytes \<Rightarrow> Datagram bytes)))"

section \<open>The table of neighbours\<close>

definition seen_span :: int where "seen_span = 45 * second"
definition maxSeen :: nat where "maxSeen = 256"

definition drop_expired :: "int \<Rightarrow> (string, announcement) gomap \<Rightarrow> (string, announcement) gomap" where
  "drop_expired cutoff m = filter (\<lambda>e. \<not> an_Seen (snd e) < cutoff) m"

definition Nearby :: "string list \<Rightarrow> int \<Rightarrow> discovery \<Rightarrow> announcement list \<times> discovery" where
  "Nearby order clock s =
     (let cutoff = clock - seen_span; m = drop_expired cutoff (ds_seen s) in
      (List.map_filter (gm_get m) order, s\<lparr>ds_seen := m\<rparr>))"

fun oldest_scan :: "(string, announcement) gomap \<Rightarrow> string list \<Rightarrow> (string \<times> int) option \<Rightarrow> (string \<times> int) option" where
  "oldest_scan m [] best = best"
| "oldest_scan m (p # ps) best =
     (case gm_get m p of
        None \<Rightarrow> oldest_scan m ps best
      | Some a \<Rightarrow>
          oldest_scan m ps
            (case best of
               None \<Rightarrow> Some (p, an_Seen a)
             | Some (bp, t) \<Rightarrow> if an_Seen a < t then Some (p, an_Seen a) else Some (bp, t)))"

definition oldest_id :: "((string, announcement) gomap \<Rightarrow> string list) \<Rightarrow> (string, announcement) gomap \<Rightarrow> string" where
  "oldest_id pick m = (case oldest_scan m (pick m) None of None \<Rightarrow> [] | Some (p, t) \<Rightarrow> p)"

partial_function (option) evict_loop ::
  "((string, announcement) gomap \<Rightarrow> string list) \<Rightarrow> (string, announcement) gomap \<Rightarrow> (string, announcement) gomap option" where
  "evict_loop pick m =
     (if gm_len m > maxSeen
      then (if oldest_id pick m = [] then Some m else evict_loop pick (gm_del (oldest_id pick m) m))
      else Some m)"

declare evict_loop.simps [code]

definition pruneSeenLocked ::
  "((string, announcement) gomap \<Rightarrow> string list) \<Rightarrow> int \<Rightarrow> (string, announcement) gomap \<Rightarrow> (string, announcement) gomap option" where
  "pruneSeenLocked pick clock m = evict_loop pick (drop_expired (clock - seen_span) m)"

text \<open>
  One datagram: the new state and the announcement the callback is started with, if any;
  \<open>None\<close> when the pruning loop does not return. \<open>t1\<close> to \<open>t3\<close> are the three clock readings.
\<close>

definition handle_datagram ::
  "unicode \<Rightarrow> crypto \<Rightarrow> ((string, announcement) gomap \<Rightarrow> string list) \<Rightarrow> int \<Rightarrow> int \<Rightarrow> int \<Rightarrow> announcement option \<Rightarrow> ip
    \<Rightarrow> discovery \<Rightarrow> (discovery \<times> announcement option) option" where
  "handle_datagram uc c pick t1 t2 t3 decoded src s =
     (case decoded of
        None \<Rightarrow> Some (s, None)
      | Some a0 \<Rightarrow>
          if an_Type a0 \<noteq> ''discovery'' \<or> an_PeerID a0 = [] \<or> an_Port a0 \<le> 0 \<or> an_Port a0 > 65535 then Some (s, None)
          else
            (let a1 = a0\<lparr>an_Verified := (Verify_ann uc c t1 a0 = None)\<rparr> in
             if an_PeerID a1 = an_PeerID (ds_local s) then Some (s, None)
             else
               (let a = a1\<lparr>an_Addr := JoinHostPort (ip4_String src) (FormatInt (an_Port a1)), an_Seen := t2\<rparr>;
                    existed = gm_has (ds_seen s) (an_PeerID a);
                    m = gm_put (an_PeerID a) a (ds_seen s) in
                case pruneSeenLocked pick t3 m of
                  None \<Rightarrow> None
                | Some m' \<Rightarrow> Some (s\<lparr>ds_seen := m'\<rparr>, if ds_onPeer s \<and> \<not> existed then Some a else None))))"

text \<open>One turn of \<^verbatim>\<open>readLoop\<close>: the socket fills a buffer of 4096 bytes and drops the rest of the datagram.\<close>

definition receive_datagram ::
  "(string \<Rightarrow> announcement option) \<Rightarrow> unicode \<Rightarrow> crypto \<Rightarrow> ((string, announcement) gomap \<Rightarrow> string list)
    \<Rightarrow> int \<Rightarrow> int \<Rightarrow> int \<Rightarrow> string \<Rightarrow> ip \<Rightarrow> discovery \<Rightarrow> (discovery \<times> announcement option) option" where
  "receive_datagram unmarshal uc c pick t1 t2 t3 datagram src s =
     handle_datagram uc c pick t1 t2 t3 (unmarshal (take 4096 datagram)) src s"

section \<open>Specifications\<close>

text \<open>What a signature proves: the id is, up to case, the digest of a key that signed the payload.\<close>

definition ann_proved :: "unicode \<Rightarrow> crypto \<Rightarrow> announcement \<Rightarrow> bool" where
  "ann_proved uc c a \<longleftrightarrow>
     (\<exists>pub sig. hex_decode (an_PublicKey a) = Some pub \<and> length pub = PublicKeySize
        \<and> ToLower uc (an_PeerID a) = DerivePeerID c pub
        \<and> hex_decode (an_Signature a) = Some sig \<and> c_verify c pub (signBytes a) sig)"

definition entry_ok :: "unicode \<Rightarrow> crypto \<Rightarrow> string \<Rightarrow> string \<Rightarrow> announcement \<Rightarrow> bool" where
  "entry_ok uc c self p a \<longleftrightarrow>
     p \<noteq> [] \<and> p \<noteq> self \<and> an_PeerID a = p \<and> an_Type a = ''discovery'' \<and> 0 < an_Port a \<and> an_Port a \<le> 65535
     \<and> (\<exists>host. SplitHostPort (an_Addr a) = Some (host, FormatInt (an_Port a)))
     \<and> (an_Verified a \<longrightarrow> ann_proved uc c a)"

definition table_ok :: "unicode \<Rightarrow> crypto \<Rightarrow> string \<Rightarrow> (string, announcement) gomap \<Rightarrow> bool" where
  "table_ok uc c self m \<longleftrightarrow> gm_wf m \<and> (\<forall>p a. gm_get m p = Some a \<longrightarrow> entry_ok uc c self p a)"

definition disc_inv :: "unicode \<Rightarrow> crypto \<Rightarrow> discovery \<Rightarrow> bool" where
  "disc_inv uc c s \<longleftrightarrow> table_ok uc c (an_PeerID (ds_local s)) (ds_seen s) \<and> gm_len (ds_seen s) \<le> maxSeen"

text \<open>Iteration orders are orders of the keys.\<close>

definition picks_ok :: "((string, announcement) gomap \<Rightarrow> string list) \<Rightarrow> bool" where
  "picks_ok pick \<longleftrightarrow> (\<forall>m. gm_wf m \<longrightarrow> range_order m (pick m))"

datatype disc_op =
    DDatagram int int int "announcement option" ip
  | DNearby "string list" int
  | DNick string
  | DOnPeer bool
  | DStart bool
  | DClose

fun disc_step ::
  "unicode \<Rightarrow> crypto \<Rightarrow> ((string, announcement) gomap \<Rightarrow> string list) \<Rightarrow> disc_op \<Rightarrow> discovery \<Rightarrow> discovery option" where
  "disc_step uc c pick (DDatagram t1 t2 t3 a src) s = map_option fst (handle_datagram uc c pick t1 t2 t3 a src s)"
| "disc_step uc c pick (DNearby order t) s = Some (snd (Nearby order t s))"
| "disc_step uc c pick (DNick n) s = Some (SetNickname n s)"
| "disc_step uc c pick (DOnPeer b) s = Some (SetOnPeer b s)"
| "disc_step uc c pick (DStart b) s = Some (snd (Start_disc b s))"
| "disc_step uc c pick DClose s = Some (Close_disc s)"

fun disc_run ::
  "unicode \<Rightarrow> crypto \<Rightarrow> ((string, announcement) gomap \<Rightarrow> string list) \<Rightarrow> disc_op list \<Rightarrow> discovery \<Rightarrow> discovery option" where
  "disc_run uc c pick [] s = Some s"
| "disc_run uc c pick (op # ops) s = (case disc_step uc c pick op s of None \<Rightarrow> None | Some s' \<Rightarrow> disc_run uc c pick ops s')"

text \<open>What the loop leaves: at most \<open>maxSeen\<close> entries of the table, none older than one it removed.\<close>

definition keeps_newest :: "(string, announcement) gomap \<Rightarrow> (string, announcement) gomap \<Rightarrow> bool" where
  "keeps_newest m m' \<longleftrightarrow>
     gm_wf m' \<and> (\<forall>p a. gm_get m' p = Some a \<longrightarrow> gm_get m p = Some a)
     \<and> (\<forall>p a q b. gm_get m p = Some a \<longrightarrow> gm_get m' p = None \<longrightarrow> gm_get m' q = Some b \<longrightarrow> an_Seen a \<le> an_Seen b)"

text \<open>The candidate the scan carries is an entry of the table.\<close>

definition best_of :: "(string, announcement) gomap \<Rightarrow> (string \<times> int) option \<Rightarrow> bool" where
  "best_of m best \<longleftrightarrow> (\<forall>p t. best = Some (p, t) \<longrightarrow> (\<exists>a. gm_get m p = Some a \<and> t = an_Seen a))"

text \<open>An example: a service that heard one verified neighbour.\<close>

definition sample_heard :: discovery where
  "sample_heard =
     (let a = (ds_local (New_disc (Some (sample_ident CHR ''k'')) ''ann'' 7777 True))
          \<lparr>an_Signature := hex_encode (replicate 64 CHR ''k''), an_Addr := JoinHostPort (ip4_String [10, 0, 0, 2]) (FormatInt 7777), an_Verified := True\<rparr> in
      (New_disc (Some (sample_ident CHR ''j'')) ''bob'' 7777 True)\<lparr>ds_seen := gm_put (an_PeerID a) a gm_empty\<rparr>)"

section \<open>Pruning\<close>

lemma gm_get_drop_expired:
  "gm_wf m \<Longrightarrow> gm_get (drop_expired t m) p =
     (case gm_get m p of None \<Rightarrow> None | Some a \<Rightarrow> if an_Seen a < t then None else Some a)"
  unfolding gm_get_def drop_expired_def gm_wf_def
  by (induction m) (auto split: option.splits simp: map_of_eq_None_iff)

lemma gm_wf_drop_expired: "gm_wf m \<Longrightarrow> gm_wf (drop_expired t m)"
  by (simp add: gm_wf_def drop_expired_def distinct_map_filter)

lemma oldest_scan_spec:
  assumes "best_of m best"
  shows "best_of m (oldest_scan m ps best)
    \<and> (\<forall>q a. q \<in> set ps \<longrightarrow> gm_get m q = Some a \<longrightarrow> (\<exists>p t. oldest_scan m ps best = Some (p, t) \<and> t \<le> an_Seen a))
    \<and> (\<forall>q u. best = Some (q, u) \<longrightarrow> (\<exists>p t. oldest_scan m ps best = Some (p, t) \<and> t \<le> u))"
  using assms
proof (induction ps arbitrary: best)
  case (Cons x ps)
  show ?case
  proof (cases "gm_get m x")
    case None
    then show ?thesis using Cons.IH [OF Cons.prems] by auto
  next
    case (Some a)
    define b where "b = (case best of None \<Rightarrow> Some (x, an_Seen a)
      | Some (bp, t) \<Rightarrow> if an_Seen a < t then Some (x, an_Seen a) else Some (bp, t))"
    have "best_of m b" using Cons.prems Some by (auto simp: b_def best_of_def split: option.splits if_splits)
    note IH = Cons.IH [OF this]
    have scan: "oldest_scan m (x # ps) best = oldest_scan m ps b" using Some by (simp add: b_def)
    have le: "\<exists>q u. b = Some (q, u) \<and> u \<le> an_Seen a" "\<And>q u. best = Some (q, u) \<Longrightarrow> \<exists>q' u'. b = Some (q', u') \<and> u' \<le> u"
      by (auto simp: b_def split: option.splits)
    show ?thesis
      unfolding scan using IH le Some by (fastforce dest: order_trans)
  qed
qed simp

lemma oldest_id_spec:
  assumes "gm_get m q = Some b" "q \<in> set (pick m)"
  shows "\<exists>a. gm_get m (oldest_id pick m) = Some a \<and> (\<forall>r d. r \<in> set (pick m) \<longrightarrow> gm_get m r = Some d \<longrightarrow> an_Seen a \<le> an_Seen d)"
proof -
  have "best_of m None" by (simp add: best_of_def)
  note spec = oldest_scan_spec [OF this, of "pick m"]
  obtain p t where scan: "oldest_scan m (pick m) None = Some (p, t)" using spec assms by blast
  then show ?thesis
    using spec by (fastforce simp: oldest_id_def best_of_def)
qed

lemma oldest_id_in:
  assumes "oldest_id pick m \<noteq> []"
  shows "\<exists>a. gm_get m (oldest_id pick m) = Some a"
proof -
  have "best_of m (oldest_scan m (pick m) None)"
    using oldest_scan_spec [of m None "pick m"] by (simp add: best_of_def)
  then show ?thesis
    using assms by (auto simp: oldest_id_def best_of_def split: option.splits)
qed

text \<open>The loop returns on every table, for any choice of iteration orders.\<close>

lemma evict_loop_returns: "gm_wf m \<Longrightarrow> \<exists>m'. evict_loop pick m = Some m'"
proof (induction "gm_len m" arbitrary: m rule: less_induct)
  case less
  show ?case
  proof (cases "gm_len m > maxSeen \<and> oldest_id pick m \<noteq> []")
    case True
    then obtain a where "gm_get m (oldest_id pick m) = Some a" using oldest_id_in by blast
    then have "\<exists>m'. evict_loop pick (gm_del (oldest_id pick m) m) = Some m'"
      using less by (intro less.hyps) (auto simp: gm.len_del_less gm_laws)
    then show ?thesis using True by (simp add: evict_loop.simps [of pick m])
  qed (auto simp: evict_loop.simps [of pick m])
qed

lemma keeps_newest_refl: "gm_wf m \<Longrightarrow> keeps_newest m m"
  by (simp add: keeps_newest_def)

lemma keeps_newest_step:
  assumes wf: "gm_wf m" and o: "gm_get m o1 = Some a" "\<And>r d. gm_get m r = Some d \<Longrightarrow> an_Seen a \<le> an_Seen d"
    and k: "keeps_newest (gm_del o1 m) m'"
  shows "keeps_newest m m'"
  unfolding keeps_newest_def
proof (intro conjI allI impI)
  show "gm_wf m'" using k by (simp add: keeps_newest_def)
  show sub: "gm_get m p = Some b" if "gm_get m' p = Some b" for p b
  proof -
    have "gm_get (gm_del o1 m) p = Some b" using k that unfolding keeps_newest_def by blast
    then show ?thesis by (simp add: gm_laws split: if_splits)
  qed
  show "an_Seen x \<le> an_Seen y" if "gm_get m p = Some x" "gm_get m' p = None" "gm_get m' q = Some y" for p x q y
  proof (cases "p = o1")
    case True
    then show ?thesis using o that sub [of q y] by simp
  next
    case False
    then have "gm_get (gm_del o1 m) p = Some x" using that by (simp add: gm_laws)
    then show ?thesis using k that unfolding keeps_newest_def by blast
  qed
qed

lemma evict_loop_result:
  assumes "gm_wf m" "picks_ok pick" "gm_get m [] = None" "evict_loop pick m = Some m'"
  shows "keeps_newest m m' \<and> gm_len m' = min (gm_len m) maxSeen"
  using assms(1,3,4)
proof (induction "gm_len m" arbitrary: m rule: less_induct)
  case less
  show ?case
  proof (cases "gm_len m > maxSeen")
    case True
    have "dom (gm_get m) \<noteq> {}" using True less.prems(1) by (auto simp: gm.len_card)
    then obtain q b where q: "gm_get m q = Some b" by fast
    have pk: "set (pick m) = dom (gm_get m)" using assms(2) less.prems(1) by (auto simp: picks_ok_def range_order_set)
    obtain a where a: "gm_get m (oldest_id pick m) = Some a"
      "\<And>r d. gm_get m r = Some d \<Longrightarrow> an_Seen a \<le> an_Seen d"
      using oldest_id_spec [OF q, of pick] q pk by (auto simp: domI)
    let ?m = "gm_del (oldest_id pick m) m"
    have "oldest_id pick m \<noteq> []" using a(1) less.prems(2) by auto
    then have ev: "evict_loop pick ?m = Some m'" using less.prems(3) True by (simp add: evict_loop.simps [of pick m])
    have len: "gm_len ?m = gm_len m - 1" "gm_len ?m < gm_len m"
      using gm.len_del [OF less.prems(1)] gm.len_del_less [OF less.prems(1) a(1)] a(1) by auto
    have "keeps_newest ?m m' \<and> gm_len m' = min (gm_len ?m) maxSeen"
      using less.prems(1,2) len ev by (intro less.hyps) (auto simp: gm_laws)
    then show ?thesis
      using keeps_newest_step [OF less.prems(1) a] len True by simp
  next
    case False
    then show ?thesis using less.prems by (simp add: evict_loop.simps [of pick m] keeps_newest_refl)
  qed
qed

section \<open>Well-formed tables\<close>

lemma table_ok_sub:
  assumes "table_ok uc c self m" "gm_wf m'" "\<And>p a. gm_get m' p = Some a \<Longrightarrow> gm_get m p = Some a"
  shows "table_ok uc c self m'"
  using assms by (auto simp: table_ok_def)

lemma table_ok_put:
  "table_ok uc c self m \<Longrightarrow> entry_ok uc c self p a \<Longrightarrow> table_ok uc c self (gm_put p a m)"
  by (auto simp: table_ok_def gm_laws split: if_splits)

lemma table_ok_expired: "table_ok uc c self m \<Longrightarrow> table_ok uc c self (drop_expired t m)"
proof (rule table_ok_sub)
  assume "table_ok uc c self m"
  then have wf: "gm_wf m" by (simp add: table_ok_def)
  then show "gm_wf (drop_expired t m)" by (rule gm_wf_drop_expired)
  show "gm_get m p = Some a" if "gm_get (drop_expired t m) p = Some a" for p a
    using that wf by (auto simp: gm_get_drop_expired split: option.splits if_splits)
qed

lemma table_ok_Nil: "table_ok uc c self m \<Longrightarrow> gm_get m [] = None"
  by (cases "gm_get m []") (auto simp: table_ok_def entry_ok_def)

lemma gm_len_expired: "gm_len (drop_expired t m) \<le> gm_len m"
  by (simp add: gm_len_def drop_expired_def)

lemma prune_result:
  assumes "gm_wf m" "picks_ok pick" "gm_get m [] = None"
  shows "\<exists>m'. pruneSeenLocked pick t m = Some m' \<and> keeps_newest (drop_expired (t - seen_span) m) m'
    \<and> gm_len m' = min (gm_len (drop_expired (t - seen_span) m)) maxSeen"
proof -
  let ?m = "drop_expired (t - seen_span) m"
  have wf: "gm_wf ?m" and nil: "gm_get ?m [] = None"
    using assms(1,3) by (simp_all add: gm_wf_drop_expired gm_get_drop_expired)
  obtain m' where "evict_loop pick ?m = Some m'" using evict_loop_returns [OF wf] by blast
  then show ?thesis using evict_loop_result [OF wf assms(2) nil] by (simp add: pruneSeenLocked_def)
qed

lemma prune_table_ok:
  assumes "table_ok uc c self m" "picks_ok pick"
  shows "\<exists>m'. pruneSeenLocked pick t m = Some m' \<and> table_ok uc c self m' \<and> gm_len m' \<le> maxSeen"
proof -
  let ?m = "drop_expired (t - seen_span) m"
  obtain m' where m': "pruneSeenLocked pick t m = Some m'" "keeps_newest ?m m'" "gm_len m' = min (gm_len ?m) maxSeen"
    using prune_result [of m pick t] assms table_ok_Nil [OF assms(1)] by (auto simp: table_ok_def)
  have "table_ok uc c self m'"
    using m'(2) by (intro table_ok_sub [OF table_ok_expired [OF assms(1), of "t - seen_span"]]) (simp_all add: keeps_newest_def)
  then show ?thesis using m' by simp
qed

lemma Verify_ann_proved: "Verify_ann uc c t a = None \<Longrightarrow> ann_proved uc c a"
  by (auto simp: Verify_ann_def ann_proved_def DerivePeerID_def split: option.splits if_splits)

lemma ann_proved_cong [simp]:
  "ann_proved uc c (a\<lparr>an_Verified := v\<rparr>) = ann_proved uc c a"
  "ann_proved uc c (a\<lparr>an_Addr := x\<rparr>) = ann_proved uc c a"
  "ann_proved uc c (a\<lparr>an_Seen := t\<rparr>) = ann_proved uc c a"
  by (simp_all add: ann_proved_def signBytes_def)

text \<open>The entry a datagram makes.\<close>

lemma datagram_entry_ok:
  assumes "an_Type a = ''discovery''" "an_PeerID a \<noteq> []" "0 < an_Port a" "an_Port a \<le> 65535" "an_PeerID a \<noteq> self"
  shows "entry_ok uc c self (an_PeerID a)
    (a\<lparr>an_Verified := (Verify_ann uc c t1 a = None), an_Addr := JoinHostPort (ip4_String src) (FormatInt (an_Port a)),
       an_Seen := t2\<rparr>)"
  using assms Verify_ann_proved [of uc c t1 a] split_join_ip4 [of "an_Port a" src] by (auto simp: entry_ok_def)

lemma handle_datagram_inv [inv_intros]:
  assumes "disc_inv uc c s" "picks_ok pick"
  shows "\<exists>s' cb. handle_datagram uc c pick t1 t2 t3 d src s = Some (s', cb) \<and> disc_inv uc c s'"
proof (cases "\<exists>a. d = Some a \<and> \<not> (an_Type a \<noteq> ''discovery'' \<or> an_PeerID a = [] \<or> an_Port a \<le> 0 \<or> an_Port a > 65535)
    \<and> an_PeerID a \<noteq> an_PeerID (ds_local s)")
  case False
  then show ?thesis using assms(1) by (auto simp: handle_datagram_def Let_def split: option.split)
next
  case True
  then obtain a where d: "d = Some a" "an_Type a = ''discovery''" "an_PeerID a \<noteq> []" "0 < an_Port a" "an_Port a \<le> 65535"
    "an_PeerID a \<noteq> an_PeerID (ds_local s)" by auto
  let ?a = "a\<lparr>an_Verified := (Verify_ann uc c t1 a = None), an_Addr := JoinHostPort (ip4_String src) (FormatInt (an_Port a)),
       an_Seen := t2\<rparr>"
  have "table_ok uc c (an_PeerID (ds_local s)) (gm_put (an_PeerID a) ?a (ds_seen s))"
    using assms(1) d by (intro table_ok_put datagram_entry_ok) (auto simp: disc_inv_def)
  from prune_table_ok [OF this assms(2), of t3] show ?thesis
    using d by (auto simp: handle_datagram_def disc_inv_def)
qed

lemma disc_step_inv:
  assumes "disc_inv uc c s" "picks_ok pick"
  shows "\<exists>s'. disc_step uc c pick op s = Some s' \<and> disc_inv uc c s'"
proof (cases op)
  case (DDatagram t1 t2 t3 a src)
  then show ?thesis using handle_datagram_inv [OF assms, of t1 t2 t3 a src] by auto
next
  case (DNearby order t)
  have "table_ok uc c (an_PeerID (ds_local s)) (drop_expired (t - seen_span) (ds_seen s))"
    "gm_len (drop_expired (t - seen_span) (ds_seen s)) \<le> maxSeen"
    using assms(1) table_ok_expired gm_len_expired [of "t - seen_span" "ds_seen s"] by (auto simp: disc_inv_def)
  then show ?thesis using DNearby by (simp add: Nearby_def disc_inv_def Let_def)
qed (use assms(1) in \<open>auto simp: disc_inv_def SetNickname_def SetOnPeer_def Start_disc_def Close_disc_def\<close>)

lemma disc_run_inv:
  "disc_inv uc c s \<Longrightarrow> picks_ok pick \<Longrightarrow> \<exists>s'. disc_run uc c pick ops s = Some s' \<and> disc_inv uc c s'"
proof (induction ops arbitrary: s)
  case (Cons op ops)
  then show ?case using disc_step_inv [of uc c s pick op] by fastforce
qed simp

lemma disc_inv_New: "disc_inv uc c (New_disc ident nick port tls)"
  by (simp add: disc_inv_def table_ok_def New_disc_def gm_laws)

lemma picks_ok_keys: "picks_ok gm_keys"
  by (simp add: picks_ok_def range_order_keys)

section \<open>Honest announcements\<close>

lemma handle_datagram_enters:
  assumes "gm_wf (ds_seen s)" "gm_len (ds_seen s) < maxSeen \<or> gm_len (ds_seen s) \<le> maxSeen \<and> gm_has (ds_seen s) (an_PeerID a)"
    and "an_Type a = ''discovery''" "an_PeerID a \<noteq> []" "0 < an_Port a" "an_Port a \<le> 65535"
    and "an_PeerID a \<noteq> an_PeerID (ds_local s)" "t3 \<le> t2 + seen_span"
    and e: "e = a\<lparr>an_Verified := (Verify_ann uc c t1 a = None), an_Addr := JoinHostPort (ip4_String src) (FormatInt (an_Port a)),
       an_Seen := t2\<rparr>"
  shows "\<exists>s'. handle_datagram uc c pick t1 t2 t3 (Some a) src s
      = Some (s', if ds_onPeer s \<and> \<not> gm_has (ds_seen s) (an_PeerID a) then Some e else None)
    \<and> gm_get (ds_seen s') (an_PeerID a) = Some e"
proof -
  let ?m = "gm_put (an_PeerID a) e (ds_seen s)"
  let ?live = "drop_expired (t3 - seen_span) ?m"
  have "gm_len ?m \<le> maxSeen"
    using assms(1,2) by (auto simp: gm.len_put gm_has_def)
  then have "gm_len ?live \<le> maxSeen" using gm_len_expired order_trans by blast
  then have pr: "pruneSeenLocked pick t3 ?m = Some ?live"
    by (simp add: pruneSeenLocked_def evict_loop.simps [of pick ?live])
  have e': "an_Seen e = t2" "an_PeerID e = an_PeerID a" using e by simp_all
  then have "gm_get ?live (an_PeerID a) = Some e"
    using assms(1,8) e' by (simp add: gm_get_drop_expired gm_laws)
  then show ?thesis using assms(3-7) pr e'(2) by (simp add: handle_datagram_def flip: e)
qed

lemma Sign_ann_verifies:
  assumes key: "key_ok c priv" and pk: "an_PublicKey a = hex_encode (ed_public priv)"
    and pid: "an_PeerID a = DerivePeerID c (ed_public priv)" and ts: "an_Timestamp a = unix_of t"
    and clocks: "unixToInternal * second \<le> t" "unixToInternal * second \<le> t1" "t < 2 ^ 60 * second" "t1 < 2 ^ 60 * second"
      "t \<le> t1 + 120 * second" "t1 \<le> t + 300 * second"
  shows "\<exists>sig. Sign_ann c priv a = Some (a\<lparr>an_Signature := sig\<rparr>) \<and> Verify_ann uc c t1 (a\<lparr>an_Signature := sig\<rparr>) = None"
proof -
  have len: "length priv = PrivateKeySize" "length (ed_public priv) = PublicKeySize"
    using key length_ed_public by (auto simp: key_ok_def)
  let ?sig = "c_sign c priv (signBytes a)"
  let ?a = "a\<lparr>an_Signature := hex_encode ?sig\<rparr>"
  have sig: "length ?sig = SignatureSize" "c_verify c (ed_public priv) (signBytes a) ?sig" using key by (auto simp: key_ok_def)
  have nz: "hex_encode (ed_public priv) \<noteq> []" "hex_encode ?sig \<noteq> []"
    using len sig by (auto simp: key_size_defs simp flip: length_greater_0_conv)
  have sb: "signBytes ?a = signBytes a" by (simp add: signBytes_def)
  let ?s = "t div second - unixToInternal" and ?s1 = "t1 div second - unixToInternal"
  have w: "unix_of t1 + 120 = word_of_int (?s1 + 120)" "unix_of t1 - 300 = word_of_int (?s1 - 300)"
    by (simp_all add: unix_of_def)
  have d: "0 \<le> ?s1" "?s1 < 2 ^ 60" "?s \<le> ?s1 + 120" "?s1 - 300 \<le> ?s"
    using clocks by (auto simp: second_def unixToInternal_def)
  have "sint (unix_of t) = ?s" using clocks by (intro sint_unix_of) (auto simp: second_def)
  moreover have "sint (unix_of t1 + 120) = ?s1 + 120" "sint (unix_of t1 - 300) = ?s1 - 300"
    unfolding w by (rule sint_word_of_int; use d in simp)+
  ultimately have "\<not> unix_of t1 + 120 <s unix_of t" "\<not> unix_of t <s unix_of t1 - 300"
    unfolding word_sless_alt using d by simp_all
  then have "Verify_ann uc c t1 ?a = None"
    using pk pid ts len sig nz sb
    by (simp add: Verify_ann_def hex_decode_encode ToLower_DerivePeerID, simp add: DerivePeerID_def)
  moreover have "Sign_ann c priv a = Some ?a" using len pk nz by (simp add: Sign_ann_def)
  ultimately show ?thesis by blast
qed

lemma sample_heard_inv: "disc_inv sample_uc toy_crypto sample_heard"
proof -
  have "ann_proved sample_uc toy_crypto ((ds_local (New_disc (Some (sample_ident CHR ''k'')) ''ann'' 7777 True))
      \<lparr>an_Signature := hex_encode (replicate 64 CHR ''k''),
        an_Addr := JoinHostPort (ip4_String [10, 0, 0, 2]) (FormatInt 7777), an_Verified := True\<rparr>)"
    unfolding ann_proved_def
    by (rule exI [of _ "replicate 32 CHR ''k''"], rule exI [of _ "replicate 64 CHR ''k''"])
       (simp add: New_disc_def sample_ident_def PublicKeyHex_def hex_decode_encode key_size_defs go_simps toy_crypto_def)
  moreover have "idPeerID (sample_ident CHR ''k'') \<noteq> []"
    using DerivePeerID_neq_Nil [OF toy_sha] by (simp add: sample_ident_def)
  moreover have "idPeerID (sample_ident CHR ''j'') \<noteq> idPeerID (sample_ident CHR ''k'')"
    by (simp add: sample_ident_def DerivePeerID_def toy_crypto_def hex_encode_inj)
  moreover have "SplitHostPort (JoinHostPort (ip4_String [10, 0, 0, 2]) (FormatInt 7777)) = Some (ip4_String [10, 0, 0, 2], FormatInt 7777)"
    by (rule split_join_ip4) simp
  ultimately show ?thesis
    by (auto simp: disc_inv_def table_ok_def entry_ok_def sample_heard_def New_disc_def Let_def gm_laws gm.len_put maxSeen_def)
qed

section \<open>Properties\<close>

text \<open>
  C35. Pruning the table of neighbours always returns, and it keeps the newest: whatever the iteration
  orders, the loop of pruneSeenLocked ends, nothing older than 45 seconds is left, what is left is the
  whole of the younger entries or exactly 256 of them, and no entry it removed is newer than one it kept.
\<close>

theorem prune_terminates:
  assumes "gm_wf m" "picks_ok pick" "gm_get m [] = None"
  shows "\<exists>m'. pruneSeenLocked pick t m = Some m' \<and> keeps_newest (drop_expired (t - seen_span) m) m'
    \<and> gm_len m' = min (gm_len (drop_expired (t - seen_span) m)) 256
    \<and> (\<forall>p a. gm_get m' p = Some a \<longrightarrow> t - 45 * second \<le> an_Seen a)"
proof -
  obtain m' where m': "pruneSeenLocked pick t m = Some m'" "keeps_newest (drop_expired (t - seen_span) m) m'"
    "gm_len m' = min (gm_len (drop_expired (t - seen_span) m)) maxSeen"
    using prune_result [OF assms] by blast
  have "t - 45 * second \<le> an_Seen a" if "gm_get m' p = Some a" for p a
  proof -
    have "gm_get (drop_expired (t - seen_span) m) p = Some a" using m'(2) that by (simp add: keeps_newest_def)
    then show ?thesis using assms(1) by (simp add: gm_get_drop_expired seen_span_def split: option.splits if_splits)
  qed
  then show ?thesis using m' by (auto simp: maxSeen_def)
qed

theorem prune_terminates_witness:
  "\<exists>m'. pruneSeenLocked gm_keys 5 (gm_put ''p'' (ds_local (New_disc None ''ann'' 7777 True)) gm_empty) = Some m'
    \<and> keeps_newest (drop_expired (5 - seen_span) (gm_put ''p'' (ds_local (New_disc None ''ann'' 7777 True)) gm_empty)) m'
    \<and> gm_len m' = min (gm_len (drop_expired (5 - seen_span)
        (gm_put ''p'' (ds_local (New_disc None ''ann'' 7777 True)) gm_empty))) 256
    \<and> (\<forall>p a. gm_get m' p = Some a \<longrightarrow> 5 - 45 * second \<le> an_Seen a)"
  by (rule prune_terminates) (simp_all add: gm_laws picks_ok_keys)

text \<open>
  C36. The table of neighbours is well formed after every history of datagrams, listings and settings:
  every history is processed (no datagram makes the service hang), the table holds at most 256 entries
  under their own non-empty ids, never the node itself, each with a valid port and an address that
  splits into a host and this port, and an entry is marked verified only when its id is the digest of
  a key that signed it.
\<close>

theorem neighbours_well_formed:
  assumes "picks_ok pick"
  shows "\<exists>s. disc_run uc c pick ops (New_disc ident nick port tls) = Some s \<and> disc_inv uc c s"
  using disc_run_inv [OF disc_inv_New assms] .

theorem neighbours_well_formed_witness:
  "\<exists>s. disc_run sample_uc toy_crypto gm_keys
      [DDatagram 0 0 0 (Some ((ds_local (New_disc (Some (sample_ident CHR ''k'')) ''eve'' 9 True))\<lparr>an_Signature := []\<rparr>)) [10, 0, 0, 9],
       DNick ''x'', DNearby [idPeerID (sample_ident CHR ''k'')] 7] (New_disc None ''ann'' 7777 True) = Some s
     \<and> disc_inv sample_uc toy_crypto s"
  using neighbours_well_formed [OF picks_ok_keys] .

text \<open>
  C37. An honest neighbour is found: when a started service announces itself, the announcement fits
  the receive buffer and JSON decodes these bytes to what was sent (as it does unless the nickname is
  not valid UTF-8), and another service, whose table has room, receives the datagram within the window
  of two minutes ahead and five minutes behind its clock, then the receiver lists the sender under
  its id as verified, with the sender's address and port and its nickname, and its callback runs exactly
  when the id was not listed before.
\<close>

theorem honest_announcement_verified:
  assumes "sha_ok c" "id_ok c i" "key_ok c (idPrivateKey i)" "0 < port" "port \<le> 65535"
    and "Sign_ann c (idPrivateKey i) ((ds_local (New_disc (Some i) nick port tls))\<lparr>an_Timestamp := unix_of t\<rparr>) = Some a"
    and "marshal a = Some bytes" "unmarshal bytes = Some a" "length bytes \<le> 4096"
    and "unixToInternal * second \<le> t" "unixToInternal * second \<le> t1" "t < 2 ^ 60 * second" "t1 < 2 ^ 60 * second"
    and "t \<le> t1 + 120 * second" "t1 \<le> t + 300 * second" "t3 \<le> t2 + 45 * second"
    and "gm_wf (ds_seen r)" "gm_len (ds_seen r) < 256" "an_PeerID (ds_local r) \<noteq> idPeerID i"
  shows "\<exists>r' e. Announce c marshal t (snd (Start_disc True (New_disc (Some i) nick port tls))) = Datagram bytes
    \<and> receive_datagram unmarshal uc c pick t1 t2 t3 bytes src r
        = Some (r', if ds_onPeer r \<and> \<not> gm_has (ds_seen r) (idPeerID i) then Some e else None)
    \<and> gm_get (ds_seen r') (idPeerID i) = Some e
    \<and> an_Verified e \<and> an_Nickname e = nick \<and> an_Addr e = JoinHostPort (ip4_String src) (FormatInt port)"
proof -
  let ?p = "(ds_local (New_disc (Some i) nick port tls))\<lparr>an_Timestamp := unix_of t\<rparr>"
  have pid: "idPeerID i = DerivePeerID c (ed_public (idPrivateKey i))" "PublicKeyHex i = hex_encode (ed_public (idPrivateKey i))"
    using assms(2) by (simp_all add: id_ok_def PublicKeyHex_def)
  have f: "an_Type ?p = ''discovery''" "an_PeerID ?p = idPeerID i" "an_PublicKey ?p = PublicKeyHex i" "an_Port ?p = port"
    "an_Nickname ?p = nick" "an_Timestamp ?p = unix_of t"
    by (simp_all add: New_disc_def)
  obtain sig where sig: "Sign_ann c (idPrivateKey i) ?p = Some (?p\<lparr>an_Signature := sig\<rparr>)"
    "Verify_ann uc c t1 (?p\<lparr>an_Signature := sig\<rparr>) = None"
    using Sign_ann_verifies [OF assms(3), of ?p t t1 uc] assms(10-15) f pid by auto
  then have a: "a = ?p\<lparr>an_Signature := sig\<rparr>" using assms(6) by simp
  have "Announce c marshal t (snd (Start_disc True (New_disc (Some i) nick port tls))) = Datagram bytes"
    using assms(6,7) by (simp add: Announce_def Start_disc_def New_disc_def)
  moreover have "idPeerID i \<noteq> []" using DerivePeerID_neq_Nil [OF assms(1)] pid by simp
  moreover have "unmarshal (take 4096 bytes) = Some a" using assms(8,9) by simp
  ultimately show ?thesis
    unfolding receive_datagram_def
    using handle_datagram_enters [OF assms(17), where a = a and uc = uc and c = c and pick = pick and src = src and ?t1.0 = t1 and ?t2.0 = t2 and ?t3.0 = t3]
      assms(4,5,16,18,19) f sig(2)
    by (auto simp: seen_span_def maxSeen_def a)
qed

theorem honest_announcement_verified_witness:
  "\<exists>bytes r' e. Announce toy_crypto (\<lambda>a. Some (an_Signature a)) sample_now
        (snd (Start_disc True (New_disc (Some (sample_ident CHR ''k'')) ''ann'' 7777 True))) = Datagram bytes
    \<and> receive_datagram (\<lambda>b. Some ((ds_local (New_disc (Some (sample_ident CHR ''k'')) ''ann'' 7777 True))
          \<lparr>an_Timestamp := unix_of sample_now, an_Signature := b\<rparr>))
        sample_uc toy_crypto gm_keys sample_now sample_now sample_now bytes [10, 0, 0, 2]
        (SetOnPeer True (New_disc (Some (sample_ident CHR ''j'')) ''bob'' 7777 True)) = Some (r', Some e)
    \<and> gm_get (ds_seen r') (idPeerID (sample_ident CHR ''k'')) = Some e
    \<and> an_Verified e \<and> an_Nickname e = ''ann'' \<and> an_Addr e = JoinHostPort (ip4_String [10, 0, 0, 2]) (FormatInt 7777)"
proof -
  let ?k = "sample_ident CHR ''k''"
  let ?p = "(ds_local (New_disc (Some ?k) ''ann'' 7777 True))\<lparr>an_Timestamp := unix_of sample_now\<rparr>"
  have ne: "idPeerID (sample_ident CHR ''j'') \<noteq> idPeerID ?k"
    by (simp add: sample_ident_def DerivePeerID_def toy_crypto_def hex_encode_inj)
  define sig where "sig = hex_encode (c_sign toy_crypto (idPrivateKey ?k) (signBytes ?p))"
  have sgn: "Sign_ann toy_crypto (idPrivateKey ?k) ?p = Some (?p\<lparr>an_Signature := sig\<rparr>)"
    by (simp add: Sign_ann_def sig_def New_disc_def PublicKeyHex_def sample_ident_def key_size_defs)
  have len: "length sig \<le> 4096"
    by (simp add: sig_def toy_crypto_def)
  show ?thesis
    using honest_announcement_verified [OF toy_sha sample_ident_ok [of "CHR ''k''"] _ _ sgn, where
        marshal = "\<lambda>a. Some (an_Signature a)" and bytes = sig
        and unmarshal = "\<lambda>b. Some (?p\<lparr>an_Signature := b\<rparr>)"
        and ?t1.0 = sample_now and ?t2.0 = sample_now and ?t3.0 = sample_now
        and r = "SetOnPeer True (New_disc (Some (sample_ident CHR ''j'')) ''bob'' 7777 True)" and uc = sample_uc
        and pick = gm_keys and src = "[10, 0, 0, 2]"] ne len
    by (simp add: New_disc_def SetOnPeer_def gm_laws gm_has_def sample_now_def second_def unixToInternal_def)
qed

text \<open>
  C38. An unsigned datagram displaces a verified neighbour: when a datagram without signature names the
  id of a listed, verified neighbour, the table afterwards holds the unsigned announcement under that
  id, with the address of whoever sent it and not verified, and the callback that starts automatic
  connections does not run.
\<close>

theorem unsigned_displaces_verified:
  assumes "disc_inv uc c s" "gm_get (ds_seen s) (an_PeerID a) = Some v" "an_Verified v"
    and "an_Type a = ''discovery''" "0 < an_Port a" "an_Port a \<le> 65535" "an_Signature a = []" "t3 \<le> t2 + 45 * second"
  shows "\<exists>s' e. handle_datagram uc c pick t1 t2 t3 (Some a) src s = Some (s', None)
    \<and> gm_get (ds_seen s') (an_PeerID a) = Some e \<and> \<not> an_Verified e
    \<and> an_Addr e = JoinHostPort (ip4_String src) (FormatInt (an_Port a))"
proof -
  have "an_PeerID a \<noteq> []" "an_PeerID a \<noteq> an_PeerID (ds_local s)" "gm_has (ds_seen s) (an_PeerID a)"
    using assms(1,2) by (auto simp: disc_inv_def table_ok_def entry_ok_def gm_has_def)
  moreover have "Verify_ann uc c t1 a \<noteq> None" using assms(7) by (simp add: Verify_ann_def)
  ultimately show ?thesis
    using handle_datagram_enters [where s = s and a = a and uc = uc and c = c and pick = pick and src = src and ?t1.0 = t1 and ?t2.0 = t2 and ?t3.0 = t3] assms
    by (auto simp: disc_inv_def table_ok_def seen_span_def)
qed

theorem unsigned_displaces_verified_witness:
  "\<exists>s' e. handle_datagram sample_uc toy_crypto gm_keys 0 0 0
      (Some ((ds_local (New_disc (Some (sample_ident CHR ''k'')) ''eve'' 9 True))\<lparr>an_Signature := []\<rparr>)) [10, 0, 0, 9]
      sample_heard = Some (s', None)
    \<and> gm_get (ds_seen s') (idPeerID (sample_ident CHR ''k'')) = Some e \<and> \<not> an_Verified e
    \<and> an_Addr e = JoinHostPort (ip4_String [10, 0, 0, 9]) (FormatInt 9)"
  using unsigned_displaces_verified [OF sample_heard_inv,
    where a = "(ds_local (New_disc (Some (sample_ident CHR ''k'')) ''eve'' 9 True))\<lparr>an_Signature := []\<rparr>"
      and ?t1.0 = 0 and ?t2.0 = 0 and ?t3.0 = 0 and pick = gm_keys and src = "[10, 0, 0, 9]"]
  by (simp add: sample_heard_def New_disc_def gm_laws Let_def second_def)

end
