(* ===== verification/Config.thy ===== *)
theory Config
  imports GoNet Prelude
begin

text \<open>
  \<^verbatim>\<open>src/internal/config/config.go\<close> and \<^verbatim>\<open>file.go\<close>: the settings, the command line and the
  configuration file. The loop of \<^verbatim>\<open>flag.FlagSet.Parse\<close> and the line scanner of
  \<^verbatim>\<open>bufio\<close> (with its limit of 64 KiB per line) are modelled; the integer syntax of flags,
  \<^verbatim>\<open>strconv.ParseInt\<close> with base 0, is the argument \<open>parse_int\<close>, the home directory and the
  file are arguments. Durations are in nanoseconds.
\<close>

section \<open>Settings\<close>

record config =
  cfPort :: int
  cfNickname :: string
  cfDataDir :: string
  cfDebug :: bool
  cfListenHost :: string
  cfNoDiscover :: bool
  cfPlain :: bool
  cfAutoConnect :: bool
  cfReconnect :: bool
  cfLan :: bool
  cfSTUNServer :: string
  cfNoSTUN :: bool
  cfUPnP :: bool
  cfShowVersion :: bool
  cfMaxPeers :: int
  cfMaxMessageSize :: int
  cfMaxHandshakes :: int
  cfPingInterval :: int
  cfIdleTimeout :: int
  cfSeenTTL :: int
  cfSeenMax :: int
  cfHistoryLimit :: int
  cfHandshakeWait :: int
  cfDialTimeout :: int

definition DefaultPort :: int where "DefaultPort = 7777"
definition DefaultMaxPeers :: int where "DefaultMaxPeers = 64"
definition MulticastGroup :: string where "MulticastGroup = ''239.255.77.77''"
definition MulticastPort :: int where "MulticastPort = 7776"

definition Default :: config where
  "Default =
     \<lparr>cfPort = DefaultPort, cfNickname = [], cfDataDir = [], cfDebug = False, cfListenHost = ''0.0.0.0'',
      cfNoDiscover = False, cfPlain = False, cfAutoConnect = False, cfReconnect = False, cfLan = False,
      cfSTUNServer = [], cfNoSTUN = False, cfUPnP = False, cfShowVersion = False, cfMaxPeers = DefaultMaxPeers,
      cfMaxMessageSize = 64 * 1024, cfMaxHandshakes = 32, cfPingInterval = 20 * 10 ^ 9, cfIdleTimeout = 60 * 10 ^ 9,
      cfSeenTTL = 24 * 3600 * 10 ^ 9, cfSeenMax = 50000, cfHistoryLimit = 200, cfHandshakeWait = 5 * 10 ^ 9,
      cfDialTimeout = 10 * 10 ^ 9\<rparr>"

datatype cfg_err =
    FlagSyntax string | FlagHelp | FlagUndefined string | FlagNeedsArg string | FlagValue string string
  | NoHome | CfgOpen | CfgLine nat | CfgKey nat string | CfgTooLong | CfgPort int | CfgMaxPeers int

section \<open>The command line\<close>

definition bool_flag :: "string \<Rightarrow> bool" where
  "bool_flag name \<longleftrightarrow>
     name \<in> set [''debug'', ''no-discover'', ''plain'', ''auto-connect'', ''reconnect'', ''lan'', ''no-stun'', ''upnp'', ''version'']"

definition known_flag :: "string \<Rightarrow> bool" where
  "known_flag name \<longleftrightarrow> bool_flag name \<or> name \<in> set [''port'', ''nickname'', ''data-dir'', ''stun'', ''max-peers'']"

text \<open>\<^verbatim>\<open>strconv.ParseBool\<close>, which the boolean flags use.\<close>

definition ParseBool :: "string \<Rightarrow> bool option" where
  "ParseBool s =
     (if s \<in> set [''1'', ''t'', ''T'', ''true'', ''TRUE'', ''True''] then Some True
      else if s \<in> set [''0'', ''f'', ''F'', ''false'', ''FALSE'', ''False''] then Some False
      else None)"

definition set_bool :: "string \<Rightarrow> bool \<Rightarrow> config \<Rightarrow> config" where
  "set_bool name b cfg =
     (if name = ''debug'' then cfg\<lparr>cfDebug := b\<rparr>
      else if name = ''no-discover'' then cfg\<lparr>cfNoDiscover := b\<rparr>
      else if name = ''plain'' then cfg\<lparr>cfPlain := b\<rparr>
      else if name = ''auto-connect'' then cfg\<lparr>cfAutoConnect := b\<rparr>
      else if name = ''reconnect'' then cfg\<lparr>cfReconnect := b\<rparr>
      else if name = ''lan'' then cfg\<lparr>cfLan := b\<rparr>
      else if name = ''no-stun'' then cfg\<lparr>cfNoSTUN := b\<rparr>
      else if name = ''upnp'' then cfg\<lparr>cfUPnP := b\<rparr>
      else if name = ''version'' then cfg\<lparr>cfShowVersion := b\<rparr>
      else cfg)"

definition set_str :: "string \<Rightarrow> string \<Rightarrow> config \<Rightarrow> config" where
  "set_str name v cfg =
     (if name = ''nickname'' then cfg\<lparr>cfNickname := v\<rparr>
      else if name = ''data-dir'' then cfg\<lparr>cfDataDir := v\<rparr>
      else if name = ''stun'' then cfg\<lparr>cfSTUNServer := v\<rparr>
      else cfg)"

definition set_int :: "string \<Rightarrow> int \<Rightarrow> config \<Rightarrow> config" where
  "set_int name n cfg =
     (if name = ''port'' then cfg\<lparr>cfPort := n\<rparr> else if name = ''max-peers'' then cfg\<lparr>cfMaxPeers := n\<rparr> else cfg)"

definition set_flag :: "(string \<Rightarrow> int option) \<Rightarrow> string \<Rightarrow> string \<Rightarrow> config \<Rightarrow> config option" where
  "set_flag parse_int name v cfg =
     (if bool_flag name then map_option (\<lambda>b. set_bool name b cfg) (ParseBool v)
      else if name = ''port'' \<or> name = ''max-peers'' then map_option (\<lambda>n. set_int name n cfg) (parse_int v)
      else Some (set_str name v cfg))"

datatype flag_token = FStop | FBad | FFlag string "string option"

definition flag_token_of :: "string \<Rightarrow> flag_token" where
  "flag_token_of s =
     (if length s < 2 \<or> s ! 0 \<noteq> CHR ''-'' then FStop
      else if s = ''--'' then FStop
      else
        (let name = (if s ! 1 = CHR ''-'' then drop 2 s else drop 1 s) in
         if name = [] \<or> hd name = CHR ''-'' \<or> hd name = CHR ''='' then FBad
         else
           (case index_byte (tl name) CHR ''='' of
              None \<Rightarrow> FFlag name None
            | Some i \<Rightarrow> FFlag (take (Suc i) name) (Some (drop (i + 2) name)))))"

text \<open>The loop of \<^verbatim>\<open>FlagSet.Parse\<close>: the names that were set and the settings.\<close>

fun flag_loop ::
  "(string \<Rightarrow> int option) \<Rightarrow> string list \<Rightarrow> string list \<Rightarrow> config \<Rightarrow> cfg_err + string list \<times> config" where
  "flag_loop parse_int [] names cfg = Inr (names, cfg)"
| "flag_loop parse_int (s # args) names cfg =
     (case flag_token_of s of
        FStop \<Rightarrow> Inr (names, cfg)
      | FBad \<Rightarrow> Inl (FlagSyntax s)
      | FFlag name val \<Rightarrow>
          if \<not> known_flag name then Inl (if name = ''help'' \<or> name = ''h'' then FlagHelp else FlagUndefined name)
          else if bool_flag name then
            (let v = (case val of Some v \<Rightarrow> v | None \<Rightarrow> ''true'') in
             case set_flag parse_int name v cfg of
               None \<Rightarrow> Inl (FlagValue name v)
             | Some cfg' \<Rightarrow> flag_loop parse_int args (name # names) cfg')
          else
            (case val of
               Some v \<Rightarrow>
                 (case set_flag parse_int name v cfg of
                    None \<Rightarrow> Inl (FlagValue name v)
                  | Some cfg' \<Rightarrow> flag_loop parse_int args (name # names) cfg')
             | None \<Rightarrow>
                 (case args of
                    [] \<Rightarrow> Inl (FlagNeedsArg name)
                  | v # rest \<Rightarrow>
                      (case set_flag parse_int name v cfg of
                         None \<Rightarrow> Inl (FlagValue name v)
                       | Some cfg' \<Rightarrow> flag_loop parse_int rest (name # names) cfg'))))"

section \<open>The configuration file\<close>

definition FilePath :: "(string \<Rightarrow> string \<Rightarrow> string) \<Rightarrow> string \<Rightarrow> string" where
  "FilePath fjoin dataDir = fjoin dataDir ''config''"

definition parseBool :: "unicode \<Rightarrow> string \<Rightarrow> bool option" where
  "parseBool uc v =
     (let s = ToLower uc (TrimSpace v) in
      if s \<in> set [[], ''1'', ''true'', ''yes'', ''on''] then Some True
      else if s \<in> set [''0'', ''false'', ''no'', ''off''] then Some False
      else None)"

definition splitKV :: "string \<Rightarrow> (string \<times> string) option" where
  "splitKV line0 =
     (let line = TrimSpace line0 in
      if line = [] then None
      else
        (case index_byte line CHR ''='' of
           Some i \<Rightarrow> Some (TrimSpace (take i line), TrimSpace (drop (i + 1) line))
         | None \<Rightarrow>
             (let fields = Fields line in
              if length fields = 1 then Some (fields ! 0, ''true'')
              else Some (fields ! 0, Join (tl fields) '' ''))))"

definition applyBool :: "unicode \<Rightarrow> string \<Rightarrow> string \<Rightarrow> config \<Rightarrow> config option" where
  "applyBool uc key value cfg = (case parseBool uc value of None \<Rightarrow> None | Some b \<Rightarrow> Some (set_bool key b cfg))"

definition applyKey :: "unicode \<Rightarrow> string \<Rightarrow> string \<Rightarrow> config \<Rightarrow> config option" where
  "applyKey uc key value cfg =
     (if key = ''port'' \<or> key = ''max-peers'' then
        (case Atoi value of None \<Rightarrow> None | Some n \<Rightarrow> Some (set_int key n cfg))
      else if key = ''nickname'' \<or> key = ''stun'' then Some (set_str key value cfg)
      else if key \<in> set [''debug'', ''no-discover'', ''plain'', ''auto-connect'', ''reconnect'', ''lan'', ''no-stun'', ''upnp'']
      then applyBool uc key value cfg
      else None)"

text \<open>
  The lines of \<^verbatim>\<open>bufio.Scanner\<close>: the tokens it delivers and whether it stopped with
  \<^verbatim>\<open>ErrTooLong\<close>, which it does on a line of 65536 bytes or more.
\<close>

definition MaxScanTokenSize :: nat where "MaxScanTokenSize = 65536"

function scan_lines :: "string \<Rightarrow> string list \<times> bool" where
  "scan_lines raw =
     (if raw = [] then ([], False)
      else
        (let line = takeWhile (\<lambda>ch. ch \<noteq> CHR 0x0A) raw; rest = drop (Suc (length line)) raw in
         if length line \<ge> MaxScanTokenSize then ([], True)
         else (let (ls, long) = scan_lines rest in (dropCR line # ls, long))))"
  by pat_completeness auto
termination by (relation "measure length") auto

declare scan_lines.simps [simp del]

fun file_loop :: "unicode \<Rightarrow> string list \<Rightarrow> nat \<Rightarrow> string list \<Rightarrow> config \<Rightarrow> cfg_err + config" where
  "file_loop uc names n [] cfg = Inr cfg"
| "file_loop uc names n (l # ls) cfg =
     (let raw = TrimSpace l; n' = Suc n in
      if raw = [] \<or> HasPrefix raw ''#'' \<or> HasPrefix raw '';'' then file_loop uc names n' ls cfg
      else
        (case splitKV raw of
           None \<Rightarrow> Inl (CfgLine n')
         | Some (key0, value) \<Rightarrow>
             if key0 = [] then Inl (CfgLine n')
             else
               (let key = ToLower uc key0 in
                if key \<in> set names then file_loop uc names n' ls cfg
                else
                  (case applyKey uc key value cfg of
                     None \<Rightarrow> Inl (CfgKey n' key)
                   | Some cfg' \<Rightarrow> file_loop uc names n' ls cfg'))))"

definition applyFile :: "unicode \<Rightarrow> (string \<Rightarrow> file_read) \<Rightarrow> string list \<Rightarrow> string \<Rightarrow> config \<Rightarrow> cfg_err + config" where
  "applyFile uc fs names path cfg =
     (case fs path of
        FileMissing \<Rightarrow> Inr cfg
      | FileError \<Rightarrow> Inl CfgOpen
      | FileData raw \<Rightarrow>
          (let (ls, long) = scan_lines raw in
           case file_loop uc names 0 ls cfg of
             Inl e \<Rightarrow> Inl e
           | Inr cfg' \<Rightarrow> if long then Inl CfgTooLong else Inr cfg'))"

definition applyLan :: "config \<Rightarrow> config" where
  "applyLan cfg = (if cfLan cfg then cfg\<lparr>cfAutoConnect := True, cfReconnect := True\<rparr> else cfg)"

definition DefaultDataDir :: "(string \<Rightarrow> string \<Rightarrow> string) \<Rightarrow> string option \<Rightarrow> cfg_err + string" where
  "DefaultDataDir fjoin home = (case home of None \<Rightarrow> Inl NoHome | Some h \<Rightarrow> Inr (fjoin h ''.p2pirc''))"

definition flag_defaults :: config where
  "flag_defaults = Default\<lparr>cfSTUNServer := ''stun.l.google.com:19302''\<rparr>"

definition Parse_config ::
  "unicode \<Rightarrow> (string \<Rightarrow> int option) \<Rightarrow> (string \<Rightarrow> string \<Rightarrow> string) \<Rightarrow> string option \<Rightarrow> (string \<Rightarrow> file_read) \<Rightarrow> string list
    \<Rightarrow> cfg_err + config" where
  "Parse_config uc parse_int fjoin home fs args =
     (case flag_loop parse_int args [] flag_defaults of
        Inl e \<Rightarrow> Inl e
      | Inr (names, cfg1) \<Rightarrow>
          (case (if cfDataDir cfg1 = []
                 then (case DefaultDataDir fjoin home of Inl e \<Rightarrow> Inl e | Inr dir \<Rightarrow> Inr (cfg1\<lparr>cfDataDir := dir\<rparr>))
                 else Inr cfg1) of
             Inl e \<Rightarrow> Inl e
           | Inr cfg2 \<Rightarrow>
               (case (if \<not> cfShowVersion cfg2 then applyFile uc fs names (FilePath fjoin (cfDataDir cfg2)) cfg2 else Inr cfg2) of
                  Inl e \<Rightarrow> Inl e
                | Inr cfg3 \<Rightarrow>
                    (let cfg = applyLan cfg3 in
                     if cfPort cfg < 0 \<or> cfPort cfg > 65535 then Inl (CfgPort (cfPort cfg))
                     else if cfMaxPeers cfg < 0 then Inl (CfgMaxPeers (cfMaxPeers cfg))
                     else Inr cfg))))"

text \<open>The value of the setting a flag or a key of the file names.\<close>

datatype setting = SInt int | SStr string | SBool bool

definition setting_of :: "string \<Rightarrow> config \<Rightarrow> setting option" where
  "setting_of k cfg =
     map_of [(''port'', SInt (cfPort cfg)), (''nickname'', SStr (cfNickname cfg)), (''data-dir'', SStr (cfDataDir cfg)),
       (''debug'', SBool (cfDebug cfg)), (''no-discover'', SBool (cfNoDiscover cfg)), (''plain'', SBool (cfPlain cfg)),
       (''auto-connect'', SBool (cfAutoConnect cfg)), (''reconnect'', SBool (cfReconnect cfg)), (''lan'', SBool (cfLan cfg)),
       (''stun'', SStr (cfSTUNServer cfg)), (''no-stun'', SBool (cfNoSTUN cfg)), (''upnp'', SBool (cfUPnP cfg)),
       (''version'', SBool (cfShowVersion cfg)), (''max-peers'', SInt (cfMaxPeers cfg))] k"

text \<open>An example: a command line and a file that disagree.\<close>

definition sample_args :: "string list" where
  "sample_args = [''--port'', ''8080'', ''-auto-connect=false'']"

definition sample_settings :: config where
  "sample_settings = flag_defaults\<lparr>cfPort := 8080, cfAutoConnect := False\<rparr>"

definition sample_file :: "string \<Rightarrow> file_read" where
  "sample_file path = FileData (''port=9'' @ [CHR 0x0A] @ ''lan=on'')"

section \<open>Settings that stay\<close>

lemma setting_set_bool: "k \<noteq> key \<Longrightarrow> setting_of k (set_bool key b cfg) = setting_of k cfg"
  by (auto simp: setting_of_def set_bool_def)

lemma setting_set_str: "k \<noteq> key \<Longrightarrow> setting_of k (set_str key v cfg) = setting_of k cfg"
  by (auto simp: setting_of_def set_str_def)

lemma setting_set_int: "k \<noteq> key \<Longrightarrow> setting_of k (set_int key n cfg) = setting_of k cfg"
  by (auto simp: setting_of_def set_int_def)

lemma applyKey_shape:
  assumes "applyKey uc key v cfg = Some cfg'"
  obtains (int) n where "cfg' = set_int key n cfg" | (str) "cfg' = set_str key v cfg" "key \<noteq> ''data-dir''"
    | (bool) b where "cfg' = set_bool key b cfg"
proof -
  let ?P = "key = ''port'' \<or> key = ''max-peers''" and ?S = "key = ''nickname'' \<or> key = ''stun''"
  consider (p) ?P | (s) "\<not> ?P" ?S | (b) "\<not> ?P" "\<not> ?S" by blast
  then show thesis
  proof cases
    case p
    then have "\<exists>n. set_int key n cfg = cfg'" using assms unfolding applyKey_def by (cases "Atoi v") auto
    then show thesis using int by blast
  next
    case s
    then have "cfg' = set_str key v cfg" using assms unfolding applyKey_def by simp
    moreover have "key \<noteq> ''data-dir''" using s(2) by auto
    ultimately show thesis by (rule str)
  next
    case b
    then have "applyBool uc key v cfg = Some cfg'"
      using assms unfolding applyKey_def if_not_P [OF b(1)] if_not_P [OF b(2)] by (metis option.distinct(1))
    then have "\<exists>b. set_bool key b cfg = cfg'" unfolding applyBool_def by (cases "parseBool uc v") auto
    then show thesis using bool by blast
  qed
qed

lemma applyKey_other: "applyKey uc key v cfg = Some cfg' \<Longrightarrow> k \<noteq> key \<Longrightarrow> setting_of k cfg' = setting_of k cfg"
  by (erule applyKey_shape) (simp_all add: setting_set_bool setting_set_str setting_set_int)

lemma applyKey_dir: "applyKey uc key v cfg = Some cfg' \<Longrightarrow> cfDataDir cfg' = cfDataDir cfg"
  by (erule applyKey_shape) (simp_all add: set_bool_def set_str_def set_int_def)

lemma file_loop_keeps:
  "file_loop uc names n ls cfg = Inr cfg' \<Longrightarrow>
     cfDataDir cfg' = cfDataDir cfg \<and> (\<forall>k \<in> set names. setting_of k cfg' = setting_of k cfg)"
proof (induction uc names n ls cfg rule: file_loop.induct)
  case (2 uc names n l ls cfg)
  let ?raw = "TrimSpace l"
  show ?case
  proof (cases "?raw = [] \<or> HasPrefix ?raw ''#'' \<or> HasPrefix ?raw '';''")
    case True
    then show ?thesis using 2 by (simp add: Let_def)
  next
    case False
    then obtain key0 v where kv: "splitKV ?raw = Some (key0, v)" "key0 \<noteq> []"
      using 2(4) by (auto simp: Let_def split: option.splits if_splits)
    show ?thesis
    proof (cases "ToLower uc key0 \<in> set names")
      case True
      then show ?thesis using 2(2) 2(4) False kv by (simp add: Let_def)
    next
      case not_set: False
      then obtain cfg1 where ap: "applyKey uc (ToLower uc key0) v cfg = Some cfg1"
        using 2(4) False kv by (auto simp: Let_def split: option.splits)
      then have "cfDataDir cfg' = cfDataDir cfg1 \<and> (\<forall>k \<in> set names. setting_of k cfg' = setting_of k cfg1)"
        using 2(3) 2(4) False kv not_set by (simp add: Let_def)
      then show ?thesis using applyKey_dir [OF ap] applyKey_other [OF ap] not_set by metis
    qed
  qed
qed simp

lemma applyFile_keeps:
  "applyFile uc fs names path cfg = Inr cfg' \<Longrightarrow>
     cfDataDir cfg' = cfDataDir cfg \<and> (\<forall>k \<in> set names. setting_of k cfg' = setting_of k cfg)"
  using file_loop_keeps
  by (fastforce simp: applyFile_def Let_def split: file_read.splits sum.splits prod.splits if_splits)

lemma applyLan_setting:
  "setting_of k (applyLan cfg) = (if cfLan cfg \<and> k \<in> {''auto-connect'', ''reconnect''} then Some (SBool True) else setting_of k cfg)"
  by (auto simp: applyLan_def setting_of_def)

section \<open>An example\<close>

lemma sample_flags: "flag_loop Atoi sample_args [] flag_defaults = Inr ([''auto-connect'', ''port''], sample_settings)"
proof -
  have "Atoi ''8080'' = Some 8080" by code_simp
  then show ?thesis
    by (simp add: sample_args_def sample_settings_def flag_token_of_def known_flag_def bool_flag_def set_flag_def ParseBool_def
        set_int_def set_bool_def)
qed

lemma sample_scan: "scan_lines (''port=9'' @ [CHR 0x0A] @ ''lan=on'') = ([''port=9'', ''lan=on''], False)"
  by (simp add: scan_lines.simps dropCR_def MaxScanTokenSize_def)

lemma sample_trim: "TrimSpace ''port=9'' = ''port=9''" "TrimSpace ''lan=on'' = ''lan=on''" "TrimSpace ''port'' = ''port''"
  "TrimSpace ''9'' = ''9''" "TrimSpace ''lan'' = ''lan''" "TrimSpace ''on'' = ''on''"
  by (rule TrimSpace_id; simp add: is_space_def)+

lemma sample_lower: "ToLower uc ''port'' = ''port''" "ToLower uc ''lan'' = ''lan''" "ToLower uc ''on'' = ''on''"
  by (simp_all add: ToLower_ascii ascii_def lower_char_def)

lemma sample_loop:
  "file_loop uc [''auto-connect'', ''port''] 0 [''port=9'', ''lan=on''] cfg = Inr (cfg\<lparr>cfLan := True\<rparr>)"
  by (simp add: sample_trim sample_lower HasPrefix_def splitKV_def applyKey_def applyBool_def parseBool_def set_bool_def)

lemma sample_parse:
  "\<exists>cfg. Parse_config uc Atoi (\<lambda>a b. a @ ''/'' @ b) (Some ''/root'') sample_file sample_args = Inr cfg \<and> cfLan cfg"
proof -
  have "cfDataDir sample_settings = []" "\<not> cfShowVersion sample_settings" "0 \<le> cfPort sample_settings"
    "cfPort sample_settings \<le> 65535" "0 \<le> cfMaxPeers sample_settings"
    by (simp_all add: sample_settings_def flag_defaults_def Default_def DefaultMaxPeers_def)
  then show ?thesis
    using sample_scan sample_loop
    by (simp add: Parse_config_def sample_flags DefaultDataDir_def applyFile_def sample_file_def applyLan_def)
qed

section \<open>Properties\<close>

text \<open>
  C39. The command line prevails over the file: when Parse succeeds, the port is between 0 and 65535 and
  the peer limit is not negative, the data directory is the one of the command line or the default
  one, never one from the file, and every setting named on the command line has the value the command
  line gave it, whatever the file says, except that the lan preset (from the command line or the
  file) turns on automatic connection and reconnection even against an explicit flag.
\<close>

theorem command_line_prevails:
  assumes "Parse_config uc parse_int fjoin home fs args = Inr cfg"
  shows "0 \<le> cfPort cfg \<and> cfPort cfg \<le> 65535 \<and> 0 \<le> cfMaxPeers cfg
    \<and> (\<exists>names cfg1. flag_loop parse_int args [] flag_defaults = Inr (names, cfg1)
        \<and> cfDataDir cfg = (if cfDataDir cfg1 = [] then fjoin (the home) ''.p2pirc'' else cfDataDir cfg1)
        \<and> (\<forall>k \<in> set names. k = ''data-dir'' \<or> setting_of k cfg =
             (if cfLan cfg \<and> k \<in> {''auto-connect'', ''reconnect''} then Some (SBool True) else setting_of k cfg1)))"
proof -
  obtain names cfg1 where fl: "flag_loop parse_int args [] flag_defaults = Inr (names, cfg1)"
    using assms by (auto simp: Parse_config_def split: sum.splits)
  define cfg2 where "cfg2 = (if cfDataDir cfg1 = [] then cfg1\<lparr>cfDataDir := fjoin (the home) ''.p2pirc''\<rparr> else cfg1)"
  define step where "step = (if \<not> cfShowVersion cfg2 then applyFile uc fs names (FilePath fjoin (cfDataDir cfg2)) cfg2 else Inr cfg2)"
  have home: "cfDataDir cfg1 = [] \<Longrightarrow> home \<noteq> None"
    using assms fl by (cases home) (auto simp: Parse_config_def DefaultDataDir_def)
  then have dir: "(if cfDataDir cfg1 = []
      then (case DefaultDataDir fjoin home of Inl e \<Rightarrow> Inl e | Inr dir \<Rightarrow> Inr (cfg1\<lparr>cfDataDir := dir\<rparr>)) else Inr cfg1) = Inr cfg2"
    by (auto simp: cfg2_def DefaultDataDir_def)
  obtain cfg3 where c3: "step = Inr cfg3" "applyLan cfg3 = cfg" "0 \<le> cfPort cfg" "cfPort cfg \<le> 65535" "0 \<le> cfMaxPeers cfg"
    using assms unfolding Parse_config_def fl sum.case prod.case dir step_def [symmetric]
    by (auto simp: Let_def split: sum.splits if_splits)
  have keep: "cfDataDir cfg3 = cfDataDir cfg2 \<and> (\<forall>k \<in> set names. setting_of k cfg3 = setting_of k cfg2)"
    using c3(1) applyFile_keeps by (auto simp: step_def split: if_splits)
  have other: "k \<noteq> ''data-dir'' \<Longrightarrow> setting_of k cfg2 = setting_of k cfg1" for k
    by (simp add: cfg2_def setting_of_def)
  have lan: "cfLan cfg = cfLan cfg3" "cfDataDir cfg = cfDataDir cfg3" unfolding c3(2) [symmetric] by (simp_all add: applyLan_def)
  have "setting_of k cfg = (if cfLan cfg \<and> k \<in> {''auto-connect'', ''reconnect''} then Some (SBool True) else setting_of k cfg1)"
    if "k \<in> set names" "k \<noteq> ''data-dir''" for k
    using applyLan_setting [of k cfg3] keep that other [OF that(2)] lan(1) unfolding c3(2) by (auto split: if_split)
  moreover have "cfDataDir cfg = (if cfDataDir cfg1 = [] then fjoin (the home) ''.p2pirc'' else cfDataDir cfg1)"
    using keep lan(2) by (simp add: cfg2_def)
  ultimately show ?thesis using fl c3 by blast
qed

theorem command_line_prevails_witness:
  "\<exists>cfg. Parse_config \<lparr>uc_lower = id, uc_fold = id\<rparr> Atoi (\<lambda>a b. a @ ''/'' @ b) (Some ''/root'') sample_file sample_args = Inr cfg
    \<and> setting_of ''port'' cfg = Some (SInt 8080) \<and> setting_of ''auto-connect'' cfg = Some (SBool True)"
proof -
  let ?uc = "\<lparr>uc_lower = id, uc_fold = id\<rparr>"
  obtain cfg where cfg: "Parse_config ?uc Atoi (\<lambda>a b. a @ ''/'' @ b) (Some ''/root'') sample_file sample_args = Inr cfg" "cfLan cfg"
    using sample_parse by blast
  from command_line_prevails [OF cfg(1)] show ?thesis
    using cfg by (auto simp: sample_flags setting_of_def sample_settings_def)
qed

end
