(* ===== verification/Upnp.thy ===== *)
theory Upnp
  imports GoNet Prelude "HOL-Library.Sublist" "HOL-Library.Multiset"
begin

text \<open>
  \<^verbatim>\<open>src/internal/upnp/upnp.go\<close>: mapping the listen port through an Internet gateway. The answers of the
  network are arguments: the datagram that answers the search, and for each HTTP request its response
  (the requests of one call are numbered in their order). Every operation returns the requests it made
  along with its result. The two regular expressions are written out as the matches they find; in both, the
  part before the captured group cannot match in two ways, so the leftmost match is the first position
  that matches at all.
\<close>

section \<open>Text\<close>

text \<open>\<^verbatim>\<open>strings.Index\<close>.\<close>

fun Index :: "string \<Rightarrow> string \<Rightarrow> nat option" where
  "Index [] sub = (if sub = [] then Some 0 else None)"
| "Index (x # xs) sub = (if HasPrefix (x # xs) sub then Some 0 else map_option Suc (Index xs sub))"

text \<open>The class \<^verbatim>\<open>\s\<close> of regular expressions.\<close>

definition re_space :: "char \<Rightarrow> bool" where
  "re_space ch \<longleftrightarrow> ch \<in> set [CHR 0x09, CHR 0x0A, CHR 0x0C, CHR 0x0D, CHR '' '']"

text \<open>\<^verbatim>\<open>(?i)LOCATION:\s*(\S+)\<close>: the group of a match at the start of the text, and of the first match.\<close>

definition location_at :: "string \<Rightarrow> string option" where
  "location_at s =
     (if map lower_char (take 9 s) = ''location:''
      then (let v = takeWhile (\<lambda>ch. \<not> re_space ch) (dropWhile re_space (drop 9 s)) in if v \<noteq> [] then Some v else None)
      else None)"

fun find_location :: "string \<Rightarrow> string option" where
  "find_location [] = None"
| "find_location (x # xs) = (case location_at (x # xs) of Some v \<Rightarrow> Some v | None \<Rightarrow> find_location xs)"

definition parseLocation :: "string \<Rightarrow> string" where
  "parseLocation resp = (case find_location resp of None \<Rightarrow> [] | Some v \<Rightarrow> TrimSpace v)"

text \<open>
  \<^verbatim>\<open>(?s)<tag[^>]*>\s*([^<]+)\s*</tag>\<close>: of a body of blanks only, the group is the last one, which \<^verbatim>\<open>\s*\<close> gives back.
\<close>

definition tag_at :: "string \<Rightarrow> string \<Rightarrow> string option" where
  "tag_at tag s =
     (if HasPrefix s (''<'' @ tag)
      then
        (let r = drop (length tag + 1) s in
         case index_byte r CHR ''>'' of
           None \<Rightarrow> None
         | Some i \<Rightarrow>
             (let r2 = drop (Suc i) r; body = takeWhile (\<lambda>ch. ch \<noteq> CHR ''<'') r2 in
              if body \<noteq> [] \<and> HasPrefix (drop (length body) r2) (''</'' @ tag @ ''>'')
              then Some (let v = dropWhile re_space body in if v = [] then [last body] else v)
              else None))
      else None)"

fun find_tag :: "string \<Rightarrow> string \<Rightarrow> string option" where
  "find_tag tag [] = None"
| "find_tag tag (x # xs) = (case tag_at tag (x # xs) of Some v \<Rightarrow> Some v | None \<Rightarrow> find_tag tag xs)"

definition extractTag :: "string \<Rightarrow> string \<Rightarrow> string" where
  "extractTag s tag = (case find_tag tag s of None \<Rightarrow> [] | Some v \<Rightarrow> TrimSpace v)"

definition resolveURL :: "string \<Rightarrow> string \<Rightarrow> string" where
  "resolveURL base ref0 =
     (if HasPrefix ref0 ''http://'' \<or> HasPrefix ref0 ''https://'' then ref0
      else
        (let u = (case Index base ''://'' of
                    None \<Rightarrow> base
                  | Some i \<Rightarrow> (case Index (drop (i + 3) base) ''/'' of None \<Rightarrow> base | Some j \<Rightarrow> take (i + 3 + j) base));
             ref = (if HasPrefix ref0 ''/'' then ref0 else ''/'' @ ref0) in
         u @ ref))"

definition wan_services :: "string list" where
  "wan_services =
     [''urn:schemas-upnp-org:service:WANIPConnection:1'', ''urn:schemas-upnp-org:service:WANIPConnection:2'',
      ''urn:schemas-upnp-org:service:WANPPPConnection:1'']"

fun control_loop :: "string \<Rightarrow> string \<Rightarrow> string list \<Rightarrow> string \<times> string" where
  "control_loop base raw [] = ([], [])"
| "control_loop base raw (svc # svcs) =
     (case Index raw svc of
        None \<Rightarrow> control_loop base raw svcs
      | Some idx \<Rightarrow>
          (let chunk0 = drop idx raw;
               chunk = (case Index chunk0 ''</service>'' of None \<Rightarrow> chunk0 | Some e \<Rightarrow> if e > 0 then take e chunk0 else chunk0);
               cu = extractTag chunk ''controlURL'' in
           if cu = [] then control_loop base raw svcs else (resolveURL base cu, svc)))"

definition findWANIPControl :: "string \<Rightarrow> string \<Rightarrow> string \<times> string" where
  "findWANIPControl base raw = control_loop base raw wan_services"

text \<open>\<^verbatim>\<open>xml.EscapeText\<close>: the escaped characters, and U+FFFD for what XML does not allow.\<close>

definition xml_char :: "nat \<Rightarrow> bool" where
  "xml_char r \<longleftrightarrow>
     r = 0x09 \<or> r = 0x0A \<or> r = 0x0D \<or> (0x20 \<le> r \<and> r \<le> 0xD7FF) \<or> (0xE000 \<le> r \<and> r \<le> 0xFFFD) \<or> (0x10000 \<le> r \<and> r \<le> 0x10FFFF)"

definition escape_rune :: "nat \<Rightarrow> string" where
  "escape_rune r =
     (if r = 34 then ''&#34;'' else if r = 39 then ''&#39;'' else if r = 38 then ''&amp;''
      else if r = 60 then ''&lt;'' else if r = 62 then ''&gt;''
      else if r = 9 then ''&#x9;'' else if r = 10 then ''&#xA;'' else if r = 13 then ''&#xD;''
      else if \<not> xml_char r then encode_runes [0xFFFD]
      else encode_runes [r])"

definition xmlEscape :: "string \<Rightarrow> string" where
  "xmlEscape s = concat (map escape_rune (runes s))"

section \<open>Requests\<close>

record http_req =
  rq_method :: string
  rq_url :: string
  rq_soap :: string
  rq_body :: string

text \<open>A response: its status, its body and whether the body could be read to the end.\<close>

record http_res =
  rs_status :: int
  rs_body :: string
  rs_read :: bool

record upnp_env =
  ue_ssdp :: "string option"
  ue_http :: "nat \<Rightarrow> http_req \<Rightarrow> http_res option"
  ue_range :: "nat \<Rightarrow> string list \<Rightarrow> string list"

datatype upnp_err = UPort | UDiscover | UNoLocation | UHttp | UNoControl | UNilMapping | UStatus string int

record mapping =
  mp_External :: string
  mp_LocalIP :: string
  mp_Port :: int
  mp_control :: string
  mp_service :: string

definition bodyLimit :: nat where "bodyLimit = 2 ^ 20"

definition discover :: "upnp_env \<Rightarrow> upnp_err + string" where
  "discover env =
     (case ue_ssdp env of
        None \<Rightarrow> Inl UDiscover
      | Some d \<Rightarrow> (let loc = parseLocation (take 4096 d) in if loc = [] then Inl UNoLocation else Inr loc))"

definition get_req :: "string \<Rightarrow> http_req" where
  "get_req loc = \<lparr>rq_method = ''GET'', rq_url = loc, rq_soap = [], rq_body = []\<rparr>"

definition controlURL :: "upnp_env \<Rightarrow> nat \<Rightarrow> string \<Rightarrow> upnp_err + string \<times> string" where
  "controlURL env k loc =
     (case ue_http env k (get_req loc) of
        None \<Rightarrow> Inl UHttp
      | Some res \<Rightarrow>
          if \<not> rs_read res then Inl UHttp
          else
            (case findWANIPControl loc (take bodyLimit (rs_body res)) of
               (control, service) \<Rightarrow> if control = [] then Inl UNoControl else Inr (control, service)))"

text \<open>The arguments of an action in the order in which the map is iterated.\<close>

definition soap_body :: "string list \<Rightarrow> (string, string) gomap \<Rightarrow> string" where
  "soap_body order args =
     concat (map (\<lambda>k. ''<'' @ k @ ''>'' @ xmlEscape (case gm_get args k of None \<Rightarrow> [] | Some v \<Rightarrow> v) @ ''</'' @ k @ ''>'') order)"

definition soap_req :: "string list \<Rightarrow> string \<Rightarrow> string \<Rightarrow> string \<Rightarrow> (string, string) gomap \<Rightarrow> http_req" where
  "soap_req order control service action args =
     \<lparr>rq_method = ''POST'', rq_url = control, rq_soap = [CHR 0x22] @ service @ ''#'' @ action @ [CHR 0x22],
      rq_body =
        ''<?xml version=\"1.0\"?>''
        @ ''<s:Envelope xmlns:s=\"http://schemas.xmlsoap.org/soap/envelope/\" s:encodingStyle=\"http://schemas.xmlsoap.org/soap/encoding/\">''
        @ ''<s:Body><u:'' @ action @ '' xmlns:u=\"'' @ service @ ''\">'' @ soap_body order args
        @ ''</u:'' @ action @ ''></s:Body></s:Envelope>''\<rparr>"

text \<open>\<^verbatim>\<open>soapRaw\<close>: the body or the error, with the request; a body that breaks off is used as far as it was read.\<close>

definition soapRaw ::
  "upnp_env \<Rightarrow> nat \<Rightarrow> string \<Rightarrow> string \<Rightarrow> string \<Rightarrow> (string, string) gomap \<Rightarrow> (upnp_err + string) \<times> http_req" where
  "soapRaw env k control service action args =
     (let req = soap_req (ue_range env k (gm_keys args)) control service action args in
      (case ue_http env k req of
         None \<Rightarrow> Inl UHttp
       | Some res \<Rightarrow> if rs_status res \<ge> 300 then Inl (UStatus action (rs_status res)) else Inr (take bodyLimit (rs_body res)), req))"

definition soap ::
  "upnp_env \<Rightarrow> nat \<Rightarrow> string \<Rightarrow> string \<Rightarrow> string \<Rightarrow> (string, string) gomap \<Rightarrow> upnp_err option \<times> http_req" where
  "soap env k control service action args =
     (case soapRaw env k control service action args of (r, req) \<Rightarrow> (case r of Inl e \<Rightarrow> Some e | Inr b \<Rightarrow> None, req))"

definition getExternalIP :: "upnp_env \<Rightarrow> nat \<Rightarrow> string \<Rightarrow> string \<Rightarrow> (upnp_err + string) \<times> http_req" where
  "getExternalIP env k control service =
     (case soapRaw env k control service ''GetExternalIPAddress'' gm_empty of
        (Inl e, req) \<Rightarrow> (Inl e, req)
      | (Inr body, req) \<Rightarrow> (Inr (extractTag body ''NewExternalIPAddress''), req))"

definition add_args :: "string \<Rightarrow> int \<Rightarrow> (string, string) gomap" where
  "add_args localIP port =
     [(''NewRemoteHost'', []), (''NewExternalPort'', FormatInt port), (''NewProtocol'', ''TCP''), (''NewInternalPort'', FormatInt port),
      (''NewInternalClient'', localIP), (''NewEnabled'', ''1''), (''NewPortMappingDescription'', ''p2pirc''), (''NewLeaseDuration'', ''3600'')]"

definition delete_args :: "int \<Rightarrow> (string, string) gomap" where
  "delete_args port = [(''NewRemoteHost'', []), (''NewExternalPort'', FormatInt port), (''NewProtocol'', ''TCP'')]"

text \<open>
  \<^verbatim>\<open>MapTCP\<close>, with the numbered requests it made: first the part after the control URL is known.
\<close>

definition add_mapping :: "upnp_env \<Rightarrow> string \<Rightarrow> int \<Rightarrow> string \<Rightarrow> string \<Rightarrow> (upnp_err + mapping) \<times> (nat \<times> http_req) list" where
  "add_mapping env localIP port control service =
     (case getExternalIP env 1 control service of
        (ext, req1) \<Rightarrow>
          (case soap env 2 control service ''AddPortMapping'' (add_args localIP port) of
             (Some e, req2) \<Rightarrow> (Inl e, [(1, req1), (2, req2)])
           | (None, req2) \<Rightarrow>
               (let extIP = (case ext of Inl e \<Rightarrow> [] | Inr ip \<Rightarrow> ip);
                    host = (if extIP = [] then ''0.0.0.0'' else extIP) in
                (Inr \<lparr>mp_External = JoinHostPort host (FormatInt port), mp_LocalIP = localIP, mp_Port = port,
                     mp_control = control, mp_service = service\<rparr>,
                 [(1, req1), (2, req2)]))))"

definition MapTCP :: "upnp_env \<Rightarrow> string \<Rightarrow> int \<Rightarrow> (upnp_err + mapping) \<times> (nat \<times> http_req) list" where
  "MapTCP env localIP port =
     (if port \<le> 0 then (Inl UPort, [])
      else
        (case discover env of
           Inl e \<Rightarrow> (Inl e, [])
         | Inr loc \<Rightarrow>
             (case controlURL env 0 loc of
                Inl e \<Rightarrow> (Inl e, [(0, get_req loc)])
              | Inr (control, service) \<Rightarrow>
                  (case add_mapping env localIP port control service of
                     (res, reqs) \<Rightarrow> (res, (0, get_req loc) # reqs)))))"

text \<open>The function \<^verbatim>\<open>MapTCP\<close> returns to delete the mapping, and \<^verbatim>\<open>Renew\<close>.\<close>

definition unmap :: "upnp_env \<Rightarrow> nat \<Rightarrow> mapping \<Rightarrow> http_req" where
  "unmap env k m = snd (soap env k (mp_control m) (mp_service m) ''DeletePortMapping'' (delete_args (mp_Port m)))"

fun Renew :: "upnp_env \<Rightarrow> nat \<Rightarrow> mapping option \<Rightarrow> upnp_err option \<times> http_req list" where
  "Renew env k None = (Some UNilMapping, [])"
| "Renew env k (Some m) =
     (case soap env k (mp_control m) (mp_service m) ''AddPortMapping'' (add_args (mp_LocalIP m) (mp_Port m)) of
        (e, req) \<Rightarrow> (e, [req]))"

text \<open>Text as it stands in a URL: visible ASCII characters, no angle bracket.\<close>

definition url_text :: "string \<Rightarrow> bool" where
  "url_text s \<longleftrightarrow> s \<noteq> [] \<and> (\<forall>c \<in> set s. 0x21 \<le> (of_char c :: nat) \<and> (of_char c :: nat) < 0x7F \<and> c \<noteq> CHR ''<'')"

text \<open>
  The reference for the requests, from the UPnP standard: the element of an argument, the SOAP message
  of an action whose arguments may come in any order, and the two messages the program needs.
\<close>

definition elem :: "string \<Rightarrow> string \<Rightarrow> string" where
  "elem name v = ''<'' @ name @ ''>'' @ v @ ''</'' @ name @ ''>''"

definition soap_message :: "string \<Rightarrow> string \<Rightarrow> string \<Rightarrow> string list \<Rightarrow> http_req \<Rightarrow> bool" where
  "soap_message control service action elems r \<longleftrightarrow>
     rq_method r = ''POST'' \<and> rq_url r = control
     \<and> rq_soap r = [CHR 0x22] @ service @ ''#'' @ action @ [CHR 0x22]
     \<and> (\<exists>es. mset es = mset elems \<and>
          rq_body r =
            ''<?xml version=\"1.0\"?><s:Envelope xmlns:s=\"http://schemas.xmlsoap.org/soap/envelope/\" ''
            @ ''s:encodingStyle=\"http://schemas.xmlsoap.org/soap/encoding/\"><s:Body><u:'' @ action
            @ '' xmlns:u=\"'' @ service @ ''\">'' @ concat es @ ''</u:'' @ action @ ''></s:Body></s:Envelope>'')"

text \<open>A request that asks for the mapping, one that asks to delete it, and one that the gateway granted.\<close>

definition asks_mapping :: "string \<Rightarrow> int \<Rightarrow> string \<Rightarrow> string \<Rightarrow> http_req \<Rightarrow> bool" where
  "asks_mapping localIP port control service r \<longleftrightarrow>
     soap_message control service ''AddPortMapping''
       [elem ''NewRemoteHost'' [], elem ''NewExternalPort'' (FormatInt port), elem ''NewProtocol'' ''TCP'',
        elem ''NewInternalPort'' (FormatInt port), elem ''NewInternalClient'' (xmlEscape localIP), elem ''NewEnabled'' ''1'',
        elem ''NewPortMappingDescription'' ''p2pirc'', elem ''NewLeaseDuration'' ''3600''] r"

definition asks_deletion :: "int \<Rightarrow> string \<Rightarrow> string \<Rightarrow> http_req \<Rightarrow> bool" where
  "asks_deletion port control service r \<longleftrightarrow>
     soap_message control service ''DeletePortMapping''
       [elem ''NewRemoteHost'' [], elem ''NewExternalPort'' (FormatInt port), elem ''NewProtocol'' ''TCP''] r"

text \<open>Ranging over a map visits every key once.\<close>

definition ranges_ok :: "upnp_env \<Rightarrow> bool" where
  "ranges_ok env \<longleftrightarrow> (\<forall>k ks. mset (ue_range env k ks) = mset ks)"

definition granted :: "upnp_env \<Rightarrow> nat \<times> http_req \<Rightarrow> bool" where
  "granted env kr \<longleftrightarrow> (case ue_http env (fst kr) (snd kr) of None \<Rightarrow> False | Some res \<Rightarrow> rs_status res < 300)"

text \<open>An example: a gateway that answers every request with the same page, and its description as in the tests.\<close>

definition sample_page :: string where
  "sample_page =
     [CHR 0x0A] @ ''<root>'' @ [CHR 0x0A] @ ''  <device>'' @ [CHR 0x0A] @ ''    <serviceList>'' @ [CHR 0x0A] @ ''      <service>''
     @ [CHR 0x0A] @ ''        <serviceType>urn:schemas-upnp-org:service:WANIPConnection:1</serviceType>''
     @ [CHR 0x0A] @ ''        <controlURL>/ctl/IPConn</controlURL>'' @ [CHR 0x0A] @ ''      </service>'' @ [CHR 0x0A] @ ''    </serviceList>''
     @ [CHR 0x0A] @ ''  </device>'' @ [CHR 0x0A] @ ''</root>''"

definition sample_gateway :: "string \<Rightarrow> int \<Rightarrow> upnp_env" where
  "sample_gateway page status =
     \<lparr>ue_ssdp = Some (''LOCATION: http://g/d''),
      ue_http = (\<lambda>k r. Some \<lparr>rs_status = status, rs_body = page, rs_read = True\<rparr>), ue_range = (\<lambda>k ks. ks)\<rparr>"

section \<open>Search\<close>

lemma HasPrefix_Cons: "HasPrefix (x # xs) (y # ys) \<longleftrightarrow> x = y \<and> HasPrefix xs ys"
  by (auto simp: HasPrefix_def)

lemma HasPrefix_Nil [simp]: "HasPrefix s []" "y \<noteq> [] \<Longrightarrow> \<not> HasPrefix [] y"
  by (auto simp: HasPrefix_def)

lemma HasPrefix_append_left [simp]: "HasPrefix (p @ s) p"
  by (simp add: HasPrefix_def)

lemma HasPrefix_prefix: "HasPrefix s p \<longleftrightarrow> prefix p s"
  by (metis HasPrefix_def append_eq_conv_conj prefix_def)

text \<open>A pattern that holds its first character only once cannot begin in \<open>xs\<close> and end after it.\<close>

lemma no_straddle:
  assumes "c \<notin> set sub" "\<not> prefix (c # sub) (x # xs)"
  shows "\<not> prefix (c # sub) (x # xs @ c # zs)"
proof
  assume p: "prefix (c # sub) (x # xs @ c # zs)"
  then consider "prefix (c # sub) (x # xs)" | ys where "c # sub = (x # xs) @ ys" "prefix ys (c # zs)" "ys \<noteq> []"
    using prefix_append [of "c # sub" "x # xs" "c # zs"] by (metis append_Cons append_Nil2 prefix_order.eq_iff)
  then show False
  proof cases
    case 2
    then have "c \<in> set sub" by (cases ys) (auto simp: prefix_Cons)
    then show False using assms(1) by simp
  qed (use assms(2) in simp)
qed

lemma Index_skip:
  assumes "c \<notin> set sub" "\<not> sublist (c # sub) xs"
  shows "Index (xs @ c # zs) (c # sub) = map_option ((+) (length xs)) (Index (c # zs) (c # sub))"
  using assms(2)
proof (induction xs)
  case (Cons x xs)
  then have "\<not> prefix (c # sub) (x # xs)" "\<not> sublist (c # sub) xs"
    by (auto simp: sublist_Cons_right)
  then have "\<not> HasPrefix (x # xs @ c # zs) (c # sub)"
    unfolding HasPrefix_prefix by (intro no_straddle assms(1))
  then have "Index ((x # xs) @ c # zs) (c # sub) = map_option Suc (Index (xs @ c # zs) (c # sub))"
    by (simp only: append_Cons Index.simps if_False)
  also have "\<dots> = map_option ((+) (length (x # xs))) (Index (c # zs) (c # sub))"
    using Cons by (cases "Index (c # zs) (c # sub)") (simp_all add: sublist_Cons_right del: Index.simps)
  finally show ?case .
qed (cases "Index (c # zs) (c # sub)"; simp del: Index.simps)

lemma Index_here: "s \<noteq> [] \<Longrightarrow> HasPrefix s sub \<Longrightarrow> Index s sub = Some 0"
  by (cases s) auto

lemma Index_none: "\<not> sublist sub s \<Longrightarrow> Index s sub = None"
  by (induction s) (auto simp: HasPrefix_prefix sublist_Cons_right)

lemma Index_first:
  "(\<forall>k < length pre. \<not> prefix sub (drop k (pre @ sub @ s))) \<Longrightarrow> sub \<noteq> [] \<Longrightarrow> Index (pre @ sub @ s) sub = Some (length pre)"
proof (induction pre)
  case Nil
  then show ?case using Index_here [of "sub @ s" sub] by (simp add: HasPrefix_prefix)
next
  case (Cons x pre)
  have "\<not> prefix sub (x # pre @ sub @ s)" using Cons.prems(1) by force
  moreover have "\<forall>k < length pre. \<not> prefix sub (drop k (pre @ sub @ s))"
    using Cons.prems(1) by (metis Suc_less_eq append_Cons drop_Suc_Cons length_Cons)
  ultimately show ?case using Cons.IH Cons.prems(2) by (simp add: HasPrefix_prefix)
qed

lemma find_tag_skip:
  assumes "CHR ''<'' \<notin> set tag" "\<not> sublist (CHR ''<'' # tag) xs"
  shows "find_tag tag (xs @ CHR ''<'' # zs) = find_tag tag (CHR ''<'' # zs)"
  using assms(2)
proof (induction xs)
  case (Cons x xs)
  then have "\<not> prefix (CHR ''<'' # tag) (x # xs)" "\<not> sublist (CHR ''<'' # tag) xs"
    by (auto simp: sublist_Cons_right)
  then have "\<not> HasPrefix (x # xs @ CHR ''<'' # zs) (''<'' @ tag)"
    unfolding HasPrefix_prefix append_Cons append_Nil by (intro no_straddle assms(1))
  then have "tag_at tag (x # xs @ CHR ''<'' # zs) = None"
    by (simp only: tag_at_def if_False)
  then have "find_tag tag ((x # xs) @ CHR ''<'' # zs) = find_tag tag (xs @ CHR ''<'' # zs)"
    by simp
  then show ?case using Cons by (simp add: sublist_Cons_right del: find_tag.simps)
qed (simp del: find_tag.simps)

lemma find_tag_here: "tag_at tag s = Some v \<Longrightarrow> find_tag tag s = Some v"
  by (cases s) (auto simp: tag_at_def)

lemma tag_at_body:
  assumes "list_all re_space ws" "url_text v" "list_all re_space ws'" "CHR ''>'' \<notin> set tag"
  shows "tag_at tag (''<'' @ tag @ ''>'' @ ws @ v @ ws' @ ''</'' @ tag @ ''>'' @ rest) = Some (v @ ws')"
proof -
  let ?body = "ws @ v @ ws'"
  have sp: "re_space ch \<Longrightarrow> ch \<noteq> CHR ''<''" for ch by (auto simp: re_space_def)
  have sp21: "re_space ch \<Longrightarrow> (of_char ch :: nat) < 0x21" for ch by (auto simp: re_space_def)
  have v: "v \<noteq> []" "CHR ''<'' \<notin> set v" using assms(2) by (auto simp: url_text_def)
  have "0x21 \<le> (of_char (hd v) :: nat)" using assms(2) by (simp add: url_text_def)
  then have v3: "\<not> re_space (hd v)" using sp21 [of "hd v"] by linarith
  have "\<forall>ch \<in> set ?body. ch \<noteq> CHR ''<''" using assms(1,3) v(2) sp by (auto simp: list_all_iff)
  then have "takeWhile (\<lambda>ch. ch \<noteq> CHR ''<'') (?body @ ''</'' @ tag @ ''>'' @ rest) = ?body"
    by (subst takeWhile_append2) auto
  moreover have "dropWhile re_space ?body = v @ ws'"
    using assms(1) v(1) v3 by (cases v) (auto simp: dropWhile_append list_all_iff)
  ultimately show ?thesis using v(1) assms(4) by (simp add: tag_at_def HasPrefix_def)
qed

lemma re_space_is_space: "re_space c \<Longrightarrow> is_space (of_char c) \<and> (of_char c :: nat) < 128"
  by (auto simp: re_space_def is_space_def)

lemma trim_right_b_space: "is_space b \<Longrightarrow> b < 128 \<Longrightarrow> trim_right_b (bs @ [b]) = trim_right_b bs"
  by (subst trim_right_b.simps) (simp add: decode_last_rune_def)

lemma TrimSpace_url: "url_text v \<Longrightarrow> list_all re_space ws \<Longrightarrow> TrimSpace (v @ ws) = v"
proof -
  assume v: "url_text v" and ws: "list_all re_space ws"
  have ch: "(of_char c :: nat) < 128 \<and> \<not> is_space (of_char c)" if "c \<in> set v" for c
    using v that by (fastforce simp: url_text_def is_space_def)
  have ne: "v \<noteq> []" using v by (simp add: url_text_def)
  have "trim_left_b (bytes_of (v @ ws)) = bytes_of (v @ ws)"
    using ne ch by (cases v) (auto simp: bytes_of_def trim_left_b_id)
  moreover have "trim_right_b (bytes_of (v @ ws)) = trim_right_b (bytes_of v)"
    using ws by (induction ws rule: rev_induct)
      (auto simp: bytes_of_def re_space_is_space simp flip: append_assoc intro!: trim_right_b_space [THEN trans])
  moreover have "TrimSpace v = v"
    using ne ch [of "hd v"] ch [of "last v"] by (intro TrimSpace_id) auto
  moreover have "trim_left_b (bytes_of v) = bytes_of v"
    using ne ch by (cases v) (auto simp: bytes_of_def trim_left_b_id)
  ultimately show ?thesis by (simp add: TrimSpace_def)
qed

lemma resolveURL_parts:
  assumes "CHR '':'' \<notin> set scheme" "CHR ''/'' \<notin> set host" "tail = [] \<or> hd tail = CHR ''/''"
  shows "resolveURL (scheme @ ''://'' @ host @ tail) ref =
    (if HasPrefix ref ''http://'' \<or> HasPrefix ref ''https://'' then ref
     else scheme @ ''://'' @ host @ (if HasPrefix ref ''/'' then ref else ''/'' @ ref))"
proof -
  let ?base = "scheme @ ''://'' @ host @ tail"
  have "\<not> prefix ''://'' (drop k ?base)" if "k < length scheme" for k
  proof -
    have "drop k ?base = scheme ! k # drop (Suc k) scheme @ ''://'' @ host @ tail"
      using that by (simp add: Cons_nth_drop_Suc [symmetric])
    moreover have "scheme ! k \<noteq> CHR '':''" using that assms(1) nth_mem by force
    ultimately show ?thesis by simp
  qed
  then have i: "Index ?base ''://'' = Some (length scheme)" by (intro Index_first) simp_all
  have j: "Index (host @ tail) ''/'' = (if tail = [] then None else Some (length host))"
  proof (cases tail)
    case Nil
    then have "\<not> sublist ''/'' (host @ tail)" using assms(2) by (auto simp: sublist_def)
    then show ?thesis using Nil Index_none by simp
  next
    case (Cons x t)
    moreover have "\<not> sublist ''/'' host" using assms(2) by (auto simp: sublist_def)
    ultimately show ?thesis
      using assms(3) Index_skip [of "CHR ''/''" "[]" host t] by (simp add: HasPrefix_Cons)
  qed
  show ?thesis
    unfolding resolveURL_def Let_def i option.case using j assms(3) by (cases tail) (auto simp: HasPrefix_Cons take_add)
qed

section \<open>Granted mappings\<close>

text \<open>Letters, digits and the minus sign stand for themselves in XML.\<close>

lemma escape_plain:
  assumes "(48 \<le> r \<and> r \<le> 57) \<or> (65 \<le> r \<and> r \<le> 90) \<or> (97 \<le> r \<and> r \<le> 122) \<or> r = 45"
  shows "escape_rune r = [char_of r] \<and> r < 128"
proof -
  have r: "r \<notin> {34, 39, 38, 60, 62, 9, 10, 13}" "xml_char r" "r < 128"
    using assms by (auto simp: xml_char_def)
  then have "escape_rune r = encode_runes [r]" by (simp add: escape_rune_def)
  then show ?thesis using r(3) encode_runes_ascii [of "[r]"] by (simp add: str_of_def)
qed

lemma xmlEscape_plain:
  assumes "\<forall>r \<in> set (bytes_of s). (48 \<le> r \<and> r \<le> 57) \<or> (65 \<le> r \<and> r \<le> 90) \<or> (97 \<le> r \<and> r \<le> 122) \<or> r = 45"
  shows "xmlEscape s = s"
proof -
  have "runes s = bytes_of s"
    using assms escape_plain by (intro runes_ascii) (auto simp: ascii_def bytes_of_def)
  moreover have "map escape_rune (bytes_of s) = map (\<lambda>r. [char_of r]) (bytes_of s)"
    by (rule map_cong [OF refl]) (use assms escape_plain in blast)
  ultimately have "xmlEscape s = concat (map (\<lambda>r. [char_of r]) (bytes_of s))" by (simp only: xmlEscape_def)
  then have "xmlEscape s = map char_of (bytes_of s)" by simp
  then show ?thesis by (simp add: bytes_of_def comp_def)
qed

lemma xmlEscape_FormatInt: "xmlEscape (FormatInt i) = FormatInt i"
proof (rule xmlEscape_plain)
  have "48 \<le> r \<and> r \<le> 57" if r: "r \<in> set (bytes_of (dec_nat n))" for r n
  proof -
    obtain c where "c \<in> set (dec_nat n)" "r = of_char c" using r by (auto simp: bytes_of_def)
    then obtain d :: nat where "d < 10" "r = of_char (char_of (48 + d))" using dec_nat_digits by blast
    then show ?thesis by simp
  qed
  moreover have "bytes_of (FormatInt i) = (if i < 0 then [45] else []) @ bytes_of (dec_nat (nat \<bar>i\<bar>))"
    by (simp add: FormatInt_def bytes_of_def)
  ultimately show "\<forall>r \<in> set (bytes_of (FormatInt i)).
      (48 \<le> r \<and> r \<le> 57) \<or> (65 \<le> r \<and> r \<le> 90) \<or> (97 \<le> r \<and> r \<le> 122) \<or> r = 45"
    by auto
qed

lemma soap_req_message:
  assumes "mset order = mset (gm_keys args)"
  shows "soap_message control service action (map (\<lambda>k. elem k (xmlEscape (case gm_get args k of None \<Rightarrow> [] | Some v \<Rightarrow> v))) (gm_keys args))
    (soap_req order control service action args)"
proof -
  let ?f = "\<lambda>k. elem k (xmlEscape (case gm_get args k of None \<Rightarrow> [] | Some v \<Rightarrow> v))"
  have "soap_body order args = concat (map ?f order)" by (simp add: soap_body_def elem_def)
  moreover have "mset (map ?f order) = mset (map ?f (gm_keys args))" using assms by simp
  ultimately show ?thesis
    unfolding soap_message_def by (intro conjI exI [of _ "map ?f order"]) (simp_all add: soap_req_def)
qed

lemma asks_soap_req:
  assumes "mset order = mset (gm_keys (add_args localIP port))"
  shows "asks_mapping localIP port control service (soap_req order control service ''AddPortMapping'' (add_args localIP port))"
  using soap_req_message [OF assms, of control service "''AddPortMapping''"] unfolding asks_mapping_def
  by (simp add: add_args_def gm_keys_def gm_get_def xmlEscape_FormatInt xmlEscape_plain bytes_of_def)

lemma asks_deletion_req:
  assumes "mset order = mset (gm_keys (delete_args port))"
  shows "asks_deletion port control service (soap_req order control service ''DeletePortMapping'' (delete_args port))"
  using soap_req_message [OF assms, of control service "''DeletePortMapping''"] unfolding asks_deletion_def
  by (simp add: delete_args_def gm_keys_def gm_get_def xmlEscape_FormatInt xmlEscape_plain bytes_of_def)

lemma asks_mapping_post:
  "\<not> asks_mapping localIP port control service (get_req loc)"
  "\<not> asks_mapping localIP port control service (soap_req order c s ''GetExternalIPAddress'' args)"
proof -
  show "\<not> asks_mapping localIP port control service (get_req loc)"
    by (simp add: asks_mapping_def soap_message_def get_req_def)
  have "rev (rq_soap (soap_req order c s ''GetExternalIPAddress'' args)) \<noteq> rev ([CHR 0x22] @ service @ ''#'' @ ''AddPortMapping'' @ [CHR 0x22])"
    by (simp add: soap_req_def)
  then show "\<not> asks_mapping localIP port control service (soap_req order c s ''GetExternalIPAddress'' args)"
    unfolding asks_mapping_def soap_message_def by metis
qed

lemma soap_granted: "fst (soap env k c s a args) = None \<longleftrightarrow> granted env (k, snd (soap env k c s a args))"
  by (auto simp: soap_def soapRaw_def granted_def Let_def split: option.splits)

lemma soap_request: "snd (soap env k c s a args) = soap_req (ue_range env k (gm_keys args)) c s a args"
  by (simp add: soap_def soapRaw_def Let_def)

lemma getExternalIP_request: "\<exists>order. snd (getExternalIP env k c s) = soap_req order c s ''GetExternalIPAddress'' gm_empty"
  by (auto simp: getExternalIP_def soapRaw_def Let_def split: option.splits sum.splits)

lemma add_mapping_spec:
  fixes env localIP port control service
  assumes ranges: "ranges_ok env"
  defines "r \<equiv> add_mapping env localIP port control service"
  shows "(\<exists>m. fst r = Inr m) \<longleftrightarrow> (\<exists>kr \<in> set (snd r). \<exists>c s. asks_mapping localIP port c s (snd kr) \<and> granted env kr)"
    and "fst r = Inr m \<Longrightarrow> mp_Port m = port \<and> (\<exists>host. host \<noteq> [] \<and> mp_External m = JoinHostPort host (FormatInt port))
      \<and> (\<forall>k. asks_mapping localIP port (mp_control m) (mp_service m) (hd (snd (Renew env k (Some m)))))"
proof -
  obtain ext req1 where ext: "getExternalIP env 1 control service = (ext, req1)" by force
  obtain err req2 where soap: "soap env 2 control service ''AddPortMapping'' (add_args localIP port) = (err, req2)" by force
  have req: "\<not> asks_mapping localIP port c s req1" "asks_mapping localIP port control service req2" for c s
  proof -
    obtain order where "req1 = soap_req order control service ''GetExternalIPAddress'' gm_empty"
      using getExternalIP_request [of env 1 control service] ext by auto
    then show "\<not> asks_mapping localIP port c s req1" by (simp add: asks_mapping_post(2))
    show "asks_mapping localIP port control service req2"
      using soap_request [of env 2 control service "''AddPortMapping''" "add_args localIP port"] soap ranges
      by (simp add: asks_soap_req ranges_ok_def)
  qed
  have gr: "err = None \<longleftrightarrow> granted env (2, req2)"
    using soap_granted [of env 2 control service "''AddPortMapping''" "add_args localIP port"] soap by simp
  define host where "host = (let extIP = (case ext of Inl e \<Rightarrow> [] | Inr ip \<Rightarrow> ip) in if extIP = [] then ''0.0.0.0'' else extIP)"
  have r: "r = (case err of Some e \<Rightarrow> Inl e | None \<Rightarrow> Inr \<lparr>mp_External = JoinHostPort host (FormatInt port), mp_LocalIP = localIP,
      mp_Port = port, mp_control = control, mp_service = service\<rparr>, [(1, req1), (2, req2)])"
    unfolding r_def add_mapping_def ext soap prod.case host_def Let_def by (cases err) simp_all
  have "host \<noteq> []" by (simp add: host_def Let_def)
  then show "fst r = Inr m \<Longrightarrow> mp_Port m = port \<and> (\<exists>host. host \<noteq> [] \<and> mp_External m = JoinHostPort host (FormatInt port))
      \<and> (\<forall>k. asks_mapping localIP port (mp_control m) (mp_service m) (hd (snd (Renew env k (Some m)))))"
    using ranges by (cases err) (auto simp: r case_prod_unfold soap_request asks_soap_req ranges_ok_def)
  show "(\<exists>m. fst r = Inr m) \<longleftrightarrow> (\<exists>kr \<in> set (snd r). \<exists>c s. asks_mapping localIP port c s (snd kr) \<and> granted env kr)"
    using req gr by (cases err) (auto simp: r)
qed

lemma sample_page_parts:
  "sample_page = take 74 sample_page @ ''urn:schemas-upnp-org:service:WANIPConnection:1''
     @ (''</serviceType>'' @ [CHR 0x0A] @ ''        '') @ ''<controlURL>'' @ [] @ ''/ctl/IPConn'' @ [] @ ''</controlURL>''
     @ drop 179 sample_page"
  by (simp add: sample_page_def)

lemma sample_page_entry:
  "wan_services = [] @ ''urn:schemas-upnp-org:service:WANIPConnection:1'' # tl wan_services"
  "\<forall>k < length (take 74 sample_page). \<not> prefix ''urn:schemas-upnp-org:service:WANIPConnection:1'' (drop k sample_page)"
  "\<not> sublist ''</service>'' (''</serviceType>'' @ [CHR 0x0A] @ ''        '')"
  "\<not> sublist ''<controlURL'' (''</serviceType>'' @ [CHR 0x0A] @ ''        '')"
  "url_text ''/ctl/IPConn''"
proof -
  have "list_all (\<lambda>k. \<not> prefix ''urn:schemas-upnp-org:service:WANIPConnection:1'' (drop k sample_page)) [0..<74]"
    unfolding sample_page_def by code_simp
  then show "\<forall>k < length (take 74 sample_page). \<not> prefix ''urn:schemas-upnp-org:service:WANIPConnection:1'' (drop k sample_page)"
    by (auto simp: list_all_iff)
qed (simp_all add: wan_services_def sublist_code url_text_def)

lemma unmap_asks: "ranges_ok env \<Longrightarrow> asks_deletion (mp_Port m) (mp_control m) (mp_service m) (unmap env k m)"
  by (simp add: unmap_def soap_request asks_deletion_req ranges_ok_def)

section \<open>The entry of a service\<close>

lemma no_sublist_append:
  assumes "c \<notin> set xs" "\<not> sublist (c # sub) ys"
  shows "\<not> sublist (c # sub) (xs @ ys)"
  using assms by (induction xs) (auto simp: sublist_Cons_right)

text \<open>What is left of the description after the first mention of a service keeps its control URL.\<close>

lemma entry_chunk:
  assumes "CHR ''<'' \<notin> set svc" "svc \<noteq> []" "\<not> sublist ''</service>'' mid"
    and "list_all re_space ws" "url_text path" "list_all re_space ws'"
  defines "t \<equiv> \<lambda>x. (svc @ mid) @ ''<controlURL>'' @ ws @ path @ ws' @ ''</controlURL>'' @ x"
  shows "\<exists>x. (case Index (t post) ''</service>'' of None \<Rightarrow> t post | Some e \<Rightarrow> if e > 0 then take e (t post) else t post) = t x"
proof -
  have "re_space ch \<Longrightarrow> ch \<noteq> CHR ''<''" for ch by (auto simp: re_space_def)
  then have body: "CHR ''<'' \<notin> set (ws @ path @ ws')"
    using assms(4-6) unfolding url_text_def list_all_iff by fastforce
  let ?n = "length (t [])"
  have "Index (t post) ''</service>'' = map_option ((+) ?n) (Index post ''</service>'')"
  proof -
    have a: "\<not> sublist ''</service>'' (svc @ mid)" using no_sublist_append [OF assms(1,3)] by simp
    have b: "\<not> sublist ''</service>'' (''controlURL>'' @ ws @ path @ ws')"
      using body by (auto dest!: set_mono_sublist)
    have c: "Index (''<controlURL>'' @ ws @ path @ ws' @ ''</controlURL>'' @ post) ''</service>''
        = map_option Suc (Index ((''controlURL>'' @ ws @ path @ ws') @ CHR ''<'' # ''/controlURL>'' @ post) ''</service>'')"
      by (simp add: HasPrefix_Cons)
    have d: "Index (CHR ''<'' # ''/controlURL>'' @ post) ''</service>'' = map_option ((+) 13) (Index post ''</service>'')"
      by (cases "Index post ''</service>''") (simp_all add: HasPrefix_Cons)
    show ?thesis
      unfolding t_def
      using Index_skip [OF _ a, of "''controlURL>'' @ ws @ path @ ws' @ ''</controlURL>'' @ post"]
        Index_skip [OF _ b, of "''/controlURL>'' @ post"] c d
      by (cases "Index post ''</service>''") (simp_all del: Index.simps)
  qed
  moreover have "take (?n + e) (t post) = t (take e post)" for e
  proof -
    have "t x = t [] @ x" for x by (simp add: t_def)
    then show ?thesis by (metis take_append append_take_drop_id add_diff_cancel_left' le_add1 take_all)
  qed
  moreover have "?n > 0" by (simp add: t_def)
  ultimately show ?thesis by (cases "Index post ''</service>''") auto
qed

lemma control_found:
  assumes "wan_services = earlier @ svc # later"
    and "raw = pre @ svc @ mid @ ''<controlURL>'' @ ws @ path @ ws' @ ''</controlURL>'' @ post"
    and "\<forall>s \<in> set earlier. \<not> sublist s raw" "\<forall>k < length pre. \<not> prefix svc (drop k raw)"
    and "\<not> sublist ''</service>'' mid" "\<not> sublist ''<controlURL'' mid"
    and "list_all re_space ws" "url_text path" "list_all re_space ws'"
    and "base = scheme @ ''://'' @ host @ tail" "CHR '':'' \<notin> set scheme" "CHR ''/'' \<notin> set host" "tail = [] \<or> hd tail = CHR ''/''"
  shows "findWANIPControl base raw =
    (if prefix ''http://'' path \<or> prefix ''https://'' path then path
     else scheme @ ''://'' @ host @ (if hd path = CHR ''/'' then path else CHR ''/'' # path), svc)"
proof -
  let ?url = "if prefix ''http://'' path \<or> prefix ''https://'' path then path
     else scheme @ ''://'' @ host @ (if hd path = CHR ''/'' then path else CHR ''/'' # path)"
  have "svc \<in> set wan_services" unfolding assms(1) by simp
  then have svc: "CHR ''<'' \<notin> set svc" "svc \<noteq> []" by (auto simp: wan_services_def)
  have ne: "path \<noteq> []" using assms(8) by (simp add: url_text_def)
  have res: "resolveURL base path = ?url"
    unfolding assms(10) resolveURL_parts [OF assms(11-13)] HasPrefix_prefix using ne by (cases path) auto
  have idx: "Index raw svc = Some (length pre)"
    unfolding assms(2) using assms(4) svc(2) by (intro Index_first) (simp_all add: assms(2))
  have drop: "drop (length pre) raw = (svc @ mid) @ ''<controlURL>'' @ ws @ path @ ws' @ ''</controlURL>'' @ post"
    by (simp add: assms(2))
  obtain chunk x where chunk: "chunk = (svc @ mid) @ ''<controlURL>'' @ ws @ path @ ws' @ ''</controlURL>'' @ x"
    "(case Index (drop (length pre) raw) ''</service>'' of None \<Rightarrow> drop (length pre) raw
      | Some e \<Rightarrow> if e > 0 then take e (drop (length pre) raw) else drop (length pre) raw) = chunk"
    using entry_chunk [OF svc assms(5,7,8,9), of post] unfolding drop by metis
  have "extractTag chunk ''controlURL'' = path"
  proof -
    have "\<not> sublist ''<controlURL'' (svc @ mid)" using no_sublist_append [OF svc(1) assms(6)] by simp
    then have "find_tag ''controlURL'' chunk = find_tag ''controlURL'' (''<'' @ ''controlURL'' @ ''>'' @ ws @ path @ ws' @ ''</'' @ ''controlURL'' @ ''>'' @ x)"
      unfolding chunk(1) using find_tag_skip [of "''controlURL''" "svc @ mid"] by simp
    also have "\<dots> = Some (path @ ws')"
      by (rule find_tag_here [OF tag_at_body]) (use assms(7-9) in simp_all)
    finally show ?thesis using TrimSpace_url [OF assms(8,9)] by (simp add: extractTag_def)
  qed
  then have "control_loop base raw (svc # later) = (?url, svc)"
    using idx chunk(2) res ne by (simp add: Let_def)
  moreover have "control_loop base raw (es @ svc # later) = control_loop base raw (svc # later)"
    if "\<forall>s \<in> set es. \<not> sublist s raw" for es
    using that by (induction es) (auto simp: Index_none)
  ultimately show ?thesis using assms(3) unfolding findWANIPControl_def assms(1) by simp
qed

lemma sample_page_found:
  "findWANIPControl ''http://g/d'' sample_page
   = (''http://g/ctl/IPConn'', ''urn:schemas-upnp-org:service:WANIPConnection:1'')"
  using control_found [OF sample_page_entry(1) sample_page_parts, of "''http://g/d''" "''http''" "''g''" "''/d''"]
    sample_page_entry(2-5) by simp

section \<open>Properties\<close>

text \<open>
  C27. The control URL of a gateway is found: when the description names a known service and none of
  those tried before it, and after the first mention of the service, within its entry, comes a
  \<^verbatim>\<open>controlURL\<close> element with a URL, blanks and other elements allowed, then exactly this service is
  returned, and a complete URL is returned as it is, any other one under the scheme and authority of the
  address of the description.
\<close>

theorem gateway_service_found:
  assumes "wan_services = earlier @ svc # later"
    and "raw = pre @ svc @ mid @ ''<controlURL>'' @ ws @ path @ ws' @ ''</controlURL>'' @ post"
    and "\<forall>s \<in> set earlier. \<not> sublist s raw" "\<forall>k < length pre. \<not> prefix svc (drop k raw)"
    and "\<not> sublist ''</service>'' mid" "\<not> sublist ''<controlURL'' mid"
    and "list_all re_space ws" "url_text path" "list_all re_space ws'"
    and "base = scheme @ ''://'' @ host @ tail" "CHR '':'' \<notin> set scheme" "CHR ''/'' \<notin> set host" "tail = [] \<or> hd tail = CHR ''/''"
  shows "findWANIPControl base raw =
    (if prefix ''http://'' path \<or> prefix ''https://'' path then path
     else scheme @ ''://'' @ host @ (if hd path = CHR ''/'' then path else CHR ''/'' # path), svc)"
  by (rule control_found [OF assms])

theorem gateway_service_found_witness:
  "findWANIPControl ''http://192.168.1.1:5000/root.xml'' sample_page
   = (''http://192.168.1.1:5000/ctl/IPConn'', ''urn:schemas-upnp-org:service:WANIPConnection:1'')"
  using gateway_service_found [OF sample_page_entry(1) sample_page_parts, of "''http://192.168.1.1:5000/root.xml''" "''http''" "''192.168.1.1:5000''" "''/root.xml''"]
    sample_page_entry(2-5) by simp

text \<open>
  C26. A mapping is reported exactly when the gateway granted one: MapTCP succeeds if and only if one of
  the requests it made is the standard's message that asks for an enabled TCP mapping of the port to the
  same port of the local address, for an hour, and was granted; then the port is positive, the reported
  address has the port, renewing the mapping sends the same message again, and removing it sends the
  message that deletes the mapping of the port.
\<close>

theorem mapping_reported_iff_granted:
  assumes "ranges_ok env"
  shows "((\<exists>m. fst (MapTCP env localIP port) = Inr m) \<longleftrightarrow>
      (\<exists>kr \<in> set (snd (MapTCP env localIP port)). \<exists>control service. asks_mapping localIP port control service (snd kr) \<and> granted env kr))
   \<and> (\<forall>m. fst (MapTCP env localIP port) = Inr m \<longrightarrow>
        port > 0 \<and> mp_Port m = port \<and> (\<exists>host. host \<noteq> [] \<and> mp_External m = JoinHostPort host (FormatInt port))
        \<and> (\<forall>k. asks_mapping localIP port (mp_control m) (mp_service m) (hd (snd (Renew env k (Some m))))
             \<and> asks_deletion port (mp_control m) (mp_service m) (unmap env k m)))"
proof (cases "port \<le> 0 \<or> isl (discover env)")
  case True
  then show ?thesis by (auto simp: MapTCP_def split: sum.splits)
next
  case False
  then obtain loc where loc: "port > 0" "discover env = Inr loc" by (cases "discover env") auto
  have del: "asks_deletion (mp_Port m) (mp_control m) (mp_service m) (unmap env k m)" for k m
    by (rule unmap_asks [OF assms])
  show ?thesis
  proof (cases "controlURL env 0 loc")
    case (Inl e)
    then show ?thesis using loc by (simp add: MapTCP_def asks_mapping_post(1))
  next
    case (Inr cs)
    obtain control service where cs: "cs = (control, service)" by (cases cs)
    let ?r = "add_mapping env localIP port control service"
    have r: "MapTCP env localIP port = (fst ?r, (0, get_req loc) # snd ?r)"
      using loc Inr cs by (simp add: MapTCP_def case_prod_unfold)
    show ?thesis
      unfolding r fst_conv snd_conv
      using loc(1) add_mapping_spec [OF assms, of localIP port control service] asks_mapping_post(1) del by (intro conjI allI impI; force)
  qed
qed

theorem mapping_reported_iff_granted_witness:
  "\<exists>m. fst (MapTCP (sample_gateway sample_page 200) ''10.0.0.2'' 7777) = Inr m \<and> mp_Port m = 7777
     \<and> asks_mapping ''10.0.0.2'' 7777 (mp_control m) (mp_service m)
         (hd (snd (Renew (sample_gateway sample_page 200) 3 (Some m))))"
proof -
  let ?env = "sample_gateway sample_page 200"
  have loc: "parseLocation ''LOCATION: http://g/d'' = ''http://g/d''"
    by (simp add: parseLocation_def location_at_def lower_char_def re_space_def char_of_def bit_iff_odd TrimSpace_id is_space_def)
  then have disc: "discover ?env = Inr ''http://g/d''" by (simp add: discover_def sample_gateway_def)
  have "take bodyLimit sample_page = sample_page" by (simp add: bodyLimit_def sample_page_def)
  then have "\<exists>c s. controlURL ?env 0 ''http://g/d'' = Inr (c, s)"
    using sample_page_found by (auto simp: controlURL_def sample_gateway_def split: prod.split)
  then obtain m where "fst (MapTCP ?env ''10.0.0.2'' 7777) = Inr m"
    using disc by (auto simp: MapTCP_def add_mapping_def soap_def soapRaw_def sample_gateway_def Let_def getExternalIP_def case_prod_unfold split: option.splits)
  moreover have "ranges_ok ?env" by (simp add: ranges_ok_def sample_gateway_def)
  ultimately show ?thesis using mapping_reported_iff_granted [of ?env "''10.0.0.2''" 7777] by blast
qed

end
