(* ===== verification/Node.thy ===== *)
theory Node
  imports Router Limiter Backoff Channels Chat Handshake Directory Discovery Config Upnp
begin

text \<open>
  \<^verbatim>\<open>src/internal/node/node.go\<close> and \<^verbatim>\<open>handlers.go\<close>: one process that composes the peer table,
  the router, the channels, the rate limiter, the retry delays, the peer directory and discovery.
  Every operation is a function on the record \<open>node\<close>; the callbacks between the components are
  calls: the hooks of the peer table run \<open>onPeerUp\<close>, \<open>onPeerReplace\<close> and \<open>onPeerDown\<close>, the
  effects of the router run \<open>onRouted\<close> and the broadcast.

  What one call takes from outside is the record \<open>nenv\<close>: clock readings, nonces, rendered times,
  iteration orders and the choices of \<^verbatim>\<open>select\<close>, each indexed by the place of the call that
  uses it (\<open>later\<close> moves to fresh places for the rounds of a loop), and the answers of the file system.
\<close>

section \<open>The environment of a call\<close>

record nenv =
  e_clock :: "nat \<Rightarrow> int"
  e_nonce :: "nat \<Rightarrow> string"
  e_stamp :: "nat \<Rightarrow> string"
  e_range :: "nat \<Rightarrow> string list \<Rightarrow> string list"
  e_pick :: "nat \<Rightarrow> nat \<Rightarrow> bool"
  e_id_files :: id_env
  e_dir_marshal :: "dir_record list \<Rightarrow> string option"
  e_dir_mk :: bool
  e_dir_wr :: bool
  e_dir_rn :: bool

definition later :: "nat \<Rightarrow> nenv \<Rightarrow> nenv" where
  "later k env =
     env\<lparr>e_clock := (\<lambda>i. e_clock env (k + i)), e_nonce := (\<lambda>i. e_nonce env (k + i)), e_stamp := (\<lambda>i. e_stamp env (k + i)),
      e_range := (\<lambda>i. e_range env (k + i)), e_pick := (\<lambda>i. e_pick env (k + i))\<rparr>"

text \<open>The iteration over a map at a place of the code.\<close>

definition ranged :: "nenv \<Rightarrow> nat \<Rightarrow> (string, 'v) gomap \<Rightarrow> string list" where
  "ranged env k m = e_range env k (gm_keys m)"

definition env_ok :: "nenv \<Rightarrow> bool" where
  "env_ok env \<longleftrightarrow> (\<forall>k ks. distinct ks \<longrightarrow> distinct (e_range env k ks) \<and> set (e_range env k ks) = set ks)"

section \<open>The node\<close>

datatype EventKind = EventChat | EventSystem | EventPeerUp | EventPeerDown | EventJoin | EventLeave

record event =
  ev_Kind :: EventKind
  ev_Text :: string
  ev_Msg :: "message option"
  ev_Peer :: info

datatype node_err =
    NProto perr | NPeer peer_err | NChan chan_err | NDir dir_err | NoChannel | Usage string | BadNickname
  | AlreadyDialing string | DialError string bool | Canceled | CannotResolve string | NoAddresses | NoPeerDirectory
  | UnknownPeerKey string | UnknownCommand string | NoIdentity | ListenFailed string

text \<open>
  The buffered channel of a subscriber is the list of its waiting events. \<open>nd_handshakes\<close> counts the
  handshake slots in use, \<open>nd_dialing\<close> is the set of addresses being dialled, \<open>nd_listening\<close> says that the
  listener is open; the cancelled context and the locks have no state of their own here. \<open>nd_upnpMap\<close> stands for
  \<^verbatim>\<open>upnpMap\<close> and \<^verbatim>\<open>upnpUnmap\<close>, which are set and cleared together.
\<close>

record node =
  nd_cfg :: config
  nd_ident :: identity
  nd_peers :: pmanager
  nd_chans :: manager
  nd_router :: router
  nd_disc :: "discovery option"
  nd_dir :: "directory option"
  nd_limit :: "window option"
  nd_backoff :: "tracker option"
  nd_port :: int
  nd_host :: string
  nd_addrs :: "string list"
  nd_stunUDP :: string
  nd_stunDone :: bool
  nd_upnpExt :: string
  nd_upnpMap :: "mapping option"
  nd_handshakes :: nat
  nd_dialing :: "(string, unit) gomap"
  nd_events :: "event list list"
  nd_listening :: bool
  nd_closed :: bool

definition shortID :: "string \<Rightarrow> string" where
  "shortID s = (if length s < 8 then s else take 8 s)"

definition Nick :: "node \<Rightarrow> string" where
  "Nick n = DefaultNickname (nd_ident n)"

definition ListenAddr :: "node \<Rightarrow> string" where
  "ListenAddr n = JoinHostPort (nd_host n) (FormatInt (nd_port n))"

definition DialAddr :: "node \<Rightarrow> string" where
  "DialAddr n =
     (let host = (if nd_host n = ''0.0.0.0'' \<or> nd_host n = ''::'' then ''127.0.0.1'' else nd_host n) in
      JoinHostPort host (FormatInt (nd_port n)))"

section \<open>Events\<close>

definition eventCap :: nat where "eventCap = 128"

text \<open>\<^verbatim>\<open>Subscribe\<close>: the index of the new queue, none on a closed node.\<close>

definition Subscribe :: "node \<Rightarrow> nat option \<times> node" where
  "Subscribe n =
     (if nd_closed n then (None, n) else (Some (length (nd_events n)), n\<lparr>nd_events := nd_events n @ [[]]\<rparr>))"

definition offer :: "event \<Rightarrow> event list \<Rightarrow> event list" where
  "offer ev q = (if length q < eventCap then q @ [ev] else q)"

text \<open>
  \<^verbatim>\<open>emit\<close>: under the lock it copies the list of queues, after the unlock it sends to each of them. A send
  on a queue that \<^verbatim>\<open>Close\<close> has closed meanwhile panics (\<open>None\<close>); a full queue drops the event. The
  operations below send at once; sends that come after \<^verbatim>\<open>Close\<close> are in the theory \<open>Program\<close>.
\<close>

definition emit_snapshot :: "node \<Rightarrow> nat list" where
  "emit_snapshot n = (if nd_closed n then [] else [0..<length (nd_events n)])"

definition send_event :: "event \<Rightarrow> nat \<Rightarrow> node \<Rightarrow> node option" where
  "send_event ev i n =
     (if nd_closed n then None else Some (n\<lparr>nd_events := (nd_events n)[i := offer ev (nd_events n ! i)]\<rparr>))"

fun send_all :: "event \<Rightarrow> nat list \<Rightarrow> node \<Rightarrow> node option" where
  "send_all ev [] n = Some n"
| "send_all ev (i # is) n = (case send_event ev i n of None \<Rightarrow> None | Some n1 \<Rightarrow> send_all ev is n1)"

definition emit :: "event \<Rightarrow> node \<Rightarrow> node" where
  "emit ev n = the (send_all ev (emit_snapshot n) n)"

definition System :: "string \<Rightarrow> node \<Rightarrow> node" where
  "System s n = emit \<lparr>ev_Kind = EventSystem, ev_Text = s, ev_Msg = None, ev_Peer = no_info\<rparr> n"

text \<open>A subscriber takes the next event of its queue.\<close>

definition take_event :: "nat \<Rightarrow> node \<Rightarrow> event option \<times> node" where
  "take_event i n =
     (if i < length (nd_events n) \<and> nd_events n ! i \<noteq> []
      then (Some (hd (nd_events n ! i)), n\<lparr>nd_events := (nd_events n)[i := tl (nd_events n ! i)]\<rparr>)
      else (None, n))"

section \<open>Names and addresses of peers\<close>

definition displayName :: "node \<Rightarrow> string \<Rightarrow> string \<Rightarrow> string" where
  "displayName n peerID nick =
     (if nd_dir n \<noteq> None then DisplayName peerID nick (nd_dir n)
      else if nick \<noteq> [] then nick
      else shortID peerID)"

definition reconnectAddr :: "info \<Rightarrow> string" where
  "reconnectAddr i =
     (if \<not> pi_Inbound i then pi_Addr i
      else
        (case SplitHostPort (pi_Addr i) of
           None \<Rightarrow> []
         | Some (host, _) \<Rightarrow> if pi_ListenPort i \<le> 0 then [] else JoinHostPort host (FormatInt (pi_ListenPort i))))"

definition observePeer :: "nenv \<Rightarrow> info \<Rightarrow> node \<Rightarrow> node" where
  "observePeer env i n =
     (let pub = (if pi_PublicKey i \<noteq> [] then hex_encode (pi_PublicKey i) else []) in
      n\<lparr>nd_dir := Observe (e_stamp env 0) (pi_ID i) pub (pi_Nickname i) (reconnectAddr i) [] (nd_dir n)\<rparr>)"

definition applyNick :: "nenv \<Rightarrow> string \<Rightarrow> string \<Rightarrow> node \<Rightarrow> node" where
  "applyNick env peerID nick n =
     (if peerID = [] \<or> nick = [] then n
      else
        n\<lparr>nd_chans := UpdateNick_chan peerID nick (nd_chans n),
          nd_peers := UpdateNick_peer peerID nick (nd_peers n),
          nd_dir := Observe (e_stamp env 0) peerID [] nick [] [] (nd_dir n)\<rparr>)"

section \<open>Routed messages\<close>

definition chat_event :: "message \<Rightarrow> node \<Rightarrow> event" where
  "chat_event msg n =
     \<lparr>ev_Kind = EventChat, ev_Text = FormatChat msg (displayName n (mSender msg) (mNickname msg)),
      ev_Msg = Some msg, ev_Peer = no_info\<rparr>"

definition onRouted_chat :: "nenv \<Rightarrow> message \<Rightarrow> node \<Rightarrow> node" where
  "onRouted_chat env msg n0 =
     (let n = applyNick env (mSender msg) (mNickname msg) n0; self = idPeerID (nd_ident n) in
      if mTo msg \<noteq> [] \<and> mTo msg \<noteq> self \<and> mSender msg \<noteq> self then n
      else if mTo msg = [] then
        (let n1 = n\<lparr>nd_chans := AddHistory (Some msg) (nd_chans n)\<rparr> in
         if \<not> Joined (nd_chans n1) (mChannel msg) then n1\<lparr>nd_chans := Note (mChannel msg) (nd_chans n1)\<rparr>
         else emit (chat_event msg n1) n1)
      else emit (chat_event msg n) n)"

definition onRouted_join :: "unicode \<Rightarrow> nenv \<Rightarrow> message \<Rightarrow> node \<Rightarrow> node" where
  "onRouted_join uc env msg n0 =
     (case NormalizeChannel uc (mChannel msg) of
        Inl e \<Rightarrow> n0
      | Inr ch \<Rightarrow>
          (let n1 = n0\<lparr>nd_chans := Note ch (nd_chans n0)\<rparr>;
               prev = (case Members (nd_chans n1) ch of None \<Rightarrow> None | Some ms \<Rightarrow> gm_get ms (mSender msg));
               n2 = n1\<lparr>nd_chans := MemberJoin ch (mSender msg) (mNickname msg) (nd_chans n1)\<rparr>;
               n = applyNick env (mSender msg) (mNickname msg) n2 in
           if \<not> Joined (nd_chans n) ch \<or> mSender msg = idPeerID (nd_ident n) then n
           else
             (case prev of
                None \<Rightarrow>
                  emit \<lparr>ev_Kind = EventJoin,
                        ev_Text = displayName n (mSender msg) (mNickname msg) @ '' joined '' @ ch,
                        ev_Msg = Some msg, ev_Peer = no_info\<rparr> n
              | Some old \<Rightarrow>
                  if mNickname msg \<noteq> [] \<and> old \<noteq> mNickname msg
                  then emit \<lparr>ev_Kind = EventSystem,
                             ev_Text = displayName n (mSender msg) old @ '' is now '' @ mNickname msg,
                             ev_Msg = Some msg, ev_Peer = no_info\<rparr> n
                  else n)))"

definition onRouted_leave :: "unicode \<Rightarrow> message \<Rightarrow> node \<Rightarrow> node" where
  "onRouted_leave uc msg n0 =
     (case NormalizeChannel uc (mChannel msg) of
        Inl e \<Rightarrow> n0
      | Inr ch \<Rightarrow>
          (let n = n0\<lparr>nd_chans := MemberLeave ch (mSender msg) (nd_chans n0)\<rparr> in
           if Joined (nd_chans n) ch \<and> mSender msg \<noteq> idPeerID (nd_ident n)
           then emit \<lparr>ev_Kind = EventLeave, ev_Text = displayName n (mSender msg) (mNickname msg) @ '' left '' @ ch,
                      ev_Msg = Some msg, ev_Peer = no_info\<rparr> n
           else n))"

definition onRouted :: "unicode \<Rightarrow> nenv \<Rightarrow> message \<Rightarrow> string \<Rightarrow> node \<Rightarrow> node" where
  "onRouted uc env msg fromPeer n =
     (if mType msg = TypeChat then onRouted_chat env msg n
      else if mType msg = TypeJoin then onRouted_join uc env msg n
      else if mType msg = TypeLeave then onRouted_leave uc msg n
      else n)"

text \<open>The calls the router makes: to the handler \<open>onRouted\<close> and to the peer table.\<close>

fun run_effect :: "unicode \<Rightarrow> nenv \<Rightarrow> effect \<Rightarrow> node \<Rightarrow> node" where
  "run_effect uc env (Deliver m p) n = onRouted uc env m p n"
| "run_effect uc env (Broadcast m p) n =
     n\<lparr>nd_peers := Broadcast_peers (ranged env 1 (pm_conns (nd_peers n))) (e_pick env 1) m p (nd_peers n)\<rparr>"

definition route :: "unicode \<Rightarrow> nenv \<Rightarrow> message \<Rightarrow> string \<Rightarrow> node \<Rightarrow> node" where
  "route uc env msg fromPeer n =
     (case Handle uc (e_clock env 2) (e_clock env 3) (Some msg) fromPeer (nd_router n) of
        (ok, effs, r) \<Rightarrow> fold (run_effect uc env) effs (n\<lparr>nd_router := r\<rparr>))"

definition inject :: "unicode \<Rightarrow> nenv \<Rightarrow> message \<Rightarrow> node \<Rightarrow> node" where
  "inject uc env msg n =
     (case Inject uc (e_clock env 2) (e_clock env 3) (Some msg) (nd_router n) of
        (ok, effs, r) \<Rightarrow> fold (run_effect uc env) effs (n\<lparr>nd_router := r\<rparr>))"

section \<open>Messages from peers\<close>

definition sender_of :: "message \<Rightarrow> string" where
  "sender_of msg = (if mSender msg = [] then mPeerID msg else mSender msg)"

definition answer_ping :: "crypto \<Rightarrow> nenv \<Rightarrow> nat \<Rightarrow> node \<Rightarrow> node" where
  "answer_ping c env h n =
     (case conn_at (nd_peers n) h of
        None \<Rightarrow> n
      | Some cn \<Rightarrow>
          (case AllowPong second (e_clock env 0) cn of
             (ok, cn1) \<Rightarrow>
               let pong = NewPong (c_sha256 c) (e_clock env 1) (e_nonce env 0) (idPeerID (nd_ident n));
                   cn2 = (if ok then snd (Send (e_pick env 0 h) pong cn1) else cn1) in
               n\<lparr>nd_peers := put_conn h cn2 (nd_peers n)\<rparr>))"

definition onPeerMessage :: "unicode \<Rightarrow> crypto \<Rightarrow> nenv \<Rightarrow> nat \<Rightarrow> message \<Rightarrow> node \<Rightarrow> node" where
  "onPeerMessage uc c env h msg n =
     (if mType msg = TypePing then answer_ping c env h n
      else if mType msg = TypePong then n
      else if mType msg = TypeHello \<or> mType msg = TypeWelcome then n
      else if \<not> IsRoutable (mType msg) then n
      else if VerifySignature uc c (Some msg) \<noteq> None then n
      else if Fresh (Some msg) (e_clock env 0) \<noteq> None then n
      else
        (case Allow (case nd_limit n of None \<Rightarrow> [] | Some w \<Rightarrow> ranged env 0 (w_hits w)) (e_clock env 1) (sender_of msg)
                (nd_limit n) of
           (ok, w) \<Rightarrow>
             let n1 = n\<lparr>nd_limit := w\<rparr> in
             if \<not> ok then n1
             else
               (case conn_at (nd_peers n1) h of
                  None \<Rightarrow> n1
                | Some cn \<Rightarrow> route uc env msg (pi_ID (cn_info cn)) n1)))"

section \<open>Hooks of the peer table\<close>

definition sign :: "crypto \<Rightarrow> message \<Rightarrow> node \<Rightarrow> perr + message" where
  "sign c msg n = Sign c (idPrivateKey (nd_ident n)) (Some msg)"

definition new_join :: "crypto \<Rightarrow> nenv \<Rightarrow> string \<Rightarrow> node \<Rightarrow> message" where
  "new_join c env ch n = NewJoin (c_sha256 c) (e_clock env 0) (e_nonce env 0) (idPeerID (nd_ident n)) (Nick n) ch"

definition see :: "nenv \<Rightarrow> string \<Rightarrow> node \<Rightarrow> node" where
  "see env mid n = n\<lparr>nd_router := (nd_router n)\<lparr>rt_seen := snd (Add mid (e_clock env 1) (rt_seen (nd_router n)))\<rparr>\<rparr>"

definition resync_one :: "crypto \<Rightarrow> nenv \<Rightarrow> string \<Rightarrow> string \<Rightarrow> node \<Rightarrow> node" where
  "resync_one c env peerID ch n =
     (case sign c (new_join c env ch n) n of
        Inl e \<Rightarrow> n
      | Inr msg \<Rightarrow>
          (let m = snd (SendTo (ranged env 0 (pm_conns (nd_peers n))) (e_pick env 0 0) peerID msg (nd_peers n)) in
           see env (mID msg) (n\<lparr>nd_peers := m\<rparr>)))"

fun resync_loop :: "crypto \<Rightarrow> nenv \<Rightarrow> string \<Rightarrow> string list \<Rightarrow> node \<Rightarrow> node" where
  "resync_loop c env peerID [] n = n"
| "resync_loop c env peerID (ch # chs) n = resync_loop c (later 4 env) peerID chs (resync_one c env peerID ch n)"

definition resyncJoins :: "crypto \<Rightarrow> nenv \<Rightarrow> string \<Rightarrow> node \<Rightarrow> node" where
  "resyncJoins c env peerID n = resync_loop c env peerID (JoinedNames (nd_chans n)) n"

definition onPeerUp :: "crypto \<Rightarrow> nenv \<Rightarrow> info \<Rightarrow> node \<Rightarrow> node" where
  "onPeerUp c env i n0 =
     (let n1 = n0\<lparr>nd_backoff := Reset (pi_ID i) (nd_backoff n0)\<rparr>;
          n2 = observePeer env i n1;
          n3 = System (''connected to '' @ Info_ShortID i @ '' ('' @ displayName n2 (pi_ID i) (pi_Nickname i) @ '')'') n2;
          n4 = emit \<lparr>ev_Kind = EventPeerUp, ev_Text = Info_ShortID i, ev_Msg = None, ev_Peer = i\<rparr> n3 in
      resyncJoins c (later 4 env) (pi_ID i) n4)"

definition onPeerReplace :: "crypto \<Rightarrow> nenv \<Rightarrow> info \<Rightarrow> node \<Rightarrow> node" where
  "onPeerReplace c env i n = resyncJoins c (later 4 env) (pi_ID i) (observePeer env i n)"

definition onPeerDown :: "info \<Rightarrow> node \<Rightarrow> node" where
  "onPeerDown i n0 =
     (let n1 = n0\<lparr>nd_backoff := Reset (pi_ID i) (nd_backoff n0), nd_chans := MemberLeaveAll (pi_ID i) (nd_chans n0)\<rparr>;
          n2 = System (''disconnected from '' @ Info_ShortID i @ '' ('' @ displayName n1 (pi_ID i) (pi_Nickname i) @ '')'') n1 in
      emit \<lparr>ev_Kind = EventPeerDown, ev_Text = Info_ShortID i, ev_Msg = None, ev_Peer = i\<rparr> n2)"

fun on_event :: "crypto \<Rightarrow> nenv \<Rightarrow> peer_event \<Rightarrow> node \<Rightarrow> node" where
  "on_event c env (EvUp i) n = onPeerUp c env i n"
| "on_event c env (EvReplace i) n = onPeerReplace c env i n"
| "on_event c env (EvDown i) n = onPeerDown i n"

text \<open>A step of the peer table together with the hooks it calls.\<close>

definition with_hooks :: "crypto \<Rightarrow> nenv \<Rightarrow> peer_event list \<times> pmanager \<Rightarrow> node \<Rightarrow> node" where
  "with_hooks c env res n = (case res of (evs, m) \<Rightarrow> fold (on_event c env) evs (n\<lparr>nd_peers := m\<rparr>))"

text \<open>One turn of the read loop of a connection, and the end of the loop.\<close>

definition conn_read :: "unicode \<Rightarrow> crypto \<Rightarrow> nenv \<Rightarrow> nat \<Rightarrow> int \<Rightarrow> read_result \<Rightarrow> node \<Rightarrow> node" where
  "conn_read uc c env h now r n =
     (case conn_at (nd_peers n) h of
        None \<Rightarrow> n
      | Some cn \<Rightarrow>
          (case read_step now r cn of
             (go, msg, cn1) \<Rightarrow>
               let n1 = n\<lparr>nd_peers := put_conn h cn1 (nd_peers n)\<rparr> in
               if \<not> go then with_hooks c env (shutdown h (nd_peers n1)) n1
               else (case msg of None \<Rightarrow> n1 | Some m \<Rightarrow> onPeerMessage uc c env h m n1)))"

section \<open>Inbound connections\<close>

text \<open>The slots for handshakes in progress; a limit of 0 or less means none is counted.\<close>

definition acquire_handshake :: "node \<Rightarrow> node option" where
  "acquire_handshake n =
     (if cfMaxHandshakes (nd_cfg n) > 0 then
        (if int (nd_handshakes n) < cfMaxHandshakes (nd_cfg n)
         then Some (n\<lparr>nd_handshakes := nd_handshakes n + 1\<rparr>) else None)
      else Some n)"

definition release_handshake :: "node \<Rightarrow> node" where
  "release_handshake n =
     (if cfMaxHandshakes (nd_cfg n) > 0 then n\<lparr>nd_handshakes := nd_handshakes n - 1\<rparr> else n)"

text \<open>The handle of a new connection: one the store does not use.\<close>

definition new_handle :: "pmanager \<Rightarrow> nat" where
  "new_handle m = Suc (fold max (gm_keys (pm_store m)) 0)"

definition handleInbound :: "unicode \<Rightarrow> crypto \<Rightarrow> nenv \<Rightarrow> hs_env \<Rightarrow> node \<Rightarrow> node" where
  "handleInbound uc c env hs n =
     with_hooks c env
       (snd (HandshakeAndAdopt uc c hs (nd_ident n) (Nick n) True (new_handle (nd_peers n)) (nd_peers n))) n"

definition adoptInbound :: "unicode \<Rightarrow> crypto \<Rightarrow> nenv \<Rightarrow> hs_env \<Rightarrow> node \<Rightarrow> node" where
  "adoptInbound uc c env hs n =
     (case acquire_handshake n of
        None \<Rightarrow> n
      | Some n1 \<Rightarrow> release_handshake (handleInbound uc c env hs n1))"

section \<open>User operations\<close>

definition dir_order :: "nenv \<Rightarrow> nat \<Rightarrow> node \<Rightarrow> string list" where
  "dir_order env k n = (case nd_dir n of None \<Rightarrow> [] | Some d \<Rightarrow> ranged env k (dd_byID d))"

definition peer_order :: "nenv \<Rightarrow> nat \<Rightarrow> node \<Rightarrow> string list" where
  "peer_order env k n = ranged env k (pm_conns (nd_peers n))"

definition Disconnect_node :: "unicode \<Rightarrow> nenv \<Rightarrow> string \<Rightarrow> node \<Rightarrow> node_err option \<times> node" where
  "Disconnect_node uc env key n =
     (let p = (if nd_dir n \<noteq> None
               then (case Lookup_dir uc (dir_order env 0 n) (dir_order env 1 n) key (nd_dir n) of
                       Inl e \<Rightarrow> key | Inr rec \<Rightarrow> dr_PeerID rec)
               else key) in
      case Disconnect (peer_order env 2 n) p (nd_peers n) of
        (err, m) \<Rightarrow> (map_option NPeer err, n\<lparr>nd_peers := m\<rparr>))"

definition Join_node :: "unicode \<Rightarrow> crypto \<Rightarrow> nenv \<Rightarrow> string \<Rightarrow> node \<Rightarrow> node_err option \<times> node" where
  "Join_node uc c env name n =
     (case NormalizeChannel uc name of
        Inl e \<Rightarrow> (Some (NProto e), n)
      | Inr ch \<Rightarrow>
          (let (fresh, cm) = Join_chan ch (Nick n) (nd_chans n);
               n1 = System (''joined '' @ ch) (n\<lparr>nd_chans := cm\<rparr>) in
           if \<not> fresh then (None, n1)
           else
             (case sign c (new_join c env ch n1) n1 of
                Inl e \<Rightarrow> (Some (NProto e), n1)
              | Inr msg \<Rightarrow> (None, inject uc (later 4 env) msg n1))))"

definition Leave_node :: "unicode \<Rightarrow> crypto \<Rightarrow> nenv \<Rightarrow> string \<Rightarrow> node \<Rightarrow> node_err option \<times> node" where
  "Leave_node uc c env name0 n =
     (let name = (if name0 = [] then Current (nd_chans n) else name0) in
      case NormalizeChannel uc name of
        Inl e \<Rightarrow> (Some (NProto e), n)
      | Inr ch \<Rightarrow>
          (case Leave_chan (ranged env 1 (gm_del ch (cm_joined (nd_chans n)))) ch (nd_chans n) of
             (Some e, _) \<Rightarrow> (Some (NChan e), n)
           | (None, cm) \<Rightarrow>
               (let n1 = n\<lparr>nd_chans := cm\<rparr> in
                case sign c (NewLeave (c_sha256 c) (e_clock env 0) (e_nonce env 0) (idPeerID (nd_ident n1)) (Nick n1) ch) n1 of
                  Inl e \<Rightarrow> (Some (NProto e), n1)
                | Inr msg \<Rightarrow> (None, System (''left '' @ ch) (inject uc (later 4 env) msg n1)))))"

definition SendChat :: "unicode \<Rightarrow> crypto \<Rightarrow> nenv \<Rightarrow> string \<Rightarrow> bool \<Rightarrow> node \<Rightarrow> node_err option \<times> node" where
  "SendChat uc c env text0 action n =
     (let ch = Current (nd_chans n) in
      if ch = [] then (Some NoChannel, n)
      else
        (let t = TrimRight text0 [CHR 0x0D, CHR 0x0A] in
         if t = [] \<and> \<not> action then (None, n)
         else
           (case sign c (NewChat (c_sha256 c) (e_clock env 0) (e_nonce env 0) (idPeerID (nd_ident n)) (Nick n) ch t action) n of
              Inl e \<Rightarrow> (Some (NProto e), n)
            | Inr msg \<Rightarrow> (None, inject uc (later 4 env) msg n))))"

definition find_target :: "unicode \<Rightarrow> nenv \<Rightarrow> string \<Rightarrow> node \<Rightarrow> peer_err + nat" where
  "find_target uc env key n =
     (case Find (peer_order env 1 n) key (nd_peers n) of
        Inr h \<Rightarrow> Inr h
      | Inl e \<Rightarrow>
          if nd_dir n \<noteq> None
          then (case Lookup_dir uc (dir_order env 2 n) (dir_order env 3 n) key (nd_dir n) of
                  Inl _ \<Rightarrow> Inl e
                | Inr rec \<Rightarrow> Find (peer_order env 4 n) (dr_PeerID rec) (nd_peers n))
          else Inl e)"

definition SendDirect :: "unicode \<Rightarrow> crypto \<Rightarrow> nenv \<Rightarrow> string \<Rightarrow> string \<Rightarrow> node \<Rightarrow> node_err option \<times> node" where
  "SendDirect uc c env to text0 n =
     (let t = TrimSpace text0 in
      if to = [] \<or> t = [] then (Some (Usage ''/msg''), n)
      else
        (case find_target uc env to n of
           Inl e \<Rightarrow> (Some (NPeer e), n)
         | Inr h \<Rightarrow>
             (case conn_at (nd_peers n) h of
                None \<Rightarrow> (Some (NPeer ErrUnknownPeer), n)
              | Some cn \<Rightarrow>
                  (case sign c (NewDirect (c_sha256 c) (e_clock env 0) (e_nonce env 0) (idPeerID (nd_ident n)) (Nick n)
                          (pi_ID (cn_info cn)) t) n of
                     Inl e \<Rightarrow> (Some (NProto e), n)
                   | Inr msg \<Rightarrow>
                       (let n1 = see env (mID msg) n in
                        case Send (e_pick env 0 h) msg cn of
                          (Some e, cn1) \<Rightarrow> (Some (NPeer e), n1\<lparr>nd_peers := put_conn h cn1 (nd_peers n1)\<rparr>)
                        | (None, cn1) \<Rightarrow>
                            (let n2 = n1\<lparr>nd_peers := put_conn h cn1 (nd_peers n1)\<rparr> in
                             (None,
                              emit \<lparr>ev_Kind = EventChat,
                                ev_Text = FormatChat msg (displayName n2 (idPeerID (nd_ident n2)) (Nick n2)),
                                ev_Msg = Some msg, ev_Peer = no_info\<rparr> n2)))))))"

definition save_ident :: "nenv \<Rightarrow> node \<Rightarrow> node" where
  "save_ident env n = n\<lparr>nd_ident := fst (snd (Save_id (e_id_files env) (e_clock env 0) (nd_ident n)))\<rparr>"

definition save_dir :: "nenv \<Rightarrow> node \<Rightarrow> node" where
  "save_dir env n =
     n\<lparr>nd_dir := fst (snd (Save_dir (e_dir_marshal env) (e_dir_mk env) (e_dir_wr env) (e_dir_rn env) (nd_dir n)))\<rparr>"

fun announce_nick :: "unicode \<Rightarrow> crypto \<Rightarrow> nenv \<Rightarrow> string list \<Rightarrow> node \<Rightarrow> node" where
  "announce_nick uc c env [] n = n"
| "announce_nick uc c env (ch # chs) n =
     announce_nick uc c (later 8 env) chs
       (case sign c (new_join c env ch n) n of Inl e \<Rightarrow> n | Inr msg \<Rightarrow> inject uc (later 4 env) msg n)"

definition SetNick :: "unicode \<Rightarrow> crypto \<Rightarrow> nenv \<Rightarrow> string \<Rightarrow> node \<Rightarrow> node_err option \<times> node" where
  "SetNick uc c env nick0 n =
     (let nick = TrimSpace nick0 in
      if \<not> ValidNickname nick then (Some BadNickname, n)
      else
        (let n1 = n\<lparr>nd_ident := (nd_ident n)\<lparr>idNickname := nick\<rparr>\<rparr>;
             n2 = n1\<lparr>nd_chans := UpdateNick_chan (idPeerID (nd_ident n1)) nick (nd_chans n1),
                     nd_disc := map_option (SetNickname nick) (nd_disc n1)\<rparr>;
             n3 = System (''nickname is now '' @ nick) (save_ident env n2) in
         (None, announce_nick uc c (later 1 env) (JoinedNames (nd_chans n3)) n3)))"

text \<open>\<^verbatim>\<open>Nearby\<close> announces first; the datagram goes to the network and changes nothing here.\<close>

definition nearbySnapshot :: "nenv \<Rightarrow> node \<Rightarrow> announcement list \<times> node" where
  "nearbySnapshot env n =
     (case nd_disc n of
        None \<Rightarrow> ([], n)
      | Some d \<Rightarrow> (case Nearby (ranged env 0 (ds_seen d)) (e_clock env 0) d of (l, d') \<Rightarrow> (l, n\<lparr>nd_disc := Some d'\<rparr>)))"

definition Nearby_node :: "nenv \<Rightarrow> node \<Rightarrow> announcement list \<times> node" where
  "Nearby_node env n = nearbySnapshot env n"

section \<open>Periodic work, start and end\<close>

definition seen_tick :: "int \<Rightarrow> node \<Rightarrow> node" where
  "seen_tick now n = n\<lparr>nd_router := RouterSweep now (nd_router n)\<rparr>"

definition refreshAdvertise :: "net_addr list option \<Rightarrow> node \<Rightarrow> node" where
  "refreshAdvertise ifaces n =
     (let l = SanitizeAddrs (AdvertiseCandidates ifaces (nd_port n) @ [nd_upnpExt n]) 8 in
      n\<lparr>nd_addrs := l, nd_peers := SetAdvertiseAddrs l (nd_peers n)\<rparr>)"

text \<open>
  \<^verbatim>\<open>Start\<close>: \<open>dir\<close> is the result of \<^verbatim>\<open>directory.Load\<close> and \<open>fjoin\<close> \<^verbatim>\<open>filepath.Join\<close>,
  \<open>listened\<close> the port \<^verbatim>\<open>net.Listen\<close> got (none when it failed), \<open>multicast\<close> whether the
  discovery socket could be opened. The goroutines it starts are the other operations of this theory.
\<close>

definition start_peers :: "config \<Rightarrow> identity \<Rightarrow> int \<Rightarrow> pmanager" where
  "start_peers cfg ident port =
     (let m = SetMaxPeers (cfMaxPeers cfg) (NewPeerManager (idPeerID ident) (cfMaxMessageSize cfg) (cfPingInterval cfg) (cfIdleTimeout cfg));
          m1 = (if \<not> cfPlain cfg then EnableTLS m else m) in
      SetListenPort port (SetReplaceHook True (SetHooks True True m1)))"

definition start_disc :: "config \<Rightarrow> identity \<Rightarrow> int \<Rightarrow> bool \<Rightarrow> discovery option" where
  "start_disc cfg ident port multicast =
     (if cfNoDiscover cfg then None
      else
        (case Start_disc multicast (SetOnPeer True (New_disc (Some ident) (DefaultNickname ident) port (\<not> cfPlain cfg))) of
           (ok, d) \<Rightarrow> if ok then Some d else None))"

definition Start ::
  "(string \<Rightarrow> string \<Rightarrow> string) \<Rightarrow> dir_err + directory \<Rightarrow> net_addr list option \<Rightarrow> int option \<Rightarrow> bool \<Rightarrow> config option \<Rightarrow> identity option
    \<Rightarrow> node_err + node" where
  "Start fjoin dir ifaces listened multicast cfg0 ident0 =
     (let cfg = (case cfg0 of None \<Rightarrow> Default | Some c \<Rightarrow> c) in
      case ident0 of
        None \<Rightarrow> Inl NoIdentity
      | Some i0 \<Rightarrow>
          if cfNickname cfg \<noteq> [] \<and> \<not> ValidNickname (cfNickname cfg) then Inl BadNickname
          else
            (let ident = (if cfNickname cfg \<noteq> [] then i0\<lparr>idNickname := cfNickname cfg\<rparr> else i0);
                 host = (if cfListenHost cfg = [] then ''0.0.0.0'' else cfListenHost cfg);
                 addr = JoinHostPort host (FormatInt (cfPort cfg)) in
             case listened of
               None \<Rightarrow> Inl (ListenFailed addr)
             | Some port \<Rightarrow>
                 (let n = \<lparr>nd_cfg = cfg, nd_ident = ident, nd_peers = start_peers cfg ident port,
                        nd_chans = NewManager (idPeerID ident) (cfHistoryLimit cfg),
                        nd_router = New True True (cfSeenTTL cfg) (cfSeenMax cfg), nd_disc = None,
                        nd_dir = Some (case dir of Inl e \<Rightarrow> New_dir fjoin (cfDataDir cfg) | Inr d \<Rightarrow> d),
                        nd_limit = Some (NewWindow 30 second), nd_backoff = Some (NewTracker (5 * 10 ^ 9) (60 * 10 ^ 9)),
                        nd_port = port, nd_host = host, nd_addrs = [], nd_stunUDP = [], nd_stunDone = False,
                        nd_upnpExt = [], nd_upnpMap = None, nd_handshakes = 0, nd_dialing = gm_empty, nd_events = [],
                        nd_listening = True, nd_closed = False\<rparr>;
                      n1 = refreshAdvertise ifaces n;
                      n2 = n1\<lparr>nd_chans := snd (Join_chan ''#general'' (Nick n1) (nd_chans n1))\<rparr> in
                  Inr (n2\<lparr>nd_disc := start_disc cfg ident port multicast\<rparr>))))"

text \<open>\<^verbatim>\<open>Close\<close>: the requests that remove the port mapping, and the node.\<close>

definition Close_node :: "upnp_env \<Rightarrow> nenv \<Rightarrow> node \<Rightarrow> http_req list \<times> node" where
  "Close_node uenv env n =
     (if nd_closed n then ([], n)
      else
        (let reqs = (case nd_upnpMap n of None \<Rightarrow> [] | Some m \<Rightarrow> [unmap uenv 0 m]);
             n1 = n\<lparr>nd_closed := True, nd_events := [], nd_upnpMap := None\<rparr>;
             n2 = n1\<lparr>nd_listening := False, nd_peers := CloseAll (nd_peers n1), nd_disc := map_option Close_disc (nd_disc n1)\<rparr> in
         (reqs, save_ident env (save_dir env n2))))"

definition formatNames :: "unicode \<Rightarrow> string \<Rightarrow> node \<Rightarrow> perr + string" where
  "formatNames uc chan0 n =
     (let chan = (if chan0 = [] then Current (nd_chans n) else chan0) in
      case NormalizeChannel uc chan of
        Inl e \<Rightarrow> Inl e
      | Inr ch \<Rightarrow>
          (case Members (nd_chans n) ch of
             None \<Rightarrow> Inr (''not in '' @ ch)
           | Some members \<Rightarrow>
               Inr (''Names '' @ ch @ '' ('' @ FormatInt (int (gm_len members)) @ ''):''
                 @ concat (map (\<lambda>p. [CHR 0x0A] @ ''  '' @ shortID p @ ''  ''
                      @ displayName n p (case gm_get members p of None \<Rightarrow> [] | Some x \<Rightarrow> x))
                     (sort (gm_keys members))))))"

section \<open>Examples\<close>

text \<open>A clock that stands still, a node that has just started, and a node with one connection.\<close>

definition sample_nenv :: nenv where
  "sample_nenv =
     \<lparr>e_clock = (\<lambda>i. sample_now), e_nonce = (\<lambda>i. []), e_stamp = (\<lambda>i. []), e_range = (\<lambda>i ks. ks), e_pick = (\<lambda>i h. False),
      e_id_files = sample_files, e_dir_marshal = (\<lambda>l. None), e_dir_mk = True, e_dir_wr = True, e_dir_rn = True\<rparr>"

definition sample_node :: "char \<Rightarrow> node" where
  "sample_node k = projr (Start (@) (Inl DirRead) None (Some 7777) True None (Some (sample_ident k)))"

definition sample_linked :: "char \<Rightarrow> string \<Rightarrow> node" where
  "sample_linked k p =
     (let n = snd (Subscribe (sample_node k)) in
      n\<lparr>nd_peers := (put_conn 1 (sample_conn p False) (nd_peers n))\<lparr>pm_conns := gm_put p 1 gm_empty\<rparr>\<rparr>)"

section \<open>Emitting\<close>

lemma send_all_open:
  "\<not> nd_closed n \<Longrightarrow>
     send_all ev is n = Some (n\<lparr>nd_events := fold (\<lambda>i qs. qs[i := offer ev (qs ! i)]) is (nd_events n)\<rparr>)"
  by (induction "is" arbitrary: n) (simp_all add: send_event_def)

lemma fold_update: "k \<le> length qs \<Longrightarrow> fold (\<lambda>i qs. qs[i := f (qs ! i)]) [0..<k] qs = map f (take k qs) @ drop k qs"
proof (induction k)
  case (Suc k)
  then show ?case
    by (simp add: nth_append take_Suc_conv_app_nth list_update_append Cons_nth_drop_Suc [symmetric])
qed simp

text \<open>Nothing comes between the two halves of \<^verbatim>\<open>emit\<close>: every open queue is offered the event.\<close>

lemma emit_eq: "emit ev n = (if nd_closed n then n else n\<lparr>nd_events := map (offer ev) (nd_events n)\<rparr>)"
  using fold_update [of "length (nd_events n)" "nd_events n" "offer ev"]
  by (simp add: emit_def emit_snapshot_def send_all_open)

end
