(* ===== verification/Connect.thy ===== *)
theory Connect
  imports Node Stun
begin

text \<open>
  \<^verbatim>\<open>src/internal/node/connect.go\<close> and \<^verbatim>\<open>nat.go\<close>: finding the addresses of a peer, dialling, automatic
  and repeated connection, aliases, and the addresses the node knows of itself.

  What the network answers to one dial is the record \<open>dial_env\<close>: whether the goroutine gets a place
  before its context is cancelled, the result of the TCP dial, a cancellation after it, and the
  handshake. The goroutines of \<^verbatim>\<open>dialFirst\<close> are taken in the order in which they finish, which is
  an iteration order of the addresses. \<^verbatim>\<open>net.ParseIP\<close> is the argument \<open>is_ip\<close>.
\<close>

section \<open>Resolving a target\<close>

definition nearby_match :: "unicode \<Rightarrow> string \<Rightarrow> node \<Rightarrow> announcement \<Rightarrow> bool" where
  "nearby_match uc target n a \<longleftrightarrow>
     EqualFold uc (an_Nickname a) target \<or> an_PeerID a = target
     \<or> (length target \<ge> 4 \<and> HasPrefix (an_PeerID a) target)
     \<or> (nd_dir n \<noteq> None \<and> EqualFold uc (Alias (an_PeerID a) (nd_dir n)) target)"

definition resolveConnectTargets ::
  "unicode \<Rightarrow> (string \<Rightarrow> bool) \<Rightarrow> nenv \<Rightarrow> string \<Rightarrow> node \<Rightarrow> (node_err + string list) \<times> node" where
  "resolveConnectTargets uc is_ip env target0 n =
     (let target = TrimSpace target0 in
      if target = [] then (Inl (Usage ''/connect''), n)
      else if SplitHostPort target \<noteq> None then (Inr [target], n)
      else if is_ip target then (Inr [JoinHostPort target (FormatInt DefaultPort)], n)
      else
        (case (if nd_dir n \<noteq> None then AddrsFor uc (dir_order env 1 n) (dir_order env 2 n) target (nd_dir n) else Inl NoDirectory) of
           Inr (a # as) \<Rightarrow> (Inr (a # as), n)
         | _ \<Rightarrow>
             (case nearbySnapshot env n of
                (l, n1) \<Rightarrow>
                  (case find (nearby_match uc target n1) l of
                     Some a \<Rightarrow> (Inr [an_Addr a], n1)
                   | None \<Rightarrow> (Inl (CannotResolve target), n1)))))"

section \<open>Dialling\<close>

datatype tcp_dial = TcpOK | TcpFailed | TcpCanceled

record dial_env =
  dl_place :: bool
  dl_slot :: bool
  dl_tcp :: tcp_dial
  dl_cancel :: bool
  dl_hs :: hs_env
  dl_env :: nenv

definition beginDial :: "string \<Rightarrow> node \<Rightarrow> bool \<times> node" where
  "beginDial address n =
     (if gm_has (nd_dialing n) address then (False, n)
      else (True, n\<lparr>nd_dialing := gm_put address () (nd_dialing n)\<rparr>))"

definition endDial :: "string \<Rightarrow> node \<Rightarrow> node" where
  "endDial address n = n\<lparr>nd_dialing := gm_del address (nd_dialing n)\<rparr>"

text \<open>The part of \<^verbatim>\<open>dialOne\<close> between the two: slot, TCP connection, handshake, directory.\<close>

definition dial_body :: "unicode \<Rightarrow> crypto \<Rightarrow> dial_env \<Rightarrow> string \<Rightarrow> node \<Rightarrow> node_err option \<times> node" where
  "dial_body uc c de address n =
     (if \<not> dl_slot de then (Some Canceled, n)
      else
        (case dl_tcp de of
           TcpFailed \<Rightarrow> (Some (DialError address False), n)
         | TcpCanceled \<Rightarrow> (Some (DialError address True), n)
         | TcpOK \<Rightarrow>
             if dl_cancel de then (Some Canceled, n)
             else
               (case HandshakeAndAdopt uc c (dl_hs de) (nd_ident n) (Nick n) False (new_handle (nd_peers n)) (nd_peers n) of
                  (res, evs, m) \<Rightarrow>
                    let n1 = with_hooks c (later 4 (dl_env de)) (evs, m) n in
                    (case res of
                       Inl e \<Rightarrow> (if e = ErrDuplicate then None else Some (NPeer e), n1)
                     | Inr h \<Rightarrow>
                         (None,
                          case conn_at (nd_peers n1) h of
                            None \<Rightarrow> n1
                          | Some cn \<Rightarrow>
                              observePeer (dl_env de) ((cn_info cn)\<lparr>pi_Inbound := False, pi_Addr := address\<rparr>) n1)))))"

definition dialOne :: "unicode \<Rightarrow> crypto \<Rightarrow> dial_env \<Rightarrow> string \<Rightarrow> node \<Rightarrow> node_err option \<times> node" where
  "dialOne uc c de address n =
     (case beginDial address n of
        (False, n1) \<Rightarrow> (Some (AlreadyDialing address), n1)
      | (True, n1) \<Rightarrow> (case dial_body uc c de address n1 of (err, n2) \<Rightarrow> (err, endDial address n2)))"

fun is_canceled :: "node_err \<Rightarrow> bool" where
  "is_canceled Canceled = True"
| "is_canceled (DialError a b) = b"
| "is_canceled _ = False"

fun is_already_dialing :: "node_err \<Rightarrow> bool" where
  "is_already_dialing (AlreadyDialing a) = True"
| "is_already_dialing _ = False"

text \<open>The results of the goroutines in order of arrival, and how \<^verbatim>\<open>dialFirst\<close> sums them up.\<close>

fun dial_all ::
  "unicode \<Rightarrow> crypto \<Rightarrow> (string \<Rightarrow> dial_env) \<Rightarrow> string list \<Rightarrow> node \<Rightarrow> node_err option list \<times> node" where
  "dial_all uc c plan [] n = ([], n)"
| "dial_all uc c plan (a # as) n =
     (case (if dl_place (plan a) then dialOne uc c (plan a) a n else (Some Canceled, n)) of
        (err, n1) \<Rightarrow> (case dial_all uc c plan as n1 of (errs, n2) \<Rightarrow> (err # errs, n2)))"

fun sum_results :: "node_err option list \<Rightarrow> bool \<Rightarrow> node_err option \<Rightarrow> node_err option" where
  "sum_results [] ok lasterr = (if ok then None else if lasterr = None then Some NoAddresses else lasterr)"
| "sum_results (r # rs) ok lasterr =
     (case r of
        None \<Rightarrow> sum_results rs True lasterr
      | Some e \<Rightarrow>
          if is_canceled e then sum_results rs ok lasterr
          else if is_already_dialing e then sum_results rs ok (if lasterr = None then Some e else lasterr)
          else sum_results rs ok (Some e))"

definition dialFirst ::
  "unicode \<Rightarrow> crypto \<Rightarrow> nenv \<Rightarrow> (string \<Rightarrow> dial_env) \<Rightarrow> string list \<Rightarrow> node \<Rightarrow> node_err option \<times> node" where
  "dialFirst uc c env plan addrs n =
     (case dial_all uc c plan (e_range env 3 addrs) n of (errs, n1) \<Rightarrow> (sum_results errs False None, n1))"

definition Connect ::
  "unicode \<Rightarrow> crypto \<Rightarrow> (string \<Rightarrow> bool) \<Rightarrow> nenv \<Rightarrow> (string \<Rightarrow> dial_env) \<Rightarrow> string \<Rightarrow> node \<Rightarrow> node_err option \<times> node" where
  "Connect uc c is_ip env plan address n =
     (case resolveConnectTargets uc is_ip env address n of
        (Inl e, n1) \<Rightarrow> (Some e, n1)
      | (Inr addrs, n1) \<Rightarrow>
          if length addrs = 1 then dialOne uc c (plan (addrs ! 0)) (addrs ! 0) n1
          else dialFirst uc c env plan addrs n1)"

section \<open>Automatic connection\<close>

definition autoDial ::
  "unicode \<Rightarrow> crypto \<Rightarrow> (string \<Rightarrow> bool) \<Rightarrow> nenv \<Rightarrow> (string \<Rightarrow> dial_env) \<Rightarrow> string \<Rightarrow> string \<Rightarrow> node \<Rightarrow> node" where
  "autoDial uc c is_ip env plan peerID addr n =
     (if Connected (nd_peers n) peerID then n
      else
        (case Connect uc c is_ip (later 1 env) plan addr n of
           (Some e, n1) \<Rightarrow>
             if is_already_dialing e then n1
             else n1\<lparr>nd_backoff := Fail (e_clock env 0) peerID (nd_backoff n1)\<rparr>
         | (None, n1) \<Rightarrow> n1\<lparr>nd_backoff := Reset peerID (nd_backoff n1)\<rparr>))"

definition auto_wanted :: "int \<Rightarrow> announcement \<Rightarrow> node \<Rightarrow> bool" where
  "auto_wanted now a n \<longleftrightarrow>
     cfAutoConnect (nd_cfg n) \<and> an_Verified a \<and> an_Addr a \<noteq> [] \<and> \<not> Connected (nd_peers n) (an_PeerID a)
     \<and> AllowRetry now (an_PeerID a) (nd_backoff n)"

definition tryAutoConnect ::
  "unicode \<Rightarrow> crypto \<Rightarrow> (string \<Rightarrow> bool) \<Rightarrow> nenv \<Rightarrow> (string \<Rightarrow> dial_env) \<Rightarrow> announcement \<Rightarrow> node \<Rightarrow> node" where
  "tryAutoConnect uc c is_ip env plan a n =
     (if auto_wanted (e_clock env 0) a n then autoDial uc c is_ip (later 1 env) plan (an_PeerID a) (an_Addr a) n else n)"

definition reconnect_one ::
  "unicode \<Rightarrow> crypto \<Rightarrow> (string \<Rightarrow> bool) \<Rightarrow> nenv \<Rightarrow> (string \<Rightarrow> dial_env) \<Rightarrow> dir_record \<Rightarrow> node \<Rightarrow> node" where
  "reconnect_one uc c is_ip env plan rec n =
     (if dr_PeerID rec = idPeerID (nd_ident n) \<or> Connected (nd_peers n) (dr_PeerID rec) then n
      else if \<not> AllowRetry (e_clock env 0) (dr_PeerID rec) (nd_backoff n) then n
      else
        (case Connect uc c is_ip (later 2 env) plan (dr_PeerID rec) n of
           (Some e, n1) \<Rightarrow>
             if is_already_dialing e then n1
             else n1\<lparr>nd_backoff := Fail (e_clock env 1) (dr_PeerID rec) (nd_backoff n1)\<rparr>
         | (None, n1) \<Rightarrow> n1\<lparr>nd_backoff := Reset (dr_PeerID rec) (nd_backoff n1)\<rparr>))"

fun reconnect_loop ::
  "unicode \<Rightarrow> crypto \<Rightarrow> (string \<Rightarrow> bool) \<Rightarrow> nenv \<Rightarrow> (nat \<Rightarrow> string \<Rightarrow> dial_env) \<Rightarrow> dir_record list \<Rightarrow> node \<Rightarrow> node" where
  "reconnect_loop uc c is_ip env plans [] n = n"
| "reconnect_loop uc c is_ip env plans (rec # recs) n =
     reconnect_loop uc c is_ip (later 8 env) (\<lambda>i. plans (Suc i)) recs (reconnect_one uc c is_ip env (plans 0) rec n)"

text \<open>\<open>busy\<close>: another pass holds the lock.\<close>

definition reconnectOnce ::
  "unicode \<Rightarrow> crypto \<Rightarrow> (string \<Rightarrow> bool) \<Rightarrow> nenv \<Rightarrow> (nat \<Rightarrow> string \<Rightarrow> dial_env) \<Rightarrow> bool \<Rightarrow> node \<Rightarrow> node" where
  "reconnectOnce uc c is_ip env plans busy n =
     (if nd_dir n = None \<or> busy then n
      else reconnect_loop uc c is_ip env plans (ReconnectTargets uc (nd_dir n)) n)"

fun nearby_loop ::
  "unicode \<Rightarrow> crypto \<Rightarrow> (string \<Rightarrow> bool) \<Rightarrow> nenv \<Rightarrow> (nat \<Rightarrow> string \<Rightarrow> dial_env) \<Rightarrow> announcement list \<Rightarrow> nat \<Rightarrow> node_err option \<Rightarrow> node
    \<Rightarrow> (nat \<times> node_err option) \<times> node" where
  "nearby_loop uc c is_ip env plans [] cnt lasterr n = ((cnt, lasterr), n)"
| "nearby_loop uc c is_ip env plans (a # as) cnt lasterr n =
     (if \<not> an_Verified a \<or> Connected (nd_peers n) (an_PeerID a)
      then nearby_loop uc c is_ip (later 8 env) (\<lambda>i. plans (Suc i)) as cnt lasterr n
      else
        (case Connect uc c is_ip env (plans 0) (an_Addr a) n of
           (Some e, n1) \<Rightarrow> nearby_loop uc c is_ip (later 8 env) (\<lambda>i. plans (Suc i)) as cnt (Some e) n1
         | (None, n1) \<Rightarrow> nearby_loop uc c is_ip (later 8 env) (\<lambda>i. plans (Suc i)) as (Suc cnt) lasterr n1))"

definition connectNearbyVerified ::
  "unicode \<Rightarrow> crypto \<Rightarrow> (string \<Rightarrow> bool) \<Rightarrow> nenv \<Rightarrow> (nat \<Rightarrow> string \<Rightarrow> dial_env) \<Rightarrow> node \<Rightarrow> (node_err + nat) \<times> node" where
  "connectNearbyVerified uc c is_ip env plans n =
     (case Nearby_node env n of
        (l, n1) \<Rightarrow>
          (case nearby_loop uc c is_ip (later 1 env) plans l 0 None n1 of
             ((cnt, lasterr), n2) \<Rightarrow>
               (case lasterr of
                  Some e \<Rightarrow> (if cnt = 0 then Inl e else Inr cnt, n2)
                | None \<Rightarrow> (Inr cnt, n2))))"

section \<open>Aliases and listings\<close>

definition known_line :: "dir_record \<Rightarrow> string" where
  "known_line rec =
     (let al = (if dr_Alias rec = [] then ''-'' else dr_Alias rec);
          addr = (if dr_LastAddr rec = [] then ''-'' else dr_LastAddr rec);
          extra = (if dr_ExtraAddrs rec \<noteq> [] then ''  +'' @ Join (dr_ExtraAddrs rec) '','' else []) in
      [CHR 0x0A] @ ''  '' @ shortID (dr_PeerID rec) @ ''  alias='' @ al @ ''  nick='' @ dr_Nickname rec @ ''  '' @ addr @ extra)"

definition formatKnown :: "unicode \<Rightarrow> node \<Rightarrow> string" where
  "formatKnown uc n =
     (if nd_dir n = None then ''no peer directory''
      else
        (let l = List_dir uc (nd_dir n) in
         if l = [] then ''no known peers yet'' else ''Known peers:'' @ concat (map known_line l)))"

definition formatAliases :: "unicode \<Rightarrow> node \<Rightarrow> string" where
  "formatAliases uc n =
     (if nd_dir n = None then ''no peer directory''
      else
        (let l = filter (\<lambda>rec. dr_Alias rec \<noteq> []) (List_dir uc (nd_dir n)) in
         if l = [] then ''no aliases (set one with /alias <peer-id> <name>)''
         else ''Aliases:''
           @ concat (map (\<lambda>rec. [CHR 0x0A] @ ''  '' @ dr_Alias rec @ ''  '' @ shortID (dr_PeerID rec) @ ''  '' @ dr_LastAddr rec) l)))"

definition setAlias :: "unicode \<Rightarrow> nenv \<Rightarrow> string \<Rightarrow> string \<Rightarrow> node \<Rightarrow> node_err option \<times> node" where
  "setAlias uc env peerKey name n =
     (if nd_dir n = None then (Some NoPeerDirectory, n)
      else
        (case (case Lookup_dir uc (dir_order env 0 n) (dir_order env 1 n) peerKey (nd_dir n) of
                 Inr rec \<Rightarrow> Some (dr_PeerID rec, n)
               | Inl _ \<Rightarrow>
                   (case Find (peer_order env 2 n) peerKey (nd_peers n) of
                      Inr h \<Rightarrow>
                        (case conn_at (nd_peers n) h of
                           None \<Rightarrow> None
                         | Some cn \<Rightarrow> Some (pi_ID (cn_info cn), observePeer env (cn_info cn) n))
                    | Inl _ \<Rightarrow> None)) of
           None \<Rightarrow> (Some (UnknownPeerKey peerKey), n)
         | Some (p, n1) \<Rightarrow>
             (case SetAlias uc (dir_order env 3 n1) p name (nd_dir n1) of
                (Some e, d) \<Rightarrow> (Some (NDir e), n1\<lparr>nd_dir := d\<rparr>)
              | (None, d) \<Rightarrow>
                  (None, System (''alias '' @ name @ '' -> '' @ shortID p) (save_dir env (n1\<lparr>nd_dir := d\<rparr>))))))"

definition clearAlias :: "unicode \<Rightarrow> nenv \<Rightarrow> string \<Rightarrow> node \<Rightarrow> node_err option \<times> node" where
  "clearAlias uc env key n =
     (if nd_dir n = None then (Some NoPeerDirectory, n)
      else
        (case ClearAlias uc (dir_order env 0 n) (dir_order env 1 n) key (nd_dir n) of
           (Some e, d) \<Rightarrow> (Some (NDir e), n\<lparr>nd_dir := d\<rparr>)
         | (None, d) \<Rightarrow> (None, System (''removed alias for '' @ key) (save_dir env (n\<lparr>nd_dir := d\<rparr>)))))"

section \<open>Addresses of the node\<close>

definition Candidates :: "net_addr list option \<Rightarrow> node \<Rightarrow> string list" where
  "Candidates ifaces n = Unique (LocalCandidates ifaces (nd_port n) @ nd_upnpExt n # nd_addrs n)"

definition lan_addr :: "string \<Rightarrow> bool" where
  "lan_addr a = (case SplitHostPort a of None \<Rightarrow> False | Some (host, _) \<Rightarrow> host \<noteq> ''127.0.0.1'' \<and> host \<noteq> ''::1'')"

definition LANHint :: "net_addr list option \<Rightarrow> node \<Rightarrow> string" where
  "LANHint ifaces n = (case find lan_addr (Candidates ifaces n) of Some a \<Rightarrow> a | None \<Rightarrow> DialAddr n)"

definition formatAddrs :: "net_addr list option \<Rightarrow> node \<Rightarrow> string" where
  "formatAddrs ifaces n =
     (let nl = [CHR 0x0A] in
      ''Address candidates:'' @ nl @ ''  TCP listen:     '' @ ListenAddr n @ nl @ ''  Local:''
      @ concat (map (\<lambda>a. nl @ ''    '' @ a) (LocalCandidates ifaces (nd_port n)))
      @ (if nd_addrs n = [] then nl @ ''  Advertised TCP:  (none yet; LAN IPv4 or --upnp)''
         else nl @ ''  Advertised TCP (unsigned hello addrs):'' @ concat (map (\<lambda>a. nl @ ''    '' @ a) (nd_addrs n)))
      @ (if nd_stunUDP n \<noteq> []
         then nl @ ''  STUN UDP:       '' @ nd_stunUDP n
           @ nl @ ''    This is a UDP Binding mapping, not the TCP listen port.''
         else if cfNoSTUN (nd_cfg n) \<or> cfSTUNServer (nd_cfg n) = []
         then nl @ ''  STUN UDP:       skipped (--no-stun or empty --stun)''
         else if \<not> nd_stunDone n then nl @ ''  STUN UDP:       probing''
         else nl @ ''  STUN UDP:       (none / query failed)'')
      @ (if nd_upnpExt n \<noteq> [] then nl @ ''  UPnP TCP:       '' @ nd_upnpExt n
         else if cfUPnP (nd_cfg n) then nl @ ''  UPnP TCP:       failed or still probing''
         else nl @ ''  UPnP TCP:       off (pass --upnp to try an IGD mapping)'')
      @ nl @ ''  Inbound from the public Internet still needs a forwarded TCP port, UPnP, or a 0.5 relay.'')"

text \<open>\<open>txid\<close> and \<open>exchange\<close> are the random transaction id and the UDP exchange of \<^verbatim>\<open>stun.Binding\<close>.\<close>

definition trySTUN :: "8 word list \<Rightarrow> (8 word list \<Rightarrow> 8 word list option) \<Rightarrow> node \<Rightarrow> node" where
  "trySTUN txid exchange n =
     (let n1 = (if cfNoSTUN (nd_cfg n) \<or> cfSTUNServer (nd_cfg n) = [] then n
                else
                  (case Binding (cfSTUNServer (nd_cfg n)) txid exchange of
                     Inl e \<Rightarrow> n
                   | Inr m \<Rightarrow>
                       System (''STUN UDP mapped address '' @ Mapped_String m
                           @ '' (not a TCP listen port; inbound Internet still needs UPnP or a forwarded TCP port)'')
                         (n\<lparr>nd_stunUDP := Mapped_String m\<rparr>))) in
      n1\<lparr>nd_stunDone := True\<rparr>)"

text \<open>\<^verbatim>\<open>tryUPnP\<close>: the requests to the gateway and the new state.\<close>

definition tryUPnP :: "net_addr list option \<Rightarrow> upnp_env \<Rightarrow> node \<Rightarrow> http_req list \<times> node" where
  "tryUPnP ifaces uenv n =
     (if \<not> cfUPnP (nd_cfg n) then ([], n)
      else
        (case PrivateIPv4 ifaces of
           [] \<Rightarrow> ([], n)
         | a # _ \<Rightarrow>
             (let local = ip4_String a in
              case MapTCP uenv local (nd_port n) of
                (Inl e, reqs) \<Rightarrow> (map snd reqs, n)
              | (Inr m, reqs) \<Rightarrow>
                  if nd_closed n then (map snd reqs @ [unmap uenv 3 m], n)
                  else
                    (let n1 = refreshAdvertise ifaces (n\<lparr>nd_upnpExt := mp_External m, nd_upnpMap := Some m\<rparr>) in
                     (map snd reqs,
                      System (''UPnP mapped TCP '' @ mp_External m @ '' -> '' @ local @ '':'' @ FormatInt (nd_port n1)) n1)))))"

text \<open>One turn of \<^verbatim>\<open>upnpRenewLoop\<close> (\<open>None\<close>: the loop ends), and what \<^verbatim>\<open>Close\<close> sends to the gateway.\<close>

definition upnp_renew :: "upnp_env \<Rightarrow> node \<Rightarrow> http_req list option" where
  "upnp_renew uenv n = (case nd_upnpMap n of None \<Rightarrow> None | Some m \<Rightarrow> Some (snd (Renew uenv 0 (Some m))))"

section \<open>The life of a mapping\<close>

text \<open>
  A mapping the gateway granted is deleted again: at once when the node was closed meanwhile, else it is kept,
  renewed with the request that made it, and deleted when the node closes, after which it is gone.
\<close>

theorem mapping_is_removed:
  assumes "cfUPnP (nd_cfg n)" "PrivateIPv4 ifaces = a # as" "MapTCP uenv (ip4_String a) (nd_port n) = (Inr m, reqs)"
  shows "nd_closed n \<Longrightarrow> tryUPnP ifaces uenv n = (map snd reqs @ [unmap uenv 3 m], n)"
    and "\<not> nd_closed n \<Longrightarrow> nd_upnpMap (snd (tryUPnP ifaces uenv n)) = Some m
      \<and> fst (Close_node uenv2 env (snd (tryUPnP ifaces uenv n))) = [unmap uenv2 0 m]
      \<and> nd_upnpMap (snd (Close_node uenv2 env (snd (tryUPnP ifaces uenv n)))) = None"
  using assms
  by (auto simp: tryUPnP_def Let_def refreshAdvertise_def System_def emit_eq Close_node_def save_ident_def save_dir_def)

text \<open>
  When the gateway grants the mapping but does not say its own address, the node advertises the mapping as
  \<^verbatim>\<open>0.0.0.0\<close>, an address no other host can dial, provided fewer than eight other addresses go before it.
\<close>

lemma canon_unspecified: "canon_addr ''0.0.0.0:7777'' = Some ''0.0.0.0:7777''"
proof -
  have f: "FormatInt 7777 = ''7777''"
    by (simp add: FormatInt_def dec_nat.simps [of 7777] dec_nat.simps [of 777] dec_nat.simps [of 77] dec_nat.simps [of 7]
        char_of_def bit_iff_odd)
  have "TrimSpace ''0.0.0.0:7777'' = ''0.0.0.0:7777''" by (rule TrimSpace_id) (simp_all add: is_space_def)
  moreover have "SplitHostPort ''0.0.0.0:7777'' = Some (''0.0.0.0'', ''7777'')"
    by (simp add: SplitHostPort_def last_index_byte_def)
  moreover have "Atoi ''7777'' = Some 7777" using Atoi_FormatInt [of 7777] by (simp add: f)
  ultimately show ?thesis by (simp add: canon_addr_def JoinHostPort_def f)
qed

theorem unknown_external_ip_advertised:
  assumes "cfUPnP (nd_cfg n)" "PrivateIPv4 ifaces = a # as" "\<not> nd_closed n" "nd_port n = DefaultPort"
    and "MapTCP uenv (ip4_String a) (nd_port n) = (Inr m, reqs)" "mp_External m = ''0.0.0.0:7777''"
    and "length (AdvertiseCandidates ifaces (nd_port n)) < 8"
  shows "''0.0.0.0:7777'' \<in> set (nd_addrs (snd (tryUPnP ifaces uenv n)))"
proof -
  let ?l = "AdvertiseCandidates ifaces (nd_port n) @ [''0.0.0.0:7777'']"
  have "length (List.map_filter f l) \<le> length l" for f :: "string \<Rightarrow> string option" and l by (simp add: map_filter_def)
  then have "length (firsts (List.map_filter canon_addr ?l)) \<le> length ?l" using length_firsts le_trans by blast
  then have "SanitizeAddrs ?l 8 = firsts (List.map_filter canon_addr ?l)"
    using sanitize_facts [of ?l 8] assms(7) by simp
  then have "''0.0.0.0:7777'' \<in> set (SanitizeAddrs ?l 8)"
    by (simp add: map_filter_def canon_unspecified)
  then show ?thesis
    using assms(1-3,5,6) by (simp add: tryUPnP_def Let_def refreshAdvertise_def System_def emit_eq)
qed

end
