(* ===== verification/Commands.thy ===== *)
theory Commands
  imports Connect
begin

text \<open>
  \<^verbatim>\<open>src/internal/node/commands.go\<close> with the listings of \<^verbatim>\<open>node.go\<close>: what one input line does to the
  node. The result says whether to quit, the error if any, and the new state. What a line takes from
  outside is the record \<open>cmd_env\<close>: the environment of the node's operations, the answers of the network
  to dials, \<^verbatim>\<open>net.ParseIP\<close>, the interface addresses, and the values that only appear in listings.
\<close>

record cmd_env =
  ce_env :: nenv
  ce_plans :: "nat \<Rightarrow> string \<Rightarrow> dial_env"
  ce_is_ip :: "string \<Rightarrow> bool"
  ce_ifaces :: "net_addr list option"
  ce_version :: string
  ce_commit :: string
  ce_uptime :: string
  ce_goroutines :: int
  ce_created :: "int \<Rightarrow> string"

type_synonym cmd_result = "(bool \<times> node_err option) \<times> node"

section \<open>Listings\<close>

definition version_String :: "string \<Rightarrow> string \<Rightarrow> string" where
  "version_String Ver Commit =
     (let s = ''p2pirc'' @ '' '' @ Ver in if Commit \<noteq> [] \<and> Commit \<noteq> ''dev'' then s @ '' '' @ Commit else s)"

definition whoami :: "cmd_env \<Rightarrow> node \<Rightarrow> string" where
  "whoami ce n =
     (let i = nd_ident n; nl = [CHR 0x0A];
          transport = (if pm_tls (nd_peers n) then ''TLS 1.3 (mutual Ed25519)'' else ''plain TCP (insecure)'');
          created = (if idCreatedAt i \<noteq> 0 then nl @ ''  Created:    '' @ ce_created ce (idCreatedAt i) else []) in
      ''Local identity:''
      @ nl @ ''  Version:    '' @ version_String (ce_version ce) (ce_commit ce)
      @ nl @ ''  Peer ID:    '' @ idPeerID i
      @ nl @ ''  Short ID:   '' @ ShortID i
      @ nl @ ''  Fingerprint: '' @ Fingerprint i
      @ nl @ ''  Nickname:   '' @ Nick n
      @ nl @ ''  Public key: '' @ PublicKeyHex i
      @ nl @ ''  Transport:  '' @ transport
      @ nl @ ''  Listen:     '' @ ListenAddr n
      @ nl @ ''  Data dir:   '' @ cfDataDir (nd_cfg n) @ created
      @ nl @ nl @ formatAddrs (ce_ifaces ce) n)"

definition formatStats :: "cmd_env \<Rightarrow> node \<Rightarrow> string" where
  "formatStats ce n =
     (let nl = [CHR 0x0A];
          mx = (if cfMaxPeers (nd_cfg n) > 0 then FormatInt (cfMaxPeers (nd_cfg n)) else ''unlimited'') in
      ''Stats:''
      @ nl @ ''  version:    '' @ version_String (ce_version ce) (ce_commit ce)
      @ nl @ ''  uptime:     '' @ ce_uptime ce
      @ nl @ ''  peers:      '' @ FormatInt (int (Len_peers (nd_peers n))) @ '' / '' @ mx
      @ nl @ ''  seen-ids:   '' @ FormatInt (int (Len (rt_seen (nd_router n))))
      @ nl @ ''  channels:   '' @ FormatInt (int (length (JoinedNames (nd_chans n))))
      @ nl @ ''  listen:     '' @ ListenAddr n
      @ nl @ ''  goroutines: '' @ FormatInt (ce_goroutines ce))"

definition peer_line :: "node \<Rightarrow> info \<Rightarrow> string" where
  "peer_line n p =
     [CHR 0x0A] @ ''  '' @ Info_ShortID p @ ''  '' @ displayName n (pi_ID p) (pi_Nickname p) @ ''  '' @ pi_Addr p
     @ ''  ('' @ (if pi_Inbound p then ''in'' else ''out'') @ '')''"

definition nearby_line :: "node \<Rightarrow> announcement \<Rightarrow> string" where
  "nearby_line n a =
     (let mark = (if an_Verified a then ''verified'' else ''unverified'')
            @ (if Connected (nd_peers n) (an_PeerID a) then '', connected'' else []);
          al = (if nd_dir n \<noteq> None \<and> Alias (an_PeerID a) (nd_dir n) \<noteq> []
                then ''  alias='' @ Alias (an_PeerID a) (nd_dir n) else []);
          tls = (if an_TLS a then '' tls'' else []) in
      [CHR 0x0A] @ ''  '' @ shortID (an_PeerID a) @ ''  '' @ an_Nickname a @ al @ ''  '' @ an_Addr a
      @ ''  ('' @ mark @ tls @ '')'')"

text \<open>The texts of the errors of \<^verbatim>\<open>NormalizeChannel\<close>, which \<^verbatim>\<open>/names\<close> prints.\<close>

fun channel_error :: "perr \<Rightarrow> string" where
  "channel_error EmptyChannelName = ''empty channel name''"
| "channel_error ChannelNameLength = ''channel name length''"
| "channel_error InvalidChannelCharacter = ''invalid channel character''"
| "channel_error _ = []"

section \<open>Commands\<close>

definition sys :: "string \<Rightarrow> node \<Rightarrow> cmd_result" where
  "sys s n = ((False, None), System s n)"

definition ran :: "node_err option \<times> node \<Rightarrow> cmd_result" where
  "ran r = ((False, fst r), snd r)"

definition usage :: "string \<Rightarrow> node \<Rightarrow> cmd_result" where
  "usage s n = ((False, Some (Usage s)), n)"

definition cmdChat :: "unicode \<Rightarrow> crypto \<Rightarrow> cmd_env \<Rightarrow> command \<Rightarrow> node \<Rightarrow> cmd_result" where
  "cmdChat uc c ce cmd n =
     (if cmd_Raw cmd = [] \<or> length (cmd_Args cmd) < 1 then ((False, None), n)
      else ran (SendChat uc c (ce_env ce) (cmd_Args cmd ! 0) False n))"

definition cmdHelp :: "node \<Rightarrow> cmd_result" where
  "cmdHelp n = sys HelpText n"

definition cmdConnect :: "unicode \<Rightarrow> crypto \<Rightarrow> cmd_env \<Rightarrow> command \<Rightarrow> node \<Rightarrow> cmd_result" where
  "cmdConnect uc c ce cmd n =
     (if length (cmd_Args cmd) < 1 then usage ''/connect'' n
      else ran (Connect uc c (ce_is_ip ce) (ce_env ce) (ce_plans ce 0) (cmd_Args cmd ! 0) n))"

definition cmdDisconnect :: "unicode \<Rightarrow> cmd_env \<Rightarrow> command \<Rightarrow> node \<Rightarrow> cmd_result" where
  "cmdDisconnect uc ce cmd n =
     (if length (cmd_Args cmd) < 1 then usage ''/disconnect'' n
      else ran (Disconnect_node uc (ce_env ce) (cmd_Args cmd ! 0) n))"

definition cmdPeers :: "cmd_env \<Rightarrow> node \<Rightarrow> cmd_result" where
  "cmdPeers ce n =
     (let l = List_peers (peer_order (ce_env ce) 0 n) (nd_peers n) in
      if l = [] then sys ''no connected peers'' n
      else sys (''Connected peers:'' @ concat (map (peer_line n) l)) n)"

definition cmdJoin :: "unicode \<Rightarrow> crypto \<Rightarrow> cmd_env \<Rightarrow> command \<Rightarrow> node \<Rightarrow> cmd_result" where
  "cmdJoin uc c ce cmd n =
     (if length (cmd_Args cmd) < 1 then usage ''/join'' n
      else ran (Join_node uc c (ce_env ce) (cmd_Args cmd ! 0) n))"

definition cmdLeave :: "unicode \<Rightarrow> crypto \<Rightarrow> cmd_env \<Rightarrow> command \<Rightarrow> node \<Rightarrow> cmd_result" where
  "cmdLeave uc c ce cmd n =
     (let name = (if length (cmd_Args cmd) \<ge> 1 then cmd_Args cmd ! 0 else Current (nd_chans n)) in
      ran (Leave_node uc c (ce_env ce) name n))"

definition cmdChannels :: "node \<Rightarrow> cmd_result" where
  "cmdChannels n =
     (let cur = Current (nd_chans n); nl = [CHR 0x0A] in
      sys (''Joined:''
        @ concat (map (\<lambda>name. nl @ ''  '' @ name @ (if name = cur then ''  (current)'' else [])) (JoinedNames (nd_chans n)))
        @ nl @ ''Known:'' @ concat (map (\<lambda>name. nl @ ''  '' @ name) (KnownNames (nd_chans n)))) n)"

definition cmdNick :: "unicode \<Rightarrow> crypto \<Rightarrow> cmd_env \<Rightarrow> command \<Rightarrow> node \<Rightarrow> cmd_result" where
  "cmdNick uc c ce cmd n =
     (if length (cmd_Args cmd) < 1 then usage ''/nick'' n
      else ran (SetNick uc c (ce_env ce) (cmd_Args cmd ! 0) n))"

definition cmdMe :: "unicode \<Rightarrow> crypto \<Rightarrow> cmd_env \<Rightarrow> command \<Rightarrow> node \<Rightarrow> cmd_result" where
  "cmdMe uc c ce cmd n =
     (if length (cmd_Args cmd) < 1 \<or> TrimSpace (cmd_Args cmd ! 0) = [] then usage ''/me'' n
      else ran (SendChat uc c (ce_env ce) (cmd_Args cmd ! 0) True n))"

definition cmdMsg :: "unicode \<Rightarrow> crypto \<Rightarrow> cmd_env \<Rightarrow> command \<Rightarrow> node \<Rightarrow> cmd_result" where
  "cmdMsg uc c ce cmd n =
     (if length (cmd_Args cmd) < 2 then usage ''/msg'' n
      else ran (SendDirect uc c (ce_env ce) (cmd_Args cmd ! 0) (cmd_Args cmd ! 1) n))"

definition cmdDiscover :: "unicode \<Rightarrow> crypto \<Rightarrow> cmd_env \<Rightarrow> command \<Rightarrow> node \<Rightarrow> cmd_result" where
  "cmdDiscover uc c ce cmd n =
     (if length (cmd_Args cmd) \<ge> 1 \<and> EqualFold uc (cmd_Args cmd ! 0) ''connect'' then
        (case connectNearbyVerified uc c (ce_is_ip ce) (ce_env ce) (ce_plans ce) n of
           (Inl e, n1) \<Rightarrow> ((False, Some e), n1)
         | (Inr cnt, n1) \<Rightarrow> sys (''connected to '' @ FormatInt (int cnt) @ '' nearby verified peer(s)'') n1)
      else
        (case Nearby_node (ce_env ce) n of
           (l, n1) \<Rightarrow>
             if l = []
             then sys (''no nearby peers (LAN multicast '' @ MulticastGroup @ '':'' @ FormatInt MulticastPort @ '')'') n1
             else sys (''Nearby peers:'' @ concat (map (nearby_line n1) l)) n1))"

definition cmdWhoami :: "cmd_env \<Rightarrow> node \<Rightarrow> cmd_result" where
  "cmdWhoami ce n = sys (whoami ce n) n"

definition cmdAlias :: "unicode \<Rightarrow> cmd_env \<Rightarrow> command \<Rightarrow> node \<Rightarrow> cmd_result" where
  "cmdAlias uc ce cmd n =
     (if length (cmd_Args cmd) = 0 then sys (formatAliases uc n) n
      else if length (cmd_Args cmd) < 2 then usage ''/alias'' n
      else ran (setAlias uc (ce_env ce) (cmd_Args cmd ! 0) (cmd_Args cmd ! 1) n))"

definition cmdUnalias :: "unicode \<Rightarrow> cmd_env \<Rightarrow> command \<Rightarrow> node \<Rightarrow> cmd_result" where
  "cmdUnalias uc ce cmd n =
     (if length (cmd_Args cmd) < 1 then usage ''/unalias'' n
      else ran (clearAlias uc (ce_env ce) (cmd_Args cmd ! 0) n))"

definition cmdKnown :: "unicode \<Rightarrow> node \<Rightarrow> cmd_result" where
  "cmdKnown uc n = sys (formatKnown uc n) n"

definition cmdAddr :: "cmd_env \<Rightarrow> node \<Rightarrow> cmd_result" where
  "cmdAddr ce n = sys (formatAddrs (ce_ifaces ce) n) n"

definition cmdVersion :: "cmd_env \<Rightarrow> node \<Rightarrow> cmd_result" where
  "cmdVersion ce n = sys (version_String (ce_version ce) (ce_commit ce)) n"

definition cmdStats :: "cmd_env \<Rightarrow> node \<Rightarrow> cmd_result" where
  "cmdStats ce n = sys (formatStats ce n) n"

definition cmdNames :: "unicode \<Rightarrow> command \<Rightarrow> node \<Rightarrow> cmd_result" where
  "cmdNames uc cmd n =
     (let ch = (if length (cmd_Args cmd) \<ge> 1 then cmd_Args cmd ! 0 else Current (nd_chans n)) in
      sys (case formatNames uc ch n of Inl e \<Rightarrow> channel_error e | Inr s \<Rightarrow> s) n)"

definition cmdQuit :: "node \<Rightarrow> cmd_result" where
  "cmdQuit n = ((True, None), n)"

fun run_command :: "unicode \<Rightarrow> crypto \<Rightarrow> cmd_env \<Rightarrow> kind \<Rightarrow> command \<Rightarrow> node \<Rightarrow> cmd_result" where
  "run_command uc c ce KindChat cmd n = cmdChat uc c ce cmd n"
| "run_command uc c ce KindHelp cmd n = cmdHelp n"
| "run_command uc c ce KindConnect cmd n = cmdConnect uc c ce cmd n"
| "run_command uc c ce KindDisconnect cmd n = cmdDisconnect uc ce cmd n"
| "run_command uc c ce KindPeers cmd n = cmdPeers ce n"
| "run_command uc c ce KindJoin cmd n = cmdJoin uc c ce cmd n"
| "run_command uc c ce KindLeave cmd n = cmdLeave uc c ce cmd n"
| "run_command uc c ce KindChannels cmd n = cmdChannels n"
| "run_command uc c ce KindNick cmd n = cmdNick uc c ce cmd n"
| "run_command uc c ce KindMe cmd n = cmdMe uc c ce cmd n"
| "run_command uc c ce KindMsg cmd n = cmdMsg uc c ce cmd n"
| "run_command uc c ce KindDiscover cmd n = cmdDiscover uc c ce cmd n"
| "run_command uc c ce KindWhoami cmd n = cmdWhoami ce n"
| "run_command uc c ce KindAlias cmd n = cmdAlias uc ce cmd n"
| "run_command uc c ce KindUnalias cmd n = cmdUnalias uc ce cmd n"
| "run_command uc c ce KindKnown cmd n = cmdKnown uc n"
| "run_command uc c ce KindAddr cmd n = cmdAddr ce n"
| "run_command uc c ce KindVersion cmd n = cmdVersion ce n"
| "run_command uc c ce KindStats cmd n = cmdStats ce n"
| "run_command uc c ce KindNames cmd n = cmdNames uc cmd n"
| "run_command uc c ce KindQuit cmd n = cmdQuit n"
| "run_command uc c ce KindUnknown cmd n = ((False, Some (UnknownCommand (cmd_Raw cmd))), n)"

definition HandleLine :: "unicode \<Rightarrow> crypto \<Rightarrow> cmd_env \<Rightarrow> string \<Rightarrow> node \<Rightarrow> cmd_result" where
  "HandleLine uc c ce line n = (let cmd = Parse uc line in run_command uc c ce (cmd_Kind cmd) cmd n)"

text \<open>An example: no address can be dialled.\<close>

definition sample_cmd_env :: cmd_env where
  "sample_cmd_env =
     \<lparr>ce_env = sample_nenv,
      ce_plans = (\<lambda>i a. \<lparr>dl_place = True, dl_slot = True, dl_tcp = TcpFailed, dl_cancel = False, dl_hs = sample_env None,
        dl_env = sample_nenv\<rparr>),
      ce_is_ip = (\<lambda>a. False), ce_ifaces = None, ce_version = ''0.5.1'', ce_commit = ''dev'', ce_uptime = ''1s'',
      ce_goroutines = 9, ce_created = (\<lambda>t. [])\<rparr>"

end
