(* ===== verification/NodeInv.thy ===== *)
theory NodeInv
  imports Commands
begin

text \<open>
  The invariant of a whole node and its preservation: the component invariants, the bounds of the event
  queues and of the handshake slots, and the consistency of the identity. Every operation a
  goroutine of the process performs is a rule of the step relation \<open>node_step\<close>; the invariant
  holds in every state reachable from \<open>Start\<close>.
\<close>

section \<open>The invariant\<close>

named_theorems node_intros \<open>operations of the node that keep its invariant\<close>

definition table_good :: "pmanager \<Rightarrow> bool" where
  "table_good m \<longleftrightarrow> peer_inv m \<and> hooked m \<and> gm_get (pm_conns m) [] = None"

definition chan_inv :: "manager \<Rightarrow> bool" where
  "chan_inv m \<longleftrightarrow>
     gm_wf (cm_joined m) \<and> 0 < cm_histLim m
     \<and> (\<forall>name ch. gm_get (cm_joined m) name = Some ch \<longrightarrow>
          gm_wf (ch_Members ch) \<and> length (ch_History ch) \<le> cm_histLim m)"

definition queues_ok :: "event list list \<Rightarrow> bool" where
  "queues_ok qs \<longleftrightarrow> (\<forall>q \<in> set qs. length q \<le> eventCap)"

definition node_inv :: "unicode \<Rightarrow> crypto \<Rightarrow> node \<Rightarrow> bool" where
  "node_inv uc c n \<longleftrightarrow>
     table_good (nd_peers n) \<and> seen_inv (rt_seen (nd_router n)) \<and> chan_inv (nd_chans n)
     \<and> pred_option window_inv (nd_limit n) \<and> pred_option (dir_inv uc) (nd_dir n) \<and> pred_option (disc_inv uc c) (nd_disc n)
     \<and> id_ok c (nd_ident n) \<and> queues_ok (nd_events n) \<and> gm_wf (nd_dialing n)
     \<and> (cfMaxHandshakes (nd_cfg n) > 0 \<longrightarrow> int (nd_handshakes n) \<le> cfMaxHandshakes (nd_cfg n))"

section \<open>The peer table\<close>

lemma table_good_on: "benign f \<Longrightarrow> table_good m \<Longrightarrow> table_good (on_conn h f m)"
  by (simp add: table_good_def peer_inv_on hooked_def)

lemma table_good_put: "conn_at m h = Some cn \<Longrightarrow> benign f \<Longrightarrow> table_good m \<Longrightarrow> table_good (put_conn h (f cn) m)"
  by (simp add: on_conn_put table_good_on)

lemma table_good_fold: "(\<And>h. benign (F h)) \<Longrightarrow> table_good m \<Longrightarrow> table_good (fold (\<lambda>h. on_conn h (F h)) hs m)"
  using fold_on_conn [of F m hs] by (simp add: table_good_def)

lemma table_good_broadcast [node_intros]: "table_good m \<Longrightarrow> table_good (Broadcast_peers order pick msg p m)"
  unfolding Broadcast_peers_def Let_def by (rule table_good_fold) (rule benign_ops)

lemma table_good_closeall [node_intros]: "table_good m \<Longrightarrow> table_good (CloseAll m)"
  unfolding CloseAll_def by (rule table_good_fold) (rule benign_ops)

lemma table_good_nick [node_intros]: "table_good m \<Longrightarrow> table_good (UpdateNick_peer p nick m)"
  unfolding UpdateNick_peer_def by (auto intro: table_good_on benign_ops split: option.split)

lemma table_good_sendto [node_intros]: "table_good m \<Longrightarrow> table_good (snd (SendTo order pick p msg m))"
  using table_good_put [OF _ benign_ops(4)]
  by (auto simp: SendTo_def case_prod_unfold split: sum.split option.split)

lemma table_good_disconnect [node_intros]: "table_good m \<Longrightarrow> table_good (snd (Disconnect order p m))"
  by (auto simp: Disconnect_def intro: table_good_on benign_ops split: sum.split)

lemma table_good_advertise [node_intros]: "table_good m \<Longrightarrow> table_good (SetAdvertiseAddrs l m)"
  by (simp add: table_good_def SetAdvertiseAddrs_def peer_inv_def hooked_def conn_at_def)

lemma shutdown_conns: "dom (gm_get (pm_conns (snd (shutdown h m)))) \<subseteq> dom (gm_get (pm_conns m))"
  by (auto simp: shutdown_def unregister_eq Let_def gm_laws split: option.splits if_splits)

lemma table_good_shutdown [node_intros]: "table_good m \<Longrightarrow> table_good (snd (shutdown h m))"
proof -
  assume g: "table_good m"
  obtain es m' where s: "shutdown h m = (es, m')" by (cases "shutdown h m") auto
  have "peer_inv m' \<and> hooked m'" using shutdown_step [OF _ _ s] g by (simp add: table_good_def)
  moreover have "gm_get (pm_conns m') [] = None"
    using shutdown_conns [of h m] g s by (auto simp: table_good_def domIff subset_iff)
  ultimately show ?thesis using s by (simp add: table_good_def)
qed

lemma fold_max_ge: "x \<in> set xs \<or> x \<le> a \<Longrightarrow> x \<le> fold max xs (a :: nat)"
proof (induction xs arbitrary: a)
  case (Cons y ys)
  have "x \<in> set ys \<or> x \<le> max y a" using Cons.prems by (metis max.cobounded1 max.coboundedI2 set_ConsD)
  then have "x \<le> fold max ys (max y a)" by (rule Cons.IH)
  then show ?case by simp
qed simp

lemma new_handle_fresh: "conn_at m (new_handle m) = None"
proof (rule ccontr)
  assume "conn_at m (new_handle m) \<noteq> None"
  then have "new_handle m \<in> set (gm_keys (pm_store m))" by (auto simp: conn_at_def)
  then have "new_handle m \<le> fold max (gm_keys (pm_store m)) 0" by (intro fold_max_ge) simp
  then show False by (simp add: new_handle_def)
qed

lemma adopt_conns:
  "adopt now h cn m = (r, es, m') \<Longrightarrow> dom (gm_get (pm_conns m')) \<subseteq> insert (pi_ID (cn_info cn)) (dom (gm_get (pm_conns m)))"
  by (auto simp: adopt_eq Let_def start_def gm_laws split: verdict.splits)

lemma table_good_handshake [node_intros]:
  assumes "table_good m"
  shows "table_good (snd (snd (HandshakeAndAdopt uc c hs ident nick inb (new_handle m) m)))"
proof -
  let ?h = "new_handle m" and ?m1 = "wrap (new_handle m) inb m"
  have m1: "table_good ?m1"
    using assms new_handle_fresh [of m] by (simp add: table_good_def wrap_def peer_inv_put_fresh hooked_def)
  have at1: "\<exists>c1. conn_at ?m1 ?h = Some c1 \<and> \<not> cn_notified c1" by (simp add: wrap_def conn_at_put)
  have failed: "table_good (on_conn ?h Close_conn ?m1)" using m1 by (intro table_good_on benign_ops)
  have adopted: "table_good (snd (snd (adopt now ?h (the (conn_at m2 ?h)) m2)))"
    if i: "length (pi_ID i) = 64" and m2: "m2 = on_conn ?h (\<lambda>cn. cn\<lparr>cn_info := i\<rparr>) ?m1" for i now m2
  proof -
    obtain c2 where c2: "conn_at m2 ?h = Some c2" "\<not> cn_notified c2" "cn_info c2 = i"
      using at1 m2 by (auto simp: conn_at_on)
    have "peer_inv m2"
    proof -
      have "gm_get (pm_conns m) p \<noteq> Some ?h" for p
        using assms new_handle_fresh [of m] unfolding table_good_def by (metis inv_connD option.distinct(1))
      then have "gm_get (pm_conns ?m1) p \<noteq> Some ?h" for p by (simp add: wrap_def)
      then show ?thesis
        using m1 unfolding m2 table_good_def peer_inv_def by (auto simp: conn_at_on)
    qed
    moreover have "hooked m2" using m1 m2 by (simp add: table_good_def hooked_def)
    moreover obtain r es m3 where ad: "adopt now ?h c2 m2 = (r, es, m3)" by (cases "adopt now ?h c2 m2") auto
    ultimately have "peer_inv m3 \<and> hooked m3" using adopt_step [OF _ c2(1,2)] by blast
    moreover have "gm_get (pm_conns m3) [] = None"
      using adopt_conns [OF ad] m1 i c2(3) m2 by (auto simp: table_good_def domIff subset_iff)
    ultimately show ?thesis using ad c2(1) by (simp add: table_good_def)
  qed
  have len: "length (pi_ID i) = 64" if hsk: "fst (handshake uc c hs ident nick inb ?m1) = Inr i" for i
  proof -
    obtain msg where msg: "mType msg = TypeHello \<or> mType msg = TypeWelcome" "identityFromHandshake uc c (he_now hs) msg = Inr i"
      using hsk by (auto simp: handshake_def split: if_splits option.splits sum.splits)
    then show ?thesis using identityFromHandshake_Inr [OF msg] by (auto simp: proved_def)
  qed
  show ?thesis
    unfolding HandshakeAndAdopt_def Let_def
    using assms failed len adopted by (auto split: sum.split option.split)
qed

section \<open>Channels\<close>

lemma chan_inv_new [node_intros]: "chan_inv (NewManager self lim)"
  by (simp add: chan_inv_def NewManager_def gm_laws)

lemma chan_inv_put:
  assumes "chan_inv m" "gm_wf (ch_Members ch)" "length (ch_History ch) \<le> cm_histLim m"
  shows "chan_inv (m\<lparr>cm_joined := gm_put name ch (cm_joined m)\<rparr>)"
  using assms by (auto simp: chan_inv_def gm_laws split: if_splits)

lemma chan_inv_frame [simp]:
  "chan_inv (m\<lparr>cm_known := k\<rparr>) = chan_inv m" "chan_inv (m\<lparr>cm_current := cu\<rparr>) = chan_inv m"
  by (simp_all add: chan_inv_def)

lemma chan_invD: "chan_inv m \<Longrightarrow> gm_get (cm_joined m) name = Some ch \<Longrightarrow> gm_wf (ch_Members ch) \<and> length (ch_History ch) \<le> cm_histLim m"
  by (simp add: chan_inv_def)

lemma chan_inv_note [node_intros]: "chan_inv m \<Longrightarrow> chan_inv (Note name m)"
  by (simp add: Note_def)

lemma chan_inv_join [node_intros]:
  assumes "chan_inv m"
  shows "chan_inv (snd (Join_chan name nick m))"
proof -
  define ch where "ch = (case gm_get (cm_joined m) name of
    None \<Rightarrow> \<lparr>ch_Name = name, ch_History = [], ch_Members = gm_empty\<rparr> | Some c \<Rightarrow> c)"
  have "gm_wf (ch_Members ch)" "length (ch_History ch) \<le> cm_histLim m"
    using chan_invD [OF assms, of name] by (auto simp: ch_def gm_laws split: option.split)
  then have "chan_inv (m\<lparr>cm_joined := gm_put name (ch\<lparr>ch_Members := gm_put (cm_localID m) nick (ch_Members ch)\<rparr>) (cm_joined m)\<rparr>)"
    using assms by (intro chan_inv_put) (simp_all add: gm_laws)
  then show ?thesis
    by (simp add: Join_chan_def Let_def chan_inv_def flip: ch_def)
qed

lemma chan_inv_leave [node_intros]: "chan_inv m \<Longrightarrow> chan_inv (snd (Leave_chan order name m))"
  by (auto simp: Leave_chan_def chan_inv_def gm_laws split: if_splits)

lemma chan_inv_history [node_intros]: "chan_inv m \<Longrightarrow> chan_inv (AddHistory (Some msg) m)"
proof -
  assume inv: "chan_inv m"
  let ?m1 = "m\<lparr>cm_known := gm_put (mChannel msg) () (cm_known m)\<rparr>"
  show ?thesis
  proof (cases "mChannel msg = [] \<or> gm_get (cm_joined m) (mChannel msg) = None")
    case False
    then obtain ch where ch: "gm_get (cm_joined m) (mChannel msg) = Some ch" by auto
    have "chan_inv (?m1\<lparr>cm_joined := gm_put (mChannel msg)
        (ch\<lparr>ch_History := keep_last (cm_histLim m) (ch_History ch @ [msg])\<rparr>) (cm_joined ?m1)\<rparr>)"
      using inv chan_invD [OF inv ch] keep_last_length [of "cm_histLim m"] by (intro chan_inv_put) simp_all
    then show ?thesis using False ch by simp
  qed (use inv in auto)
qed

lemma chan_inv_member_join [node_intros]: "chan_inv m \<Longrightarrow> chan_inv (MemberJoin name p nick m)"
  using chan_invD [of m name] chan_inv_put [of "m\<lparr>cm_known := gm_put name () (cm_known m)\<rparr>"]
  by (auto simp: MemberJoin_def Let_def gm_laws split: option.split)

lemma chan_inv_member_leave [node_intros]: "chan_inv m \<Longrightarrow> chan_inv (MemberLeave name p m)"
  using chan_invD [of m name] chan_inv_put [of m] by (auto simp: MemberLeave_def gm_laws split: option.split)

lemma chan_inv_map:
  assumes "chan_inv m" "\<And>ch. gm_wf (ch_Members ch) \<Longrightarrow> gm_wf (ch_Members (f ch))" "\<And>ch. ch_History (f ch) = ch_History ch"
  shows "chan_inv (m\<lparr>cm_joined := gm_map f (cm_joined m)\<rparr>)"
  using assms by (auto simp: chan_inv_def go_simps)

lemma chan_inv_leave_all [node_intros]: "chan_inv m \<Longrightarrow> chan_inv (MemberLeaveAll p m)"
  unfolding MemberLeaveAll_def by (rule chan_inv_map) (auto simp: gm_laws)

lemma chan_inv_nick [node_intros]: "chan_inv m \<Longrightarrow> chan_inv (UpdateNick_chan p nick m)"
  unfolding UpdateNick_chan_def by (rule chan_inv_map) (auto simp: gm_laws)

section \<open>Updates of one field\<close>

lemma node_inv_peers: "node_inv uc c n \<Longrightarrow> table_good m \<Longrightarrow> node_inv uc c (n\<lparr>nd_peers := m\<rparr>)"
  by (simp add: node_inv_def)

lemma node_inv_chans: "node_inv uc c n \<Longrightarrow> chan_inv m \<Longrightarrow> node_inv uc c (n\<lparr>nd_chans := m\<rparr>)"
  by (simp add: node_inv_def)

lemma node_inv_router: "node_inv uc c n \<Longrightarrow> seen_inv (rt_seen r) \<Longrightarrow> node_inv uc c (n\<lparr>nd_router := r\<rparr>)"
  by (simp add: node_inv_def)

lemma node_inv_dir: "node_inv uc c n \<Longrightarrow> pred_option (dir_inv uc) d \<Longrightarrow> node_inv uc c (n\<lparr>nd_dir := d\<rparr>)"
  by (simp add: node_inv_def)

lemma node_inv_disc: "node_inv uc c n \<Longrightarrow> pred_option (disc_inv uc c) d \<Longrightarrow> node_inv uc c (n\<lparr>nd_disc := d\<rparr>)"
  by (simp add: node_inv_def)

lemma node_inv_limit: "node_inv uc c n \<Longrightarrow> pred_option window_inv w \<Longrightarrow> node_inv uc c (n\<lparr>nd_limit := w\<rparr>)"
  by (simp add: node_inv_def)

lemma node_inv_ident: "node_inv uc c n \<Longrightarrow> id_ok c i \<Longrightarrow> node_inv uc c (n\<lparr>nd_ident := i\<rparr>)"
  by (simp add: node_inv_def)

lemma node_inv_events: "node_inv uc c n \<Longrightarrow> queues_ok qs \<Longrightarrow> node_inv uc c (n\<lparr>nd_events := qs\<rparr>)"
  by (simp add: node_inv_def)

lemma node_inv_free [simp]:
  "node_inv uc c (n\<lparr>nd_backoff := b\<rparr>) = node_inv uc c n" "node_inv uc c (n\<lparr>nd_stunUDP := s\<rparr>) = node_inv uc c n"
  "node_inv uc c (n\<lparr>nd_stunDone := d\<rparr>) = node_inv uc c n" "node_inv uc c (n\<lparr>nd_upnpExt := s\<rparr>) = node_inv uc c n"
  "node_inv uc c (n\<lparr>nd_upnpMap := mp\<rparr>) = node_inv uc c n" "node_inv uc c (n\<lparr>nd_addrs := l\<rparr>) = node_inv uc c n"
  "node_inv uc c (n\<lparr>nd_closed := d\<rparr>) = node_inv uc c n"
  by (simp_all add: node_inv_def)

lemma node_invD:
  assumes "node_inv uc c n"
  shows "table_good (nd_peers n)" "seen_inv (rt_seen (nd_router n))" "chan_inv (nd_chans n)"
    "pred_option window_inv (nd_limit n)" "pred_option (dir_inv uc) (nd_dir n)" "pred_option (disc_inv uc c) (nd_disc n)"
    "id_ok c (nd_ident n)" "queues_ok (nd_events n)"
  using assms by (simp_all add: node_inv_def)

lemmas node_inv_fields = node_inv_peers node_inv_chans node_inv_router node_inv_dir node_inv_disc node_inv_limit
  node_inv_ident node_inv_events

section \<open>Events and names\<close>

lemma queues_offer: "queues_ok qs \<Longrightarrow> queues_ok (map (offer ev) qs)"
  by (auto simp: queues_ok_def offer_def eventCap_def)

lemma emit_inv [node_intros]: "node_inv uc c n \<Longrightarrow> node_inv uc c (emit ev n)"
  by (simp add: emit_eq node_inv_events queues_offer node_invD)

lemma System_inv [node_intros]: "node_inv uc c n \<Longrightarrow> node_inv uc c (System s n)"
  by (simp add: System_def emit_inv)

lemma Observe_inv [node_intros]: "pred_option (dir_inv uc) d \<Longrightarrow> pred_option (dir_inv uc) (Observe now p pub nick addr extra d)"
proof (cases d)
  case (Some x)
  assume "pred_option (dir_inv uc) d"
  then have inv: "dir_inv uc (dir_step uc (DObserve now p pub nick addr extra) x)"
    using Some by (intro dir_step_inv) simp_all
  obtain y where "Observe now p pub nick addr extra (Some x) = Some y"
    by (cases "p = []") auto
  then show ?thesis using inv Some by simp
qed simp

lemma observePeer_inv [node_intros]: "node_inv uc c n \<Longrightarrow> node_inv uc c (observePeer env i n)"
  by (simp add: observePeer_def Let_def node_inv_dir Observe_inv node_invD)

lemma applyNick_inv [node_intros]: "node_inv uc c n \<Longrightarrow> node_inv uc c (applyNick env p nick n)"
proof -
  assume inv: "node_inv uc c n"
  note d = node_invD [OF inv]
  have "node_inv uc c (n\<lparr>nd_chans := UpdateNick_chan p nick (nd_chans n)\<rparr>)" using inv d by (intro node_inv_chans node_intros)
  then have "node_inv uc c (n\<lparr>nd_chans := UpdateNick_chan p nick (nd_chans n), nd_peers := UpdateNick_peer p nick (nd_peers n)\<rparr>)"
    using d by (intro node_inv_peers node_intros)
  then have "node_inv uc c (n\<lparr>nd_chans := UpdateNick_chan p nick (nd_chans n), nd_peers := UpdateNick_peer p nick (nd_peers n),
      nd_dir := Observe (e_stamp env 0) p [] nick [] [] (nd_dir n)\<rparr>)"
    using d by (intro node_inv_dir node_intros)
  then show ?thesis using inv by (simp add: applyNick_def)
qed

section \<open>Environments\<close>

lemma env_ok_later [node_intros]: "env_ok env \<Longrightarrow> env_ok (later k env)"
  by (simp add: env_ok_def later_def)

lemma ranged_order: "env_ok env \<Longrightarrow> gm_wf m \<Longrightarrow> range_order m (ranged env k m)"
  by (simp add: env_ok_def range_order_def ranged_def gm_wf_def gm_keys_def)

section \<open>Messages\<close>

lemma Handle_seen_inv: "seen_inv (rt_seen r) \<Longrightarrow> seen_inv (rt_seen (snd (snd (Handle uc t1 t2 (Some m) p r))))"
  using call_fold_inv [of r uc "[CHandle t1 t2 m p]"] by simp

lemma onRouted_chat_inv [node_intros]: "node_inv uc c n \<Longrightarrow> node_inv uc c (onRouted_chat env msg n)"
proof -
  assume "node_inv uc c n"
  then have inv: "node_inv uc c (applyNick env (mSender msg) (mNickname msg) n)" (is "node_inv uc c ?n") by (rule applyNick_inv)
  have h: "node_inv uc c (?n\<lparr>nd_chans := AddHistory (Some msg) (nd_chans ?n)\<rparr>)" (is "node_inv uc c ?n1")
    by (rule node_inv_chans [OF inv chan_inv_history [OF node_invD(3) [OF inv]]])
  have "node_inv uc c (?n1\<lparr>nd_chans := Note (mChannel msg) (nd_chans ?n1)\<rparr>)"
    by (rule node_inv_chans [OF h chan_inv_note [OF node_invD(3) [OF h]]])
  then show ?thesis using inv h unfolding onRouted_chat_def Let_def by (simp add: emit_inv del: AddHistory.simps)
qed

lemma onRouted_join_inv [node_intros]: "node_inv uc c n \<Longrightarrow> node_inv uc c (onRouted_join uc env msg n)"
proof (cases "NormalizeChannel uc (mChannel msg)")
  case (Inr ch)
  assume inv: "node_inv uc c n"
  let ?n1 = "n\<lparr>nd_chans := Note ch (nd_chans n)\<rparr>"
  let ?n2 = "?n1\<lparr>nd_chans := MemberJoin ch (mSender msg) (mNickname msg) (nd_chans ?n1)\<rparr>"
  have n1: "node_inv uc c ?n1" using inv by (intro node_inv_chans chan_inv_note node_invD)
  have "node_inv uc c ?n2"
    by (rule node_inv_chans [OF n1 chan_inv_member_join [OF node_invD(3) [OF n1]]])
  then have "node_inv uc c (applyNick env (mSender msg) (mNickname msg) ?n2)" by (rule applyNick_inv)
  then show ?thesis
    unfolding onRouted_join_def Inr sum.case Let_def by (auto intro!: emit_inv split: option.split)
qed (simp add: onRouted_join_def)

lemma onRouted_leave_inv [node_intros]: "node_inv uc c n \<Longrightarrow> node_inv uc c (onRouted_leave uc msg n)"
  unfolding onRouted_leave_def Let_def
  by (auto intro!: emit_inv node_inv_chans chan_inv_member_leave node_invD split: sum.split)

lemma onRouted_inv [node_intros]: "node_inv uc c n \<Longrightarrow> node_inv uc c (onRouted uc env msg p n)"
  by (simp add: onRouted_def onRouted_chat_inv onRouted_join_inv onRouted_leave_inv)

lemma run_effect_inv [node_intros]: "node_inv uc c n \<Longrightarrow> node_inv uc c (run_effect uc env e n)"
  by (cases e) (auto intro: onRouted_inv node_inv_peers table_good_broadcast node_invD)

lemma fold_inv: "(\<And>x n. node_inv uc c n \<Longrightarrow> node_inv uc c (f x n)) \<Longrightarrow> node_inv uc c n \<Longrightarrow> node_inv uc c (fold f xs n)"
  by (induction xs arbitrary: n) auto

lemma route_inv [node_intros]: "node_inv uc c n \<Longrightarrow> node_inv uc c (route uc env msg p n)"
  unfolding route_def case_prod_unfold
  by (auto intro!: fold_inv run_effect_inv node_inv_router Handle_seen_inv node_invD simp del: Handle.simps)

lemma inject_inv [node_intros]: "node_inv uc c n \<Longrightarrow> node_inv uc c (inject uc env msg n)"
  unfolding inject_def Inject_def case_prod_unfold
  by (auto intro!: fold_inv run_effect_inv node_inv_router Handle_seen_inv node_invD simp del: Handle.simps)

lemma answer_ping_inv [node_intros]:
  assumes "node_inv uc c n"
  shows "node_inv uc c (answer_ping cr env h n)"
proof (cases "conn_at (nd_peers n) h")
  case (Some cn)
  define f where "f = (\<lambda>cn. case AllowPong second (e_clock env 0) cn of (ok, cn1) \<Rightarrow>
    if ok then snd (Send (e_pick env 0 h) (NewPong (c_sha256 cr) (e_clock env 1) (e_nonce env 0) (idPeerID (nd_ident n))) cn1)
    else cn1)"
  have "benign f" by (simp add: benign_def f_def AllowPong_def Send_def Let_def)
  then have "table_good (put_conn h (f cn) (nd_peers n))" using Some assms by (intro table_good_put node_invD)
  then show ?thesis
    using Some assms by (auto simp: answer_ping_def f_def case_prod_unfold Let_def intro: node_inv_peers split: if_splits)
qed (simp add: answer_ping_def assms)

lemma Allow_limit_inv:
  assumes "pred_option window_inv w" "env_ok env"
  shows "pred_option window_inv (snd (Allow (case w of None \<Rightarrow> [] | Some x \<Rightarrow> ranged env k (w_hits x)) now key w))"
proof (cases w)
  case (Some x)
  then have "window_inv x" "range_order (w_hits x) (ranged env k (w_hits x))"
    using assms by (auto intro: ranged_order simp: window_inv_def)
  from Allow_inv [OF this, of now key] show ?thesis using Some by (auto simp del: Allow.simps)
qed simp

lemma onPeerMessage_inv [node_intros]:
  assumes "node_inv uc c n" "env_ok env"
  shows "node_inv uc c (onPeerMessage uc c env h msg n)"
proof -
  have "node_inv uc c (n\<lparr>nd_limit := snd (Allow (case nd_limit n of None \<Rightarrow> [] | Some x \<Rightarrow> ranged env 0 (w_hits x))
      (e_clock env 1) (sender_of msg) (nd_limit n))\<rparr>)"
    using assms by (intro node_inv_limit Allow_limit_inv node_invD)
  then show ?thesis
    using assms(1) unfolding onPeerMessage_def case_prod_unfold Let_def
    by (auto intro!: route_inv answer_ping_inv simp del: Allow.simps split: option.split)
qed

section \<open>Hooks\<close>

lemma see_inv [node_intros]: "node_inv uc c n \<Longrightarrow> node_inv uc c (see env i n)"
  by (simp add: see_def node_inv_router Add_inv node_invD)

lemma resync_one_inv [node_intros]: "node_inv uc c n \<Longrightarrow> node_inv uc c (resync_one cr env p ch n)"
  unfolding resync_one_def Let_def
  by (auto intro!: see_inv node_inv_peers table_good_sendto node_invD split: sum.split)

lemma resyncJoins_inv [node_intros]: "node_inv uc c n \<Longrightarrow> node_inv uc c (resyncJoins cr env p n)"
proof -
  have "node_inv uc c n \<Longrightarrow> node_inv uc c (resync_loop cr env p chs n)" for chs
    by (induction chs arbitrary: env n) (auto intro: resync_one_inv)
  then show "node_inv uc c n \<Longrightarrow> node_inv uc c (resyncJoins cr env p n)" by (simp add: resyncJoins_def)
qed

lemma on_event_inv [node_intros]: "node_inv uc c n \<Longrightarrow> node_inv uc c (on_event cr env ev n)"
  by (cases ev)
    (auto simp: onPeerUp_def onPeerReplace_def onPeerDown_def Let_def
      intro!: resyncJoins_inv emit_inv System_inv observePeer_inv node_inv_chans chan_inv_leave_all node_invD)

lemma with_hooks_inv [node_intros]:
  "node_inv uc c n \<Longrightarrow> table_good (snd res) \<Longrightarrow> node_inv uc c (with_hooks cr env res n)"
  unfolding with_hooks_def case_prod_unfold by (intro fold_inv on_event_inv node_inv_peers)

lemma conn_read_inv [node_intros]:
  assumes "node_inv uc c n" "env_ok env"
  shows "node_inv uc c (conn_read uc c env h now r n)"
proof (cases "conn_at (nd_peers n) h")
  case (Some cn)
  have "table_good (put_conn h (snd (snd (read_step now r cn))) (nd_peers n))"
    using table_good_put [OF Some benign_read_step] assms by (simp add: node_invD)
  then have "node_inv uc c (n\<lparr>nd_peers := put_conn h (snd (snd (read_step now r cn))) (nd_peers n)\<rparr>)" (is "node_inv uc c ?n1")
    using assms(1) by (intro node_inv_peers)
  then show ?thesis
    using Some assms(2) unfolding conn_read_def case_prod_unfold Let_def
    by (auto intro!: onPeerMessage_inv with_hooks_inv table_good_shutdown dest: node_invD(1) split: option.split)
qed (simp add: conn_read_def assms)

section \<open>Connections\<close>

lemma on_event_frame:
  "nd_cfg (on_event cr env ev n) = nd_cfg n \<and> nd_handshakes (on_event cr env ev n) = nd_handshakes n"
proof -
  have sys: "nd_cfg (emit x n) = nd_cfg n \<and> nd_handshakes (emit x n) = nd_handshakes n" for x n by (simp add: emit_eq)
  have one: "nd_cfg (resync_one cr e p ch n) = nd_cfg n \<and> nd_handshakes (resync_one cr e p ch n) = nd_handshakes n" for e p ch n
    by (simp add: resync_one_def see_def Let_def split: sum.split)
  have loop: "nd_cfg (resync_loop cr e p chs n) = nd_cfg n \<and> nd_handshakes (resync_loop cr e p chs n) = nd_handshakes n" for e p chs n
    by (induction chs arbitrary: e n) (simp_all add: one)
  show ?thesis
    by (cases ev) (simp_all add: onPeerUp_def onPeerReplace_def onPeerDown_def resyncJoins_def loop System_def sys observePeer_def Let_def)
qed

lemma with_hooks_frame:
  "nd_cfg (with_hooks cr env res n) = nd_cfg n \<and> nd_handshakes (with_hooks cr env res n) = nd_handshakes n"
proof -
  have "nd_cfg (fold (on_event cr env) evs n) = nd_cfg n \<and> nd_handshakes (fold (on_event cr env) evs n) = nd_handshakes n" for evs n
    by (induction evs arbitrary: n) (simp_all add: on_event_frame)
  then show ?thesis by (simp add: with_hooks_def case_prod_unfold)
qed

lemma handleInbound_inv [node_intros]: "node_inv uc c n \<Longrightarrow> node_inv uc c (handleInbound uc c env hs n)"
  by (simp add: handleInbound_def with_hooks_inv table_good_handshake node_invD)

lemma adoptInbound_inv [node_intros]:
  assumes "node_inv uc c n"
  shows "node_inv uc c (adoptInbound uc c env hs n)"
proof (cases "acquire_handshake n")
  case (Some n1)
  then have "node_inv uc c n1" using assms by (auto simp: acquire_handshake_def node_inv_def split: if_splits)
  then have "node_inv uc c (handleInbound uc c env hs n1)" by (rule handleInbound_inv)
  then have "node_inv uc c (release_handshake (handleInbound uc c env hs n1))"
    by (auto simp: release_handshake_def node_inv_def)
  then show ?thesis using Some by (simp add: adoptInbound_def)
qed (simp add: adoptInbound_def assms)

section \<open>User operations\<close>

lemma Disconnect_node_inv [node_intros]: "node_inv uc c n \<Longrightarrow> node_inv uc c (snd (Disconnect_node uc env key n))"
  by (simp add: Disconnect_node_def case_prod_unfold Let_def node_inv_peers table_good_disconnect node_invD)

lemma Join_node_inv [node_intros]:
  assumes "node_inv uc c n"
  shows "node_inv uc c (snd (Join_node uc c env name n))"
proof (cases "NormalizeChannel uc name")
  case (Inr ch)
  have "node_inv uc c (System (''joined '' @ ch) (n\<lparr>nd_chans := snd (Join_chan ch (Nick n) (nd_chans n))\<rparr>))"
    using assms by (intro System_inv node_inv_chans chan_inv_join node_invD)
  then show ?thesis
    unfolding Join_node_def Inr sum.case Let_def case_prod_unfold by (auto intro: inject_inv split: sum.split)
qed (simp add: Join_node_def assms)

lemma Leave_node_inv [node_intros]:
  assumes "node_inv uc c n"
  shows "node_inv uc c (snd (Leave_node uc c env name n))"
proof (cases "NormalizeChannel uc (if name = [] then Current (nd_chans n) else name)")
  case (Inr ch)
  let ?leave = "Leave_chan (ranged env 1 (gm_del ch (cm_joined (nd_chans n)))) ch (nd_chans n)"
  have left: "node_inv uc c (n\<lparr>nd_chans := snd ?leave\<rparr>)"
    by (rule node_inv_chans [OF assms chan_inv_leave [OF node_invD(3) [OF assms]]])
  show ?thesis
  proof (cases ?leave)
    case (Pair err cm)
    then show ?thesis
      using left assms unfolding Leave_node_def Let_def Inr sum.case Pair
      by (auto intro: System_inv inject_inv split: option.split sum.split)
  qed
qed (simp add: Leave_node_def assms)

lemma SendChat_inv [node_intros]: "node_inv uc c n \<Longrightarrow> node_inv uc c (snd (SendChat uc c env t action n))"
  by (auto simp: SendChat_def Let_def intro: inject_inv split: sum.split)

lemma SendDirect_inv [node_intros]:
  assumes "node_inv uc c n"
  shows "node_inv uc c (snd (SendDirect uc c env to t n))"
proof -
  have "node_inv uc c ((see env i n)\<lparr>nd_peers := put_conn h (snd (Send pick msg cn)) (nd_peers (see env i n))\<rparr>)"
    if "conn_at (nd_peers n) h = Some cn" for i h pick msg cn
  proof -
    have "nd_peers (see env i n) = nd_peers n" by (simp add: see_def)
    then show ?thesis
      using table_good_put [OF that benign_ops(4)] assms by (simp add: node_inv_peers see_inv node_invD)
  qed
  then show ?thesis
    using assms unfolding SendDirect_def Let_def
    by (auto intro!: emit_inv split: sum.split option.split prod.split) (metis snd_conv)+
qed

lemma save_ident_inv [node_intros]: "node_inv uc c n \<Longrightarrow> node_inv uc c (save_ident env n)"
proof -
  assume inv: "node_inv uc c n"
  have "id_ok c i \<Longrightarrow> id_ok c (fst (snd (Save_id e t i)))" for e t i
    by (auto simp: Save_id_def toRecord_def Let_def id_ok_def split: option.split)
  then show ?thesis using inv by (simp add: save_ident_def node_inv_ident node_invD)
qed

lemma save_dir_inv [node_intros]: "node_inv uc c n \<Longrightarrow> node_inv uc c (save_dir env n)"
proof -
  assume inv: "node_inv uc c n"
  have "pred_option (dir_inv uc) d \<Longrightarrow> pred_option (dir_inv uc) (fst (snd (Save_dir ma mk wr rn d)))" for ma mk wr rn d
    by (cases d) (auto simp: Let_def markDirty_def dir_inv_dirty split: option.split)
  then show ?thesis using inv by (simp add: save_dir_def node_inv_dir node_invD)
qed

lemma announce_nick_inv [node_intros]: "node_inv uc c n \<Longrightarrow> node_inv uc c (announce_nick uc c env chs n)"
  by (induction chs arbitrary: env n) (auto intro: inject_inv split: sum.split)

lemma SetNick_inv [node_intros]:
  assumes "node_inv uc c n"
  shows "node_inv uc c (snd (SetNick uc c env nick0 n))"
proof -
  let ?nick = "TrimSpace nick0"
  let ?n1 = "n\<lparr>nd_ident := (nd_ident n)\<lparr>idNickname := ?nick\<rparr>\<rparr>"
  let ?chans = "UpdateNick_chan (idPeerID (nd_ident ?n1)) ?nick (nd_chans ?n1)"
  have n1: "node_inv uc c ?n1" using assms by (simp add: node_inv_def id_ok_def)
  have "node_inv uc c (?n1\<lparr>nd_chans := ?chans\<rparr>)"
    by (rule node_inv_chans [OF n1 chan_inv_nick [OF node_invD(3) [OF n1]]])
  moreover have "pred_option (disc_inv uc c) (map_option (SetNickname ?nick) (nd_disc n))"
    using node_invD(6) [OF assms] by (cases "nd_disc n") (simp_all add: disc_inv_def SetNickname_def)
  ultimately have "node_inv uc c (?n1\<lparr>nd_chans := ?chans, nd_disc := map_option (SetNickname ?nick) (nd_disc ?n1)\<rparr>)"
    by (intro node_inv_disc) simp_all
  then have "node_inv uc c (System (''nickname is now '' @ ?nick)
      (save_ident env (?n1\<lparr>nd_chans := ?chans, nd_disc := map_option (SetNickname ?nick) (nd_disc ?n1)\<rparr>)))"
    by (intro System_inv save_ident_inv)
  then show ?thesis using assms unfolding SetNick_def Let_def by (simp add: announce_nick_inv)
qed

lemma nearby_inv [node_intros]: "node_inv uc c n \<Longrightarrow> node_inv uc c (snd (nearbySnapshot env n))"
proof (cases "nd_disc n")
  case (Some d)
  assume inv: "node_inv uc c n"
  then have "disc_inv uc c d" using Some by (simp add: node_inv_def)
  then have "disc_inv uc c (snd (Nearby order t d))" for order t
    by (auto simp: disc_inv_def Nearby_def Let_def intro: table_ok_expired order_trans [OF gm_len_expired])
  then show ?thesis using inv Some by (simp add: nearbySnapshot_def case_prod_unfold node_inv_disc)
qed (simp add: nearbySnapshot_def)

section \<open>Dialling\<close>

lemma dialing_inv [node_intros]:
  "node_inv uc c n \<Longrightarrow> node_inv uc c (snd (beginDial a n))" "node_inv uc c n \<Longrightarrow> node_inv uc c (endDial a n)"
  by (auto simp: node_inv_def beginDial_def endDial_def gm_laws)

lemma dial_body_inv [node_intros]:
  assumes "node_inv uc c n"
  shows "node_inv uc c (snd (dial_body uc c de a n))"
proof -
  let ?res = "HandshakeAndAdopt uc c (dl_hs de) (nd_ident n) (Nick n) False (new_handle (nd_peers n)) (nd_peers n)"
  have "node_inv uc c (with_hooks c (later 4 (dl_env de)) (snd ?res) n)"
    using assms by (intro with_hooks_inv table_good_handshake node_invD)
  then show ?thesis
    using assms unfolding dial_body_def
    by (cases ?res) (auto simp: Let_def intro: observePeer_inv split: tcp_dial.split sum.split option.split)
qed

lemma dialOne_inv [node_intros]: "node_inv uc c n \<Longrightarrow> node_inv uc c (snd (dialOne uc c de a n))"
proof -
  assume inv: "node_inv uc c n"
  obtain ok n1 where b: "beginDial a n = (ok, n1)" by (cases "beginDial a n") auto
  then have "node_inv uc c n1" using dialing_inv(1) [OF inv, of a] by simp
  then show ?thesis
    using b by (cases ok) (simp_all add: dialOne_def case_prod_unfold dial_body_inv dialing_inv(2))
qed

lemma dial_all_inv: "node_inv uc c n \<Longrightarrow> node_inv uc c (snd (dial_all uc c plan as n))"
proof (induction as arbitrary: n)
  case (Cons a as)
  then have "node_inv uc c (snd (if dl_place (plan a) then dialOne uc c (plan a) a n else (Some Canceled, n)))"
    by (simp add: dialOne_inv)
  then show ?case using Cons.IH by (simp add: case_prod_unfold)
qed simp

lemma resolve_inv: "node_inv uc c n \<Longrightarrow> node_inv uc c (snd (resolveConnectTargets uc is_ip env t n))"
  unfolding resolveConnectTargets_def Let_def
  by (auto simp: case_prod_unfold intro: nearby_inv split: sum.split list.split option.split)

lemma Connect_inv [node_intros]: "node_inv uc c n \<Longrightarrow> node_inv uc c (snd (Connect uc c is_ip env plan t n))"
proof -
  assume "node_inv uc c n"
  then have inv: "node_inv uc c (snd (resolveConnectTargets uc is_ip env t n))" by (rule resolve_inv)
  then show ?thesis
    by (cases "resolveConnectTargets uc is_ip env t n")
      (auto simp: Connect_def dialFirst_def case_prod_unfold dialOne_inv dial_all_inv split: sum.split)
qed

lemma autoDial_inv [node_intros]: "node_inv uc c n \<Longrightarrow> node_inv uc c (autoDial uc c is_ip env plan p a n)"
  using Connect_inv [of uc c n is_ip "later 1 env" plan a]
  by (cases "Connect uc c is_ip (later 1 env) plan a n") (auto simp: autoDial_def split: option.split)

lemma tryAutoConnect_inv [node_intros]: "node_inv uc c n \<Longrightarrow> node_inv uc c (tryAutoConnect uc c is_ip env plan a n)"
  by (simp add: tryAutoConnect_def autoDial_inv)

lemma reconnect_one_inv: "node_inv uc c n \<Longrightarrow> node_inv uc c (reconnect_one uc c is_ip env plan rec n)"
  using Connect_inv [of uc c n is_ip "later 2 env" plan "dr_PeerID rec"]
  by (cases "Connect uc c is_ip (later 2 env) plan (dr_PeerID rec) n") (auto simp: reconnect_one_def split: option.split)

lemma reconnectOnce_inv [node_intros]: "node_inv uc c n \<Longrightarrow> node_inv uc c (reconnectOnce uc c is_ip env plans busy n)"
proof -
  have "node_inv uc c n \<Longrightarrow> node_inv uc c (reconnect_loop uc c is_ip env plans recs n)" for recs
    by (induction recs arbitrary: env plans n) (simp_all add: reconnect_one_inv)
  then show "node_inv uc c n \<Longrightarrow> node_inv uc c (reconnectOnce uc c is_ip env plans busy n)" by (simp add: reconnectOnce_def)
qed

lemma nearby_loop_inv:
  "node_inv uc c n \<Longrightarrow> node_inv uc c (snd (nearby_loop uc c is_ip env plans as cnt e n))"
proof (induction as arbitrary: env plans cnt e n)
  case (Cons a as)
  then show ?case
    using Connect_inv [OF Cons.prems, of is_ip env "plans 0" "an_Addr a"]
    by (cases "Connect uc c is_ip env (plans 0) (an_Addr a) n") (auto split: option.split)
qed simp

lemma connectNearbyVerified_inv [node_intros]:
  "node_inv uc c n \<Longrightarrow> node_inv uc c (snd (connectNearbyVerified uc c is_ip env plans n))"
proof -
  assume "node_inv uc c n"
  then have "node_inv uc c (snd (Nearby_node env n))" by (simp add: Nearby_node_def nearby_inv)
  then have "node_inv uc c (snd (nearby_loop uc c is_ip (later 1 env) plans l 0 None (snd (Nearby_node env n))))" for l
    by (rule nearby_loop_inv)
  then show ?thesis
    by (simp add: connectNearbyVerified_def case_prod_unfold split: option.split)
qed

section \<open>Aliases\<close>

lemma Find_registered:
  assumes "Find order key m = Inr h"
  shows "\<exists>p. gm_get (pm_conns m) p = Some h"
proof -
  have "find_loop key conns ps found = Inr h \<Longrightarrow> found = Some h \<or> (\<exists>p. gm_get conns p = Some h)" for conns ps found
    by (induction ps arbitrary: found) (auto split: option.splits if_splits)
  from this [of "pm_conns m" order None] show ?thesis
    using assms by (auto simp: Find_def split: option.splits)
qed

lemma Lookup_dir_id: "Lookup_dir uc o1 o2 key (Some d) = Inr rec \<Longrightarrow> dir_inv uc d \<Longrightarrow> dr_PeerID rec \<noteq> []"
  by (auto simp: dir_inv_def split: sum.splits option.splits)

lemma SetAlias_inv:
  assumes "pred_option (dir_inv uc) d" "p \<noteq> []" "\<And>x. d = Some x \<Longrightarrow> range_order (dd_byID x) order"
  shows "pred_option (dir_inv uc) (snd (SetAlias uc order p name d))"
proof (cases d)
  case (Some x)
  then have "dir_inv uc (dir_step uc (DSetAlias order p name) x)" using assms by (intro dir_step_inv) simp_all
  moreover have "snd (SetAlias uc order p name (Some x)) \<noteq> None" by (simp add: Let_def)
  ultimately show ?thesis using Some by (auto simp del: SetAlias.simps)
qed simp

lemma ClearAlias_inv: "pred_option (dir_inv uc) d \<Longrightarrow> pred_option (dir_inv uc) (snd (ClearAlias uc o1 o2 key d))"
proof (cases d)
  case (Some x)
  assume "pred_option (dir_inv uc) d"
  then have "dir_inv uc (dir_step uc (DClearAlias o1 o2 key) x)" using Some by (intro dir_step_inv) simp_all
  moreover have "snd (ClearAlias uc o1 o2 key (Some x)) \<noteq> None" by (simp split: sum.split option.split)
  ultimately show ?thesis using Some by (auto simp del: ClearAlias.simps)
qed simp

lemma dir_order_ok:
  "node_inv uc c n \<Longrightarrow> env_ok env \<Longrightarrow> nd_dir n = Some d \<Longrightarrow> range_order (dd_byID d) (dir_order env k n)"
  by (auto simp: dir_order_def node_inv_def dir_inv_def intro: ranged_order)

lemma setAlias_inv [node_intros]:
  assumes "node_inv uc c n" "env_ok env"
  shows "node_inv uc c (snd (setAlias uc env key name n))"
proof -
  have set: "node_inv uc c (n1\<lparr>nd_dir := snd (SetAlias uc (dir_order env 3 n1) p name (nd_dir n1))\<rparr>)"
    if "node_inv uc c n1" "p \<noteq> []" for n1 p
    using that assms(2) by (intro node_inv_dir SetAlias_inv) (auto intro: node_invD dir_order_ok)
  have conn: "pi_ID (cn_info cn) \<noteq> []" if h: "Find order key (nd_peers n) = Inr h" "conn_at (nd_peers n) h = Some cn" for order h cn
  proof -
    obtain p where p: "gm_get (pm_conns (nd_peers n)) p = Some h" using Find_registered [OF h(1)] by blast
    have "table_good (nd_peers n)" using assms(1) by (rule node_invD)
    then have "p \<noteq> []" "peer_inv (nd_peers n)" using p by (auto simp: table_good_def)
    then show ?thesis using inv_connD [OF _ p] h(2) by (metis option.inject)
  qed
  have fin: "node_inv uc c (snd (case SetAlias uc (dir_order env 3 n1) p name (nd_dir n1) of
      (Some e, d) \<Rightarrow> (Some (NDir e), n1\<lparr>nd_dir := d\<rparr>)
    | (None, d) \<Rightarrow> (None, System s (save_dir env (n1\<lparr>nd_dir := d\<rparr>)))))"
    if "node_inv uc c n1" "p \<noteq> []" for n1 p s
    using set [OF that]
    by (cases "SetAlias uc (dir_order env 3 n1) p name (nd_dir n1)") (auto intro: System_inv save_dir_inv split: option.split)
  show ?thesis
  proof (cases "nd_dir n")
    case (Some d)
    then have "dir_inv uc d" using assms(1) by (simp add: node_inv_def)
    then have rec: "Lookup_dir uc o1 o2 key (nd_dir n) = Inr rec \<Longrightarrow> dr_PeerID rec \<noteq> []" for o1 o2 rec
      using Lookup_dir_id Some by simp
    show ?thesis
      unfolding setAlias_def using assms(1) rec conn
      by (auto simp: fin observePeer_inv split: sum.split option.split simp del: Lookup_dir.simps SetAlias.simps)
  qed (simp add: setAlias_def assms)
qed

lemma clearAlias_inv [node_intros]:
  assumes "node_inv uc c n"
  shows "node_inv uc c (snd (clearAlias uc env key n))"
proof -
  have "node_inv uc c (n\<lparr>nd_dir := snd (ClearAlias uc (dir_order env 0 n) (dir_order env 1 n) key (nd_dir n))\<rparr>)"
    using assms by (intro node_inv_dir ClearAlias_inv node_invD)
  then show ?thesis
    using assms unfolding clearAlias_def
    by (cases "ClearAlias uc (dir_order env 0 n) (dir_order env 1 n) key (nd_dir n)")
      (auto intro: System_inv save_dir_inv split: option.split simp del: ClearAlias.simps)
qed

section \<open>Addresses of the node, input lines\<close>

lemma refreshAdvertise_inv [node_intros]: "node_inv uc c n \<Longrightarrow> node_inv uc c (refreshAdvertise ifaces n)"
  using node_inv_peers [of uc c "n\<lparr>nd_addrs := l\<rparr>" for l] 
  by (simp add: refreshAdvertise_def Let_def table_good_advertise node_invD)

lemma nat_inv [node_intros]:
  "node_inv uc c n \<Longrightarrow> node_inv uc c (trySTUN txid exchange n)"
  "node_inv uc c n \<Longrightarrow> node_inv uc c (snd (tryUPnP ifaces uenv n))"
  by (auto simp: trySTUN_def tryUPnP_def Let_def case_prod_unfold intro!: System_inv refreshAdvertise_inv split: sum.split list.split option.split)

lemma HandleLine_inv [node_intros]:
  assumes inv: "node_inv uc c n" and env: "env_ok (ce_env ce)"
  shows "node_inv uc c (snd (HandleLine uc c ce line n))"
proof -
  note ops = SendChat_inv [OF inv] Connect_inv [OF inv] Disconnect_node_inv [OF inv] Join_node_inv [OF inv]
    Leave_node_inv [OF inv] SetNick_inv [OF inv] SendDirect_inv [OF inv] setAlias_inv [OF inv env] clearAlias_inv [OF inv]
  have disc: "node_inv uc c (snd (connectNearbyVerified uc c (ce_is_ip ce) (ce_env ce) (ce_plans ce) n))"
    "node_inv uc c (snd (Nearby_node (ce_env ce) n))"
    using inv by (simp_all add: connectNearbyVerified_inv Nearby_node_def nearby_inv)
  have sys: "node_inv uc c m \<Longrightarrow> node_inv uc c (snd (sys s m))" for s m by (simp add: sys_def System_inv)
  have "node_inv uc c (snd (cmdDiscover uc c ce cmd n))" for cmd
    using disc by (auto simp: cmdDiscover_def sys case_prod_unfold split: sum.split prod.split)
  then have "node_inv uc c (snd (run_command uc c ce k cmd n))" for k cmd
    by (cases k)
      (simp_all add: inv ops sys usage_def ran_def cmdChat_def cmdHelp_def cmdConnect_def cmdDisconnect_def cmdPeers_def
        cmdJoin_def cmdLeave_def cmdChannels_def cmdNick_def cmdMe_def cmdMsg_def cmdWhoami_def cmdAlias_def cmdUnalias_def
        cmdKnown_def cmdAddr_def cmdVersion_def cmdStats_def cmdNames_def cmdQuit_def Let_def)
  then show ?thesis by (simp add: HandleLine_def Let_def)
qed

section \<open>The steps of the process\<close>

lemma on_conn_inv: "benign f \<Longrightarrow> node_inv uc c n \<Longrightarrow> node_inv uc c (n\<lparr>nd_peers := on_conn h f (nd_peers n)\<rparr>)"
  by (intro node_inv_peers table_good_on node_invD)

lemma subscriber_inv [node_intros]:
  "node_inv uc c n \<Longrightarrow> node_inv uc c (snd (Subscribe n))" "node_inv uc c n \<Longrightarrow> node_inv uc c (snd (take_event i n))"
proof -
  assume inv: "node_inv uc c n"
  then show "node_inv uc c (snd (Subscribe n))" by (auto simp: Subscribe_def node_inv_def queues_ok_def)
  have "length (tl (nd_events n ! i)) \<le> eventCap" if "i < length (nd_events n)"
  proof -
    have "length (nd_events n ! i) \<le> eventCap" using inv nth_mem [OF that] by (simp add: node_inv_def queues_ok_def)
    then show ?thesis by simp
  qed
  then show "node_inv uc c (snd (take_event i n))"
    using inv by (auto simp: take_event_def queues_ok_def node_invD intro!: node_inv_events dest!: subsetD [OF set_update_subset_insert])
      (auto simp: node_inv_def queues_ok_def)
qed

lemma Close_node_inv [node_intros]: "node_inv uc c n \<Longrightarrow> node_inv uc c (snd (Close_node uenv env n))"
proof -
  assume inv: "node_inv uc c n"
  have "pred_option (disc_inv uc c) (map_option Close_disc (nd_disc n))"
    using node_invD(6) [OF inv] by (cases "nd_disc n") (simp_all add: disc_inv_def Close_disc_def)
  then have "node_inv uc c (n\<lparr>nd_closed := True, nd_events := [], nd_upnpMap := None, nd_listening := False, nd_peers := CloseAll (nd_peers n),
      nd_disc := map_option Close_disc (nd_disc n)\<rparr>)"
    using inv table_good_closeall [OF node_invD(1) [OF inv]] by (simp add: node_inv_def queues_ok_def)
  then show ?thesis using inv unfolding Close_node_def Let_def by (simp add: save_ident_inv save_dir_inv)
qed

text \<open>
  One step of the process: a turn of a goroutine, an input line, or the end. Everything that comes from
  outside is arbitrary, but iteration orders are orders of the keys. The goroutines that adopt a connection
  or end one release the lock of the peer table before they call a hook, so the last three steps take
  the change of the table and the hook apart: any hook may run at any time.
\<close>

inductive node_step :: "unicode \<Rightarrow> crypto \<Rightarrow> node \<Rightarrow> node \<Rightarrow> bool" for uc c where
  Read: "env_ok env \<Longrightarrow> node_step uc c n (conn_read uc c env h now r n)"
| Inbound: "env_ok env \<Longrightarrow> node_step uc c n (adoptInbound uc c env hs n)"
| Line: "env_ok (ce_env ce) \<Longrightarrow> node_step uc c n (snd (HandleLine uc c ce line n))"
| Write: "node_step uc c n (n\<lparr>nd_peers := on_conn h (\<lambda>cn. snd (write_next ok cn)) (nd_peers n)\<rparr>)"
| Tick: "node_step uc c n (n\<lparr>nd_peers := on_conn h (\<lambda>cn. snd (write_tick sha nonce now cn)) (nd_peers n)\<rparr>)"
| Datagram: "nd_disc n = Some d \<Longrightarrow> picks_ok pick \<Longrightarrow> handle_datagram uc c pick t1 t2 t3 a src d = Some (d', cb) \<Longrightarrow>
    node_step uc c n (n\<lparr>nd_disc := Some d'\<rparr>)"
| Auto: "env_ok env \<Longrightarrow> node_step uc c n (tryAutoConnect uc c is_ip env plan a n)"
| Reconnect: "env_ok env \<Longrightarrow> node_step uc c n (reconnectOnce uc c is_ip env plans busy n)"
| SeenTick: "node_step uc c n (seen_tick now n)"
| SaveTick: "node_step uc c n (save_dir env n)"
| STUN: "node_step uc c n (trySTUN txid exchange n)"
| UPnP: "node_step uc c n (snd (tryUPnP ifaces uenv n))"
| NewSubscriber: "node_step uc c n (snd (Subscribe n))"
| TakeEvent: "node_step uc c n (snd (take_event i n))"
| Stop: "node_step uc c n (snd (Close_node uenv env n))"
| Shook: "node_step uc c n
    (n\<lparr>nd_peers := snd (snd (HandshakeAndAdopt uc c hs (nd_ident n) (Nick n) inb (new_handle (nd_peers n)) (nd_peers n)))\<rparr>)"
| Ended: "node_step uc c n (n\<lparr>nd_peers := snd (shutdown h (nd_peers n))\<rparr>)"
| Hook: "node_step uc c n (on_event c env ev n)"

text \<open>The states a process can be in: it starts with a consistent identity and a consistent directory file.\<close>

inductive node_reach :: "unicode \<Rightarrow> crypto \<Rightarrow> node \<Rightarrow> bool" for uc c where
  Started: "Start fjoin dir ifaces listened multicast cfg (Some ident) = Inr n \<Longrightarrow> id_ok c ident \<Longrightarrow> key_ok c (idPrivateKey ident) \<Longrightarrow>
    (\<And>d. dir = Inr d \<Longrightarrow> dir_inv uc d) \<Longrightarrow> node_reach uc c n"
| Stepped: "node_reach uc c n \<Longrightarrow> node_step uc c n n' \<Longrightarrow> node_reach uc c n'"

lemma node_step_inv: "node_step uc c n n' \<Longrightarrow> node_inv uc c n \<Longrightarrow> node_inv uc c n'"
proof (induction rule: node_step.induct)
  case (Datagram n d pick t1 t2 t3 a src d' cb)
  then have "disc_inv uc c d" by (simp add: node_inv_def)
  from handle_datagram_inv [OF this Datagram.hyps(2), of t1 t2 t3 a src] show ?case
    using Datagram by (auto intro: node_inv_disc)
next
  case (SeenTick n now)
  then show ?case by (simp add: seen_tick_def RouterSweep_def node_inv_router Sweep_inv node_invD)
next
  case (Write n h ok)
  then show ?case using benign_ops(6) by (intro on_conn_inv)
next
  case (Tick n h sha nonce now)
  then show ?case using benign_ops(5) by (intro on_conn_inv)
next
  case (Shook n hs inb)
  then show ?case by (intro node_inv_peers table_good_handshake node_invD)
next
  case (Ended n h)
  then show ?case by (intro node_inv_peers table_good_shutdown node_invD)
qed (simp_all add: conn_read_inv adoptInbound_inv HandleLine_inv tryAutoConnect_inv reconnectOnce_inv save_dir_inv nat_inv
    subscriber_inv Close_node_inv on_event_inv)

lemma start_disc_inv: "pred_option (disc_inv uc c) (start_disc cfg ident port multicast)"
  using disc_inv_New [of uc c "Some ident" "DefaultNickname ident" port "\<not> cfPlain cfg"]
  by (simp add: start_disc_def Start_disc_def SetOnPeer_def disc_inv_def)

lemma start_table: "table_good (start_peers cfg ident port)"
  by (simp add: table_good_def start_peers_def peer_inv_def hooked_def SetMaxPeers_def NewPeerManager_def EnableTLS_def
      SetListenPort_def SetReplaceHook_def SetHooks_def gm_laws Let_def)

lemma window_inv_New: "window_inv (NewWindow 30 second)"
  by (simp add: window_inv_def NewWindow_def gm_laws)

lemma Start_inv:
  assumes "Start fjoin dir ifaces listened multicast cfg0 (Some ident0) = Inr n" "id_ok c ident0"
    and "\<And>d. dir = Inr d \<Longrightarrow> dir_inv uc d"
  shows "node_inv uc c n"
proof -
  define cfg where "cfg = (case cfg0 of None \<Rightarrow> Default | Some c \<Rightarrow> c)"
  define ident where "ident = (if cfNickname cfg \<noteq> [] then ident0\<lparr>idNickname := cfNickname cfg\<rparr> else ident0)"
  have id: "id_ok c ident" using assms(2) by (simp add: ident_def id_ok_def)
  have dir: "dir_inv uc (case dir of Inl e \<Rightarrow> New_dir fjoin (cfDataDir cfg) | Inr d \<Rightarrow> d)"
    using assms(3) by (auto simp: dir_inv_def New_dir_def gm_laws split: sum.split)
  obtain port where port: "listened = Some port" using assms(1) by (auto simp: Start_def Let_def split: if_splits option.splits)
  obtain n0 where n0: "node_inv uc c n0" "n = (refreshAdvertise ifaces n0)
      \<lparr>nd_chans := snd (Join_chan ''#general'' (Nick (refreshAdvertise ifaces n0)) (nd_chans (refreshAdvertise ifaces n0))),
       nd_disc := start_disc cfg ident port multicast\<rparr>"
  proof
    let ?n0 = "\<lparr>nd_cfg = cfg, nd_ident = ident, nd_peers = start_peers cfg ident port,
        nd_chans = NewManager (idPeerID ident) (cfHistoryLimit cfg), nd_router = New True True (cfSeenTTL cfg) (cfSeenMax cfg),
        nd_disc = None, nd_dir = Some (case dir of Inl e \<Rightarrow> New_dir fjoin (cfDataDir cfg) | Inr d \<Rightarrow> d),
        nd_limit = Some (NewWindow 30 second), nd_backoff = Some (NewTracker (5 * 10 ^ 9) (60 * 10 ^ 9)),
        nd_port = port, nd_host = (if cfListenHost cfg = [] then ''0.0.0.0'' else cfListenHost cfg), nd_addrs = [], nd_stunUDP = [],
        nd_stunDone = False, nd_upnpExt = [], nd_upnpMap = None, nd_handshakes = 0, nd_dialing = gm_empty, nd_events = [],
        nd_listening = True, nd_closed = False\<rparr>"
    show "node_inv uc c ?n0"
      using id dir start_table window_inv_New NewSeenStore_inv chan_inv_new by (simp add: node_inv_def New_def queues_ok_def gm_laws)
    show "n = (refreshAdvertise ifaces ?n0)
      \<lparr>nd_chans := snd (Join_chan ''#general'' (Nick (refreshAdvertise ifaces ?n0)) (nd_chans (refreshAdvertise ifaces ?n0))),
       nd_disc := start_disc cfg ident port multicast\<rparr>"
      using assms(1) port unfolding Start_def cfg_def [symmetric] Let_def by (auto simp: ident_def split: if_splits)
  qed
  have "node_inv uc c (refreshAdvertise ifaces n0)" (is "node_inv uc c ?r") using n0(1) by (rule refreshAdvertise_inv)
  then have "node_inv uc c (?r\<lparr>nd_chans := snd (Join_chan ''#general'' (Nick ?r) (nd_chans ?r))\<rparr>)"
    by (intro node_inv_chans chan_inv_join node_invD)
  then show ?thesis unfolding n0(2) using start_disc_inv by (rule node_inv_disc)
qed

lemma Start_fields:
  assumes "Start fjoin dir ifaces listened multicast cfg0 (Some ident) = Inr n"
  shows "\<exists>cfg port l nick lim x. nd_events n = [] \<and> nd_peers n = SetAdvertiseAddrs l (start_peers cfg (nd_ident n) port)
    \<and> nd_chans n = snd (Join_chan ''#general'' nick (NewManager (idPeerID (nd_ident n)) lim)) \<and> nd_ident n = ident\<lparr>idNickname := x\<rparr>"
proof -
  define cfg where "cfg = (case cfg0 of None \<Rightarrow> Default | Some c \<Rightarrow> c)"
  define i1 where "i1 = (if cfNickname cfg \<noteq> [] then ident\<lparr>idNickname := cfNickname cfg\<rparr> else ident)"
  obtain port where port: "listened = Some port" using assms by (auto simp: Start_def Let_def split: if_splits option.splits)
  have n: "nd_events n = [] \<and> nd_ident n = i1 \<and> nd_peers n = SetAdvertiseAddrs (nd_addrs n) (start_peers cfg i1 port)
    \<and> nd_chans n = snd (Join_chan ''#general'' (DefaultNickname i1) (NewManager (idPeerID i1) (cfHistoryLimit cfg)))"
    using assms port unfolding Start_def cfg_def [symmetric] Let_def refreshAdvertise_def
    by (auto simp: i1_def Nick_def split: if_splits)
  have "\<exists>x. i1 = ident\<lparr>idNickname := x\<rparr>"
  proof (cases "cfNickname cfg = []")
    case True
    then have "i1 = ident\<lparr>idNickname := idNickname ident\<rparr>" by (simp add: i1_def)
    then show ?thesis by blast
  qed (auto simp: i1_def)
  with n show ?thesis by blast
qed

lemma reach_inv: "node_reach uc c n \<Longrightarrow> node_inv uc c n"
  by (induction rule: node_reach.induct) (blast intro: Start_inv node_step_inv)+

section \<open>Examples\<close>

lemma sample_env_ok: "env_ok sample_nenv"
  by (simp add: env_ok_def sample_nenv_def)

lemma sample_start: "Start (@) (Inl DirRead) None (Some 7777) True None (Some (sample_ident k)) = Inr (sample_node k)"
  by (simp add: sample_node_def Start_def Default_def Let_def)

lemma sample_node_reach: "node_reach uc toy_crypto (sample_node k)"
  using sample_start sample_ident_ok by (rule node_reach.Started) simp

lemma sample_node_fields:
  "nd_ident (sample_node k) = sample_ident k" "nd_router (sample_node k) = New True True (24 * 3600 * 10 ^ 9) 50000"
  "nd_limit (sample_node k) = Some (NewWindow 30 second)" "nd_closed (sample_node k) = False" "nd_events (sample_node k) = []"
  "Current (nd_chans (sample_node k)) = ''#general''" "Joined (nd_chans (sample_node k)) ''#general''"
  "pm_store (nd_peers (sample_node k)) = gm_empty" "pm_maxPeers (nd_peers (sample_node k)) = 64" "hooked (nd_peers (sample_node k))"
  by (simp_all add: sample_node_def Start_def Default_def Let_def refreshAdvertise_def Current_def Joined_def Join_chan_def gm_has_def
      gm_laws start_peers_def SetAdvertiseAddrs_def SetMaxPeers_def NewPeerManager_def EnableTLS_def SetListenPort_def
      SetReplaceHook_def SetHooks_def hooked_def DefaultMaxPeers_def)

lemma sample_linked_inv: "p \<noteq> [] \<Longrightarrow> node_inv uc toy_crypto (sample_linked k p)"
proof -
  assume p: "p \<noteq> []"
  let ?n = "snd (Subscribe (sample_node k))"
  have inv: "node_inv uc toy_crypto ?n" using reach_inv [OF sample_node_reach] by (rule subscriber_inv)
  have "nd_peers ?n = nd_peers (sample_node k)" by (simp add: Subscribe_def)
  then have "table_good ((put_conn 1 (sample_conn p False) (nd_peers ?n))\<lparr>pm_conns := gm_put p 1 gm_empty\<rparr>)"
    using p sample_node_fields(8-10) [of k]
    by (simp add: table_good_def peer_inv_def hooked_def conn_at_def gm_laws gm.len_put put_conn_def)
  then show ?thesis using inv unfolding sample_linked_def Let_def by (intro node_inv_peers)
qed

section \<open>Properties\<close>

text \<open>
  C2. The invariant of the whole process: in every state reachable from a start with a consistent identity
  and a consistent directory, by any sequence of received frames, inbound and outbound connections,
  input lines, datagrams, timer ticks and terminations of connections, with the hooks of the peer table
  called in any order and at any time after the change of the table, the peer table is consistent and within its limit, the duplicate cache, the rate limiter, the channels, the directory and the
  table of neighbours keep their invariants, the identity stays consistent, no subscriber's queue
  exceeds 128 events, no channel history its limit, and the handshakes in progress their limit.
\<close>

theorem node_invariant:
  assumes "node_reach uc c n"
  shows "node_inv uc c n"
  using assms by (rule reach_inv)

theorem node_invariant_witness:
  "node_inv sample_uc toy_crypto
     (snd (HandleLine sample_uc toy_crypto sample_cmd_env ''/join #a''
       (adoptInbound sample_uc toy_crypto sample_nenv (sample_env (Some (sample_hello CHR ''j'')))
         (snd (Subscribe (sample_node CHR ''k''))))))"
proof (rule node_invariant)
  let ?n1 = "snd (Subscribe (sample_node CHR ''k''))"
  let ?n2 = "adoptInbound sample_uc toy_crypto sample_nenv (sample_env (Some (sample_hello CHR ''j''))) ?n1"
  have env: "env_ok sample_nenv" "env_ok (ce_env sample_cmd_env)" by (simp_all add: sample_env_ok sample_cmd_env_def)
  have "node_reach sample_uc toy_crypto ?n1"
    by (rule node_reach.Stepped [OF sample_node_reach node_step.NewSubscriber])
  then have "node_reach sample_uc toy_crypto ?n2"
    by (rule node_reach.Stepped [OF _ node_step.Inbound [OF env(1)]])
  then show "node_reach sample_uc toy_crypto (snd (HandleLine sample_uc toy_crypto sample_cmd_env ''/join #a'' ?n2))"
    by (rule node_reach.Stepped [OF _ node_step.Line [OF env(2)]])
qed

end
