(* ===== verification/NodeAuth.thy ===== *)
theory NodeAuth
  imports NodeInv
begin

text \<open>
  What a node stores, shows and sends. The locale \<open>policy\<close> is the interface between the handlers and a
  judgement \<open>ok\<close> on messages: what passed the signature check is \<open>ok\<close>, rewriting the channel keeps a
  message \<open>ok\<close>, and the unsigned kinds are \<open>ok\<close>. Under these laws every step of the process keeps
  all stored, shown and queued messages \<open>ok\<close>. The interpretation takes authenticity for \<open>ok\<close>.
\<close>

section \<open>Definitions\<close>

definition events_clean :: "(message \<Rightarrow> bool) \<Rightarrow> event list list \<Rightarrow> bool" where
  "events_clean ok qs \<longleftrightarrow> (\<forall>q \<in> set qs. \<forall>ev \<in> set q. pred_option ok (ev_Msg ev))"

definition hist_clean :: "(message \<Rightarrow> bool) \<Rightarrow> manager \<Rightarrow> bool" where
  "hist_clean ok m \<longleftrightarrow> (\<forall>name ch. gm_get (cm_joined m) name = Some ch \<longrightarrow> (\<forall>msg \<in> set (ch_History ch). ok msg))"

definition queue_clean :: "(message \<Rightarrow> bool) \<Rightarrow> pmanager \<Rightarrow> bool" where
  "queue_clean ok m \<longleftrightarrow> (\<forall>h cn. conn_at m h = Some cn \<longrightarrow> (\<forall>msg \<in> set (cn_sendCh cn). ok msg))"

definition own_key :: "crypto \<Rightarrow> identity \<Rightarrow> bool" where
  "own_key c i \<longleftrightarrow> id_ok c i \<and> key_ok c (idPrivateKey i)"

definition clean :: "crypto \<Rightarrow> (message \<Rightarrow> bool) \<Rightarrow> node \<Rightarrow> bool" where
  "clean c ok n \<longleftrightarrow>
     events_clean ok (nd_events n) \<and> hist_clean ok (nd_chans n) \<and> queue_clean ok (nd_peers n) \<and> own_key c (nd_ident n)"

text \<open>A function on connections that queues only \<open>ok\<close> messages.\<close>

definition sends :: "(message \<Rightarrow> bool) \<Rightarrow> (conn \<Rightarrow> conn) \<Rightarrow> bool" where
  "sends ok f \<longleftrightarrow> (\<forall>cn msg. msg \<in> set (cn_sendCh (f cn)) \<longrightarrow> msg \<in> set (cn_sendCh cn) \<or> ok msg)"

text \<open>
  A message is authentic: the sender's id is the digest of its key, and its signature verifies for the
  message as it came in. That is the message itself, but for the channel of a message to a channel: routing
  rewrites it to its normal form and keeps the signature, so there it is some channel with this normal form.
\<close>

definition speaks_for :: "unicode \<Rightarrow> crypto \<Rightarrow> message \<Rightarrow> bool" where
  "speaks_for uc c m \<longleftrightarrow> (\<exists>pub. hex_decode (mPublicKey m) = Some pub \<and> DerivePeerID c pub = ToLower uc (mSender m))"

definition authentic :: "unicode \<Rightarrow> crypto \<Rightarrow> message \<Rightarrow> bool" where
  "authentic uc c m \<longleftrightarrow>
     speaks_for uc c m
     \<and> (\<exists>ch. (ch = mChannel m \<or> NormalizeChannel uc ch = Inr (mChannel m) \<and> (mTo m = [] \<or> mType m \<noteq> TypeChat))
           \<and> VerifySignature uc c (Some (m\<lparr>mChannel := ch\<rparr>)) = None)"

section \<open>Peer table and channels\<close>

lemma queue_on: "sends ok f \<Longrightarrow> queue_clean ok m \<Longrightarrow> queue_clean ok (on_conn h f m)"
  unfolding queue_clean_def sends_def by (auto simp: conn_at_on split: if_splits) blast

lemma queue_put: "conn_at m h = Some cn \<Longrightarrow> sends ok f \<Longrightarrow> queue_clean ok m \<Longrightarrow> queue_clean ok (put_conn h (f cn) m)"
  by (simp add: on_conn_put queue_on)

lemma queue_conns [simp]: "queue_clean ok (m\<lparr>pm_conns := x\<rparr>) = queue_clean ok m"
  by (simp add: queue_clean_def)

lemma queue_fold: "(\<And>h. sends ok (F h)) \<Longrightarrow> queue_clean ok m \<Longrightarrow> queue_clean ok (fold (\<lambda>h. on_conn h (F h)) hs m)"
  by (induction hs arbitrary: m) (auto intro: queue_on)

lemma sends_ops:
  "sends ok Close_conn" "sends ok (touch now)" "sends ok (\<lambda>cn. snd (write_tick sha nonce now cn))"
  "sends ok (\<lambda>cn. snd (write_next w cn))" "sends ok (\<lambda>cn. snd (snd (read_step now r cn)))"
  "sends ok (\<lambda>cn. cn\<lparr>cn_info := g cn\<rparr>)" "sends ok (\<lambda>cn. cn\<lparr>cn_notified := b\<rparr>)"
  by (auto simp: sends_def Close_conn_def touch_def write_tick_def write_next_def Let_def split: list.splits if_splits)
    (cases r; auto simp: touch_def Let_def)+

lemma sends_Send: "ok msg \<Longrightarrow> sends ok (\<lambda>cn. snd (Send pick msg cn))"
  by (auto simp: sends_def Send_def Let_def)

lemma sends_broadcast: "ok msg \<Longrightarrow> sends ok (broadcast_one pick msg h)"
  by (auto simp: sends_def broadcast_one_def Send_def Close_conn_def Let_def split: if_splits)

lemma queue_ops:
  assumes "queue_clean ok m"
  shows "ok msg \<Longrightarrow> queue_clean ok (Broadcast_peers order pick msg p m)"
    and "queue_clean ok (CloseAll m)" and "queue_clean ok (UpdateNick_peer q nick m)"
    and "ok msg \<Longrightarrow> queue_clean ok (snd (SendTo order pk q msg m))" and "queue_clean ok (snd (Disconnect order q m))"
    and "queue_clean ok (SetAdvertiseAddrs l m)" and "queue_clean ok (snd (shutdown h m))"
proof -
  show "queue_clean ok (Broadcast_peers order pick msg p m)" if "ok msg"
    unfolding Broadcast_peers_def Let_def using sends_broadcast [of ok msg, OF that] assms by (rule queue_fold)
  show "queue_clean ok (CloseAll m)" unfolding CloseAll_def using sends_ops(1) assms by (rule queue_fold)
  show "queue_clean ok (UpdateNick_peer q nick m)"
    using assms by (auto simp: UpdateNick_peer_def intro: queue_on sends_ops split: option.split)
  show "queue_clean ok (snd (SendTo order pk q msg m))" if "ok msg"
    using assms queue_put [OF _ sends_Send [of ok msg, OF that]]
    by (auto simp: SendTo_def case_prod_unfold split: sum.split option.split)
  show "queue_clean ok (snd (Disconnect order q m))"
    using assms by (auto simp: Disconnect_def intro: queue_on sends_ops split: sum.split)
  show "queue_clean ok (SetAdvertiseAddrs l m)" using assms by (simp add: queue_clean_def SetAdvertiseAddrs_def conn_at_def)
  show "queue_clean ok (snd (shutdown h m))"
    using assms by (auto simp: shutdown_def unregister_eq Let_def intro!: queue_on sends_ops split: option.split)
qed

lemma queue_handshake:
  assumes "queue_clean ok m"
  shows "queue_clean ok (snd (snd (HandshakeAndAdopt uc c hs ident nick inb h m)))"
proof -
  have w: "queue_clean ok (wrap h inb m)" using assms by (auto simp: queue_clean_def wrap_def conn_at_put split: if_splits)
  have ad: "queue_clean ok x \<Longrightarrow> queue_clean ok (snd (snd (adopt now h cn x)))" for now cn x
    by (auto simp: adopt_eq start_def Let_def intro!: queue_on sends_ops split: verdict.split)
  show ?thesis
    unfolding HandshakeAndAdopt_def Let_def
    using assms w by (auto intro!: ad queue_on sends_ops split: sum.split option.split)
qed

lemma hist_put:
  "hist_clean ok m \<Longrightarrow> \<forall>msg \<in> set (ch_History ch). ok msg \<Longrightarrow> hist_clean ok (m\<lparr>cm_joined := gm_put name ch (cm_joined m)\<rparr>)"
  by (auto simp: hist_clean_def gm_laws split: if_splits)

lemma hist_frame [simp]: "hist_clean ok (m\<lparr>cm_known := k\<rparr>) = hist_clean ok m" "hist_clean ok (m\<lparr>cm_current := x\<rparr>) = hist_clean ok m"
  by (simp_all add: hist_clean_def)

lemma hist_map: "hist_clean ok m \<Longrightarrow> (\<And>ch. ch_History (f ch) = ch_History ch) \<Longrightarrow> hist_clean ok (m\<lparr>cm_joined := gm_map f (cm_joined m)\<rparr>)"
  by (auto simp: hist_clean_def go_simps)

lemma set_keep_last: "set (keep_last k xs) \<subseteq> set xs"
  by (auto simp: keep_last_def dest: in_set_dropD)

lemma hist_ops:
  assumes "hist_clean ok m"
  shows "hist_clean ok (Note name m)" and "hist_clean ok (MemberLeave name p m)" and "hist_clean ok (MemberLeaveAll p m)"
    and "hist_clean ok (MemberJoin name p nick m)" and "hist_clean ok (UpdateNick_chan p nick m)"
    and "hist_clean ok (snd (Leave_chan order name m))" and "hist_clean ok (snd (Join_chan name nick m))"
    and "ok msg \<Longrightarrow> hist_clean ok (AddHistory (Some msg) m)"
proof -
  show "hist_clean ok (Note name m)" using assms by (simp add: Note_def)
  show "hist_clean ok (MemberLeave name p m)"
    using assms by (auto simp: MemberLeave_def hist_clean_def gm_laws split: option.splits if_splits)
  show "hist_clean ok (MemberLeaveAll p m)" unfolding MemberLeaveAll_def using assms by (rule hist_map) simp
  show "hist_clean ok (UpdateNick_chan p nick m)" unfolding UpdateNick_chan_def using assms by (rule hist_map) simp
  show "hist_clean ok (MemberJoin name p nick m)"
    using assms by (auto simp: MemberJoin_def Let_def hist_clean_def gm_laws split: option.splits if_splits)
  show "hist_clean ok (snd (Leave_chan order name m))"
    using assms by (auto simp: Leave_chan_def hist_clean_def gm_laws split: if_splits)
  show "hist_clean ok (snd (Join_chan name nick m))"
    using assms by (auto simp: Join_chan_def Let_def hist_clean_def gm_laws split: option.splits if_splits)
  show "hist_clean ok (AddHistory (Some msg) m)" if "ok msg"
  proof (cases "gm_get (cm_joined m) (mChannel msg)")
    case (Some ch)
    have "\<forall>x \<in> set (keep_last (cm_histLim m) (ch_History ch @ [msg])). ok x"
      using assms Some that set_keep_last [of "cm_histLim m" "ch_History ch @ [msg]"] by (auto simp: hist_clean_def)
    then show ?thesis
      using assms Some hist_put [of ok "m\<lparr>cm_known := gm_put (mChannel msg) () (cm_known m)\<rparr>"] by simp
  qed (use assms in simp)
qed

section \<open>Updates of one field\<close>

lemma cleanD:
  assumes "clean c ok n"
  shows "events_clean ok (nd_events n)" "hist_clean ok (nd_chans n)" "queue_clean ok (nd_peers n)" "own_key c (nd_ident n)"
  using assms by (simp_all add: clean_def)

lemma clean_fields:
  "clean c ok n \<Longrightarrow> hist_clean ok m \<Longrightarrow> clean c ok (n\<lparr>nd_chans := m\<rparr>)"
  "clean c ok n \<Longrightarrow> queue_clean ok pm \<Longrightarrow> clean c ok (n\<lparr>nd_peers := pm\<rparr>)"
  "clean c ok n \<Longrightarrow> events_clean ok qs \<Longrightarrow> clean c ok (n\<lparr>nd_events := qs\<rparr>)"
  "clean c ok n \<Longrightarrow> own_key c i \<Longrightarrow> clean c ok (n\<lparr>nd_ident := i\<rparr>)"
  by (simp_all add: clean_def)

lemma clean_free [simp]:
  "clean c ok (n\<lparr>nd_router := r\<rparr>) = clean c ok n" "clean c ok (n\<lparr>nd_dir := d\<rparr>) = clean c ok n"
  "clean c ok (n\<lparr>nd_disc := s\<rparr>) = clean c ok n" "clean c ok (n\<lparr>nd_limit := w\<rparr>) = clean c ok n"
  "clean c ok (n\<lparr>nd_backoff := b\<rparr>) = clean c ok n" "clean c ok (n\<lparr>nd_stunUDP := x\<rparr>) = clean c ok n"
  "clean c ok (n\<lparr>nd_stunDone := y\<rparr>) = clean c ok n" "clean c ok (n\<lparr>nd_upnpExt := x\<rparr>) = clean c ok n"
  "clean c ok (n\<lparr>nd_upnpMap := mp\<rparr>) = clean c ok n" "clean c ok (n\<lparr>nd_addrs := l\<rparr>) = clean c ok n"
  "clean c ok (n\<lparr>nd_closed := y\<rparr>) = clean c ok n" "clean c ok (n\<lparr>nd_handshakes := k\<rparr>) = clean c ok n"
  "clean c ok (n\<lparr>nd_dialing := g\<rparr>) = clean c ok n" "clean c ok (n\<lparr>nd_listening := y\<rparr>) = clean c ok n"
  by (simp_all add: clean_def)

lemma clean_emit: "clean c ok n \<Longrightarrow> pred_option ok (ev_Msg ev) \<Longrightarrow> clean c ok (emit ev n)"
  by (auto simp: emit_eq clean_def events_clean_def offer_def)

lemma clean_System: "clean c ok n \<Longrightarrow> clean c ok (System s n)"
  by (simp add: System_def clean_emit)

lemma clean_observe: "clean c ok n \<Longrightarrow> clean c ok (observePeer env i n)"
  by (simp add: observePeer_def Let_def)

lemma clean_applyNick: "clean c ok n \<Longrightarrow> clean c ok (applyNick env p nick n)"
proof -
  assume cl: "clean c ok n"
  have "clean c ok (n\<lparr>nd_chans := UpdateNick_chan p nick (nd_chans n)\<rparr>)" using cl by (intro clean_fields hist_ops cleanD)
  then have "clean c ok (n\<lparr>nd_chans := UpdateNick_chan p nick (nd_chans n), nd_peers := UpdateNick_peer p nick (nd_peers n)\<rparr>)"
    using queue_ops(3) [OF cleanD(3) [OF cl]] by (rule clean_fields)
  then show ?thesis using cl by (simp add: applyNick_def)
qed

lemma clean_fold: "(\<And>x n. x \<in> set xs \<Longrightarrow> clean c ok n \<Longrightarrow> clean c ok (f x n)) \<Longrightarrow> clean c ok n \<Longrightarrow> clean c ok (fold f xs n)"
  by (induction xs arbitrary: n) auto

lemma own_key_save: "own_key c i \<Longrightarrow> own_key c (fst (snd (Save_id e t i)))"
  by (auto simp: own_key_def Save_id_def toRecord_def Let_def id_ok_def split: option.split)

lemma clean_saves: "clean c ok n \<Longrightarrow> clean c ok (save_ident env n)" "clean c ok n \<Longrightarrow> clean c ok (save_dir env n)"
  by (auto simp: save_ident_def save_dir_def intro!: clean_fields own_key_save cleanD)

lemma clean_nearby: "clean c ok n \<Longrightarrow> clean c ok (snd (nearbySnapshot env n))"
  by (simp add: nearbySnapshot_def case_prod_unfold split: option.split)

lemma clean_refresh: "clean c ok n \<Longrightarrow> clean c ok (refreshAdvertise ifaces n)"
  using clean_fields(2) [of c ok "n\<lparr>nd_addrs := l\<rparr>" for l] by (simp add: refreshAdvertise_def Let_def queue_ops cleanD)

lemma clean_nat: "clean c ok n \<Longrightarrow> clean c ok (trySTUN txid exchange n)" "clean c ok n \<Longrightarrow> clean c ok (snd (tryUPnP ifaces uenv n))"
  by (auto simp: trySTUN_def tryUPnP_def Let_def case_prod_unfold intro!: clean_System clean_refresh split: sum.split list.split option.split)

lemma clean_subscribe: "clean c ok n \<Longrightarrow> clean c ok (snd (Subscribe n))"
  by (auto simp: Subscribe_def clean_def events_clean_def)

lemma clean_close: "clean c ok n \<Longrightarrow> clean c ok (snd (Close_node uenv env n))"
proof -
  assume cl: "clean c ok n"
  then have "clean c ok (n\<lparr>nd_closed := True, nd_events := [], nd_upnpMap := None, nd_listening := False, nd_peers := CloseAll (nd_peers n),
      nd_disc := map_option Close_disc (nd_disc n)\<rparr>)"
    using queue_ops(2) [OF cleanD(3) [OF cl]] by (simp add: clean_def events_clean_def)
  then show ?thesis using cl unfolding Close_node_def Let_def by (simp add: clean_saves)
qed

section \<open>Policies\<close>

lemma Validate_routable:
  assumes "Validate uc (Some m) = (None, Some m')" "IsRoutable (mType m)"
  shows "mSender m \<noteq> []"
    "m' = m \<or> (\<exists>ch. NormalizeChannel uc (mChannel m) = Inr ch \<and> m' = m\<lparr>mChannel := ch\<rparr>) \<and> (mTo m = [] \<or> mType m \<noteq> TypeChat)"
proof -
  have "validate_type uc m = (None, m')" using assms(1) by (auto simp: Validate.simps split: option.splits prod.splits)
  then have "mSender m \<noteq> [] \<and>
      (m' = m \<or> (\<exists>ch. NormalizeChannel uc (mChannel m) = Inr ch \<and> m' = m\<lparr>mChannel := ch\<rparr>) \<and> (mTo m = [] \<or> mType m \<noteq> TypeChat))"
    using assms(2) unfolding validate_type_def IsRoutable_def
    by (auto simp: validate_chat_def type_defs Let_def split: if_splits sum.splits)
  then show "mSender m \<noteq> []"
    "m' = m \<or> (\<exists>ch. NormalizeChannel uc (mChannel m) = Inr ch \<and> m' = m\<lparr>mChannel := ch\<rparr>) \<and> (mTo m = [] \<or> mType m \<noteq> TypeChat)"
    by blast+
qed

lemma verified_speaks: "VerifySignature uc c (Some m) = None \<Longrightarrow> mSender m \<noteq> [] \<Longrightarrow> speaks_for uc c m"
  by (auto simp: speaks_for_def claimed_id_def DerivePeerID_def VerifySignature.simps split: if_splits option.splits)

lemma authenticI: "VerifySignature uc c (Some m) = None \<Longrightarrow> speaks_for uc c m \<Longrightarrow> authentic uc c m"
  unfolding authentic_def by (auto simp del: VerifySignature.simps intro!: exI [of _ "mChannel m"])

lemma authentic_routed:
  assumes "authentic uc c m" "IsRoutable (mType m)" "Validate uc (Some m) = (None, Some m')"
  shows "authentic uc c m'"
proof (cases "m' = m")
  case False
  then obtain ch' where ch': "NormalizeChannel uc (mChannel m) = Inr ch'" "m' = m\<lparr>mChannel := ch'\<rparr>"
    and to: "mTo m = [] \<or> mType m \<noteq> TypeChat"
    using Validate_routable(2) [OF assms(3,2)] by blast
  obtain ch where ch: "ch = mChannel m \<or> NormalizeChannel uc ch = Inr (mChannel m)"
    "VerifySignature uc c (Some (m\<lparr>mChannel := ch\<rparr>)) = None" using assms(1) unfolding authentic_def by blast
  have "NormalizeChannel uc ch = Inr ch'"
    using ch(1) ch'(1) NormalizeChannel_id [OF NormalizeChannel_name] by metis
  moreover have "speaks_for uc c m'" using assms(1) by (simp add: authentic_def speaks_for_def ch'(2))
  ultimately show ?thesis using ch(2) to unfolding authentic_def ch'(2) by (auto simp del: VerifySignature.simps)
qed (use assms in simp)

locale policy =
  fixes uc :: unicode and c :: crypto and ok :: "message \<Rightarrow> bool"
  assumes verified_ok: "VerifySignature uc c (Some m) = None \<Longrightarrow> speaks_for uc c m \<Longrightarrow> ok m"
    and routed_ok: "ok m \<Longrightarrow> IsRoutable (mType m) \<Longrightarrow> Validate uc (Some m) = (None, Some m') \<Longrightarrow> ok m'"
    and unsigned_ok: "\<not> IsRoutable (mType m) \<Longrightarrow> ok m"
begin

lemma clean_onRouted_chat: "clean c ok n \<Longrightarrow> ok msg \<Longrightarrow> clean c ok (onRouted_chat env msg n)"
proof -
  assume cl: "clean c ok n" and m: "ok msg"
  let ?n = "applyNick env (mSender msg) (mNickname msg) n"
  have n: "clean c ok ?n" using cl by (rule clean_applyNick)
  let ?n1 = "?n\<lparr>nd_chans := AddHistory (Some msg) (nd_chans ?n)\<rparr>"
  have n1: "clean c ok ?n1" using n hist_ops(8) [OF cleanD(2) [OF n] m] by (rule clean_fields)
  have "clean c ok (?n1\<lparr>nd_chans := Note (mChannel msg) (nd_chans ?n1)\<rparr>)"
    using n1 hist_ops(1) [OF cleanD(2) [OF n1]] by (rule clean_fields)
  then show ?thesis
    using n n1 m unfolding onRouted_chat_def Let_def by (auto simp: chat_event_def intro!: clean_emit simp del: AddHistory.simps)
qed

lemma clean_onRouted_join: "clean c ok n \<Longrightarrow> ok msg \<Longrightarrow> clean c ok (onRouted_join uc env msg n)"
proof (cases "NormalizeChannel uc (mChannel msg)")
  case (Inr ch)
  assume cl: "clean c ok n" and m: "ok msg"
  let ?n1 = "n\<lparr>nd_chans := Note ch (nd_chans n)\<rparr>"
  let ?n2 = "?n1\<lparr>nd_chans := MemberJoin ch (mSender msg) (mNickname msg) (nd_chans ?n1)\<rparr>"
  have n1: "clean c ok ?n1" using cl hist_ops(1) [OF cleanD(2) [OF cl]] by (rule clean_fields)
  have "clean c ok ?n2" using n1 hist_ops(4) [OF cleanD(2) [OF n1]] by (rule clean_fields)
  then have "clean c ok (applyNick env (mSender msg) (mNickname msg) ?n2)" by (rule clean_applyNick)
  then show ?thesis
    using m unfolding onRouted_join_def Inr sum.case Let_def by (auto intro!: clean_emit split: option.split)
qed (simp add: onRouted_join_def)

lemma clean_onRouted_leave: "clean c ok n \<Longrightarrow> ok msg \<Longrightarrow> clean c ok (onRouted_leave uc msg n)"
  unfolding onRouted_leave_def Let_def
  by (auto intro!: clean_emit clean_fields hist_ops cleanD split: sum.split)

lemma clean_run_effect:
  assumes "clean c ok n" "\<And>m p. e = Deliver m p \<or> e = Broadcast m p \<Longrightarrow> ok m"
  shows "clean c ok (run_effect uc env e n)"
proof (cases e)
  case (Deliver m p)
  then show ?thesis
    using assms by (simp add: onRouted_def clean_onRouted_chat clean_onRouted_join clean_onRouted_leave)
next
  case (Broadcast m p)
  then show ?thesis using assms by (auto intro!: clean_fields queue_ops cleanD)
qed

lemma Handle_effects:
  assumes "\<And>m'. IsRoutable (mType msg) \<Longrightarrow> Validate uc (Some msg) = (None, Some m') \<Longrightarrow> ok m'"
    and "e \<in> set (fst (snd (Handle uc t1 t2 (Some msg) p r)))" "e = Deliver m q \<or> e = Broadcast m q"
  shows "ok m"
proof -
  have "IsRoutable (mType msg)" "Validate uc (Some msg) = (None, Some m)"
    using assms(2,3)
    by (auto simp: Handle.simps case_prod_unfold Let_def prod_eq_iff simp del: Validate.simps split: if_splits option.splits)
  then show ?thesis by (rule assms(1))
qed

lemma clean_route:
  assumes "clean c ok n" "\<And>m'. IsRoutable (mType msg) \<Longrightarrow> Validate uc (Some msg) = (None, Some m') \<Longrightarrow> ok m'"
  shows "clean c ok (route uc env msg p n)"
  unfolding route_def case_prod_unfold
  by (intro clean_fold clean_run_effect) (use assms in \<open>auto intro: Handle_effects simp del: Handle.simps Validate.simps\<close>)

lemma clean_inject: "clean c ok n \<Longrightarrow> ok msg \<Longrightarrow> clean c ok (inject uc env msg n)"
  unfolding inject_def Inject_def case_prod_unfold
  by (intro clean_fold clean_run_effect) (auto intro: Handle_effects routed_ok simp del: Handle.simps Validate.simps)

lemma verified_routed_ok:
  assumes "VerifySignature uc c (Some msg) = None" "IsRoutable (mType msg)" "Validate uc (Some msg) = (None, Some m')"
  shows "ok m'"
  using assms verified_speaks [OF assms(1)] Validate_routable(1) [OF assms(3,2)] by (blast intro: routed_ok verified_ok)

lemma clean_answer_ping:
  assumes "clean c ok n"
  shows "clean c ok (answer_ping cr env h n)"
proof (cases "conn_at (nd_peers n) h")
  case (Some cn)
  have "ok (NewPong sha now nonce x)" for sha now nonce x
    by (rule unsigned_ok) (simp add: NewPong_def Let_def IsRoutable_def type_defs)
  then have "sends ok (\<lambda>cn. case AllowPong second (e_clock env 0) cn of (ok1, cn1) \<Rightarrow>
    if ok1 then snd (Send (e_pick env 0 h) (NewPong (c_sha256 cr) (e_clock env 1) (e_nonce env 0) (idPeerID (nd_ident n))) cn1)
    else cn1)" (is "sends ok ?f")
    by (auto simp: sends_def AllowPong_def Send_def Let_def split: if_splits)
  then have "queue_clean ok (put_conn h (?f cn) (nd_peers n))" using Some assms by (intro queue_put cleanD)
  then show ?thesis
    using Some assms by (auto simp: answer_ping_def case_prod_unfold Let_def intro!: clean_fields split: if_splits)
qed (simp add: answer_ping_def assms)

lemma clean_onPeerMessage: "clean c ok n \<Longrightarrow> clean c ok (onPeerMessage uc c env h msg n)"
  unfolding onPeerMessage_def case_prod_unfold Let_def
  by (auto intro!: clean_route clean_answer_ping verified_routed_ok simp del: Allow.simps Validate.simps split: option.split)

lemma signed_ok:
  assumes "clean c ok n" "sign c msg n = Inr m" "mPublicKey msg = []" "mSender msg = idPeerID (nd_ident n)" "mPeerID msg = []"
  shows "ok m"
proof (rule verified_ok)
  have own: "id_ok c (nd_ident n)" "key_ok c (idPrivateKey (nd_ident n))" using cleanD(4) [OF assms(1)] by (simp_all add: own_key_def)
  have der: "ToLower uc (mSender msg) = DerivePeerID c (ed_public (idPrivateKey (nd_ident n)))"
    using own(1) assms(4) by (simp add: id_ok_def go_simps)
  moreover have "claimed_id msg = mSender msg" using assms(5) by (simp add: claimed_id_def)
  ultimately show "VerifySignature uc c (Some m) = None"
    using own(2) assms(2,3) by (intro Sign_verifies) (auto simp: sign_def)
  have "mPublicKey m = hex_encode (ed_public (idPrivateKey (nd_ident n)))" "mSender m = mSender msg"
    using assms(2,3) by (auto simp: sign_def Let_def split: if_splits simp del: SignBytes.simps)
  then show "speaks_for uc c m" using der by (simp add: speaks_for_def go_simps)
qed

lemma clean_see: "clean c ok n \<Longrightarrow> clean c ok (see env i n)"
  by (simp add: see_def)

lemma new_join_ok: "clean c ok n \<Longrightarrow> sign c (new_join cr env ch n) n = Inr m \<Longrightarrow> ok m"
  by (erule (1) signed_ok) (simp_all add: new_join_def NewJoin_def Let_def zero_message_def)

lemma clean_resyncJoins: "clean c ok n \<Longrightarrow> clean c ok (resyncJoins c env p n)"
proof -
  have one: "clean c ok n \<Longrightarrow> clean c ok (resync_one c env p ch n)" for env ch n
    unfolding resync_one_def Let_def
    by (auto intro!: clean_see clean_fields queue_ops cleanD dest: new_join_ok split: sum.split)
  have "clean c ok n \<Longrightarrow> clean c ok (resync_loop c env p chs n)" for chs
    by (induction chs arbitrary: env n) (auto intro: one)
  then show "clean c ok n \<Longrightarrow> clean c ok (resyncJoins c env p n)" by (simp add: resyncJoins_def)
qed

lemma clean_on_event: "clean c ok n \<Longrightarrow> clean c ok (on_event c env ev n)"
  by (cases ev)
    (auto simp: onPeerUp_def onPeerReplace_def onPeerDown_def Let_def
      intro!: clean_resyncJoins clean_emit clean_System clean_observe clean_fields hist_ops cleanD)

lemma clean_with_hooks: "clean c ok n \<Longrightarrow> queue_clean ok (snd res) \<Longrightarrow> clean c ok (with_hooks c env res n)"
  unfolding with_hooks_def case_prod_unfold by (intro clean_fold clean_on_event clean_fields)

lemma clean_conn_read:
  assumes "clean c ok n"
  shows "clean c ok (conn_read uc c env h now r n)"
proof (cases "conn_at (nd_peers n) h")
  case (Some cn)
  have "queue_clean ok (put_conn h (snd (snd (read_step now r cn))) (nd_peers n))"
    using queue_put [OF Some sends_ops(5)] assms by (simp add: cleanD)
  then have "clean c ok (n\<lparr>nd_peers := put_conn h (snd (snd (read_step now r cn))) (nd_peers n)\<rparr>)"
    using assms by (intro clean_fields)
  then show ?thesis
    using Some unfolding conn_read_def case_prod_unfold Let_def
    by (auto intro!: clean_onPeerMessage clean_with_hooks queue_ops dest: cleanD(3) split: option.split)
qed (simp add: conn_read_def assms)

lemma clean_inbound: "clean c ok n \<Longrightarrow> clean c ok (adoptInbound uc c env hs n)"
  by (auto simp: adoptInbound_def acquire_handshake_def release_handshake_def handleInbound_def
      intro!: clean_with_hooks queue_handshake cleanD split: option.split)

section \<open>User operations\<close>

lemma clean_disconnect: "clean c ok n \<Longrightarrow> clean c ok (snd (Disconnect_node uc env key n))"
  by (simp add: Disconnect_node_def case_prod_unfold Let_def clean_fields queue_ops cleanD)

lemma clean_join:
  assumes "clean c ok n"
  shows "clean c ok (snd (Join_node uc c env name n))"
proof (cases "NormalizeChannel uc name")
  case (Inr ch)
  have n1: "clean c ok (System (''joined '' @ ch) (n\<lparr>nd_chans := snd (Join_chan ch (Nick n) (nd_chans n))\<rparr>))"
    using assms by (intro clean_System clean_fields hist_ops cleanD)
  then show ?thesis
    unfolding Join_node_def Inr sum.case Let_def case_prod_unfold
    using new_join_ok [OF n1] by (auto intro!: clean_inject n1 split: sum.split)
qed (simp add: Join_node_def assms)

lemma clean_leave:
  assumes "clean c ok n"
  shows "clean c ok (snd (Leave_node uc c env name n))"
proof (cases "NormalizeChannel uc (if name = [] then Current (nd_chans n) else name)")
  case (Inr ch)
  let ?leave = "Leave_chan (ranged env 1 (gm_del ch (cm_joined (nd_chans n)))) ch (nd_chans n)"
  have left: "clean c ok (n\<lparr>nd_chans := snd ?leave\<rparr>)"
    using assms hist_ops(6) [OF cleanD(2) [OF assms]] by (rule clean_fields)
  have "ok m" if "sign c (NewLeave sha t nonce (idPeerID (nd_ident n)) x ch) n1 = Inr m" "nd_ident n1 = nd_ident n" "clean c ok n1"
    for m sha t nonce x n1
    by (rule signed_ok [OF that(3,1)]) (simp_all add: that(2) NewLeave_def Let_def zero_message_def)
  then show ?thesis
    using left assms unfolding Leave_node_def Let_def Inr sum.case
    by (cases ?leave) (auto intro!: clean_System clean_inject split: option.split sum.split)
qed (simp add: Leave_node_def assms)

lemma clean_SendChat: "clean c ok n \<Longrightarrow> clean c ok (snd (SendChat uc c env t action n))"
proof -
  assume cl: "clean c ok n"
  have "ok m" if "sign c (NewChat sha ti nonce (idPeerID (nd_ident n)) x ch y a) n = Inr m" for m sha ti nonce x ch y a
    by (rule signed_ok [OF cl that]) (simp_all add: NewChat_def Let_def zero_message_def)
  then show ?thesis using cl by (auto simp: SendChat_def Let_def intro!: clean_inject split: sum.split)
qed

lemma clean_SendDirect:
  assumes "clean c ok n"
  shows "clean c ok (snd (SendDirect uc c env to t n))"
proof -
  have dm: "ok m" if "sign c (NewDirect sha ti nonce (idPeerID (nd_ident n)) x ch y) n = Inr m" for m sha ti nonce x ch y
    by (rule signed_ok [OF assms that]) (simp_all add: NewDirect_def Let_def zero_message_def)
  have put: "clean c ok ((see env i n)\<lparr>nd_peers := put_conn h (snd (Send pick msg cn)) (nd_peers (see env i n))\<rparr>)"
    if "conn_at (nd_peers n) h = Some cn" "ok msg" for i h pick msg cn
  proof -
    have "nd_peers (see env i n) = nd_peers n" by (simp add: see_def)
    then show ?thesis
      using queue_put [OF that(1) sends_Send [of ok msg, OF that(2)]] assms by (simp add: clean_fields clean_see cleanD)
  qed
  show ?thesis
    unfolding SendDirect_def Let_def
    using assms put dm by (auto intro!: clean_emit split: sum.split option.split prod.split) (metis snd_conv)+
qed

lemma clean_announce: "clean c ok n \<Longrightarrow> clean c ok (announce_nick uc c env chs n)"
  by (induction chs arbitrary: env n) (auto intro!: clean_inject dest: new_join_ok split: sum.split)

lemma clean_SetNick: "clean c ok n \<Longrightarrow> clean c ok (snd (SetNick uc c env nick n))"
proof -
  assume cl: "clean c ok n"
  have n1: "clean c ok (n\<lparr>nd_ident := (nd_ident n)\<lparr>idNickname := x\<rparr>\<rparr>)" for x
    using cl by (simp add: clean_def own_key_def id_ok_def)
  have "clean c ok (n\<lparr>nd_ident := (nd_ident n)\<lparr>idNickname := x\<rparr>, nd_chans := UpdateNick_chan p y (nd_chans n)\<rparr>)" for x p y
    using n1 hist_ops(5) [OF cleanD(2) [OF cl]] by (rule clean_fields)
  then show ?thesis using cl unfolding SetNick_def Let_def by (simp add: clean_announce clean_System clean_saves)
qed

section \<open>Dialling, aliases, input lines\<close>

lemma clean_dialOne: "clean c ok n \<Longrightarrow> clean c ok (snd (dialOne uc c de a n))"
proof -
  have "clean c ok (snd (dial_body uc c de a n))" if cl: "clean c ok n" for n
  proof -
    let ?res = "HandshakeAndAdopt uc c (dl_hs de) (nd_ident n) (Nick n) False (new_handle (nd_peers n)) (nd_peers n)"
    have "clean c ok (with_hooks c (later 4 (dl_env de)) (snd ?res) n)"
      using cl by (intro clean_with_hooks queue_handshake cleanD)
    then show ?thesis
      using cl unfolding dial_body_def
      by (cases ?res) (auto simp: Let_def intro: clean_observe split: tcp_dial.split sum.split option.split)
  qed
  then show "clean c ok n \<Longrightarrow> clean c ok (snd (dialOne uc c de a n))"
    by (simp add: dialOne_def beginDial_def endDial_def case_prod_unfold)
qed

lemma clean_dial_all: "clean c ok n \<Longrightarrow> clean c ok (snd (dial_all uc c plan as n))"
proof (induction as arbitrary: n)
  case (Cons a as)
  then have "clean c ok (snd (if dl_place (plan a) then dialOne uc c (plan a) a n else (Some Canceled, n)))"
    by (simp add: clean_dialOne)
  then show ?case using Cons.IH by (simp add: case_prod_unfold)
qed simp

lemma clean_Connect: "clean c ok n \<Longrightarrow> clean c ok (snd (Connect uc c is_ip env plan t n))"
proof -
  assume "clean c ok n"
  then have "clean c ok (snd (resolveConnectTargets uc is_ip env t n))"
    unfolding resolveConnectTargets_def Let_def
    by (auto simp: case_prod_unfold intro: clean_nearby split: sum.split list.split option.split)
  then show ?thesis
    by (cases "resolveConnectTargets uc is_ip env t n")
      (auto simp: Connect_def dialFirst_def case_prod_unfold clean_dialOne clean_dial_all split: sum.split)
qed

lemma clean_tryAutoConnect: "clean c ok n \<Longrightarrow> clean c ok (tryAutoConnect uc c is_ip env plan a n)"
  using clean_Connect [of n is_ip "later 1 (later 1 env)" plan "an_Addr a"]
  by (cases "Connect uc c is_ip (later 1 (later 1 env)) plan (an_Addr a) n")
    (auto simp: tryAutoConnect_def autoDial_def split: option.split)

lemma clean_reconnectOnce: "clean c ok n \<Longrightarrow> clean c ok (reconnectOnce uc c is_ip env plans busy n)"
proof -
  have one: "clean c ok n \<Longrightarrow> clean c ok (reconnect_one uc c is_ip env plan rec n)" for env plan rec n
    using clean_Connect [of n is_ip "later 2 env" plan "dr_PeerID rec"]
    by (cases "Connect uc c is_ip (later 2 env) plan (dr_PeerID rec) n") (auto simp: reconnect_one_def split: option.split)
  have "clean c ok n \<Longrightarrow> clean c ok (reconnect_loop uc c is_ip env plans recs n)" for recs
    by (induction recs arbitrary: env plans n) (simp_all add: one)
  then show "clean c ok n \<Longrightarrow> clean c ok (reconnectOnce uc c is_ip env plans busy n)" by (simp add: reconnectOnce_def)
qed

lemma clean_nearby_loop: "clean c ok n \<Longrightarrow> clean c ok (snd (nearby_loop uc c is_ip env plans as cnt e n))"
proof (induction as arbitrary: env plans cnt e n)
  case (Cons a as)
  then show ?case
    using clean_Connect [OF Cons.prems, of is_ip env "plans 0" "an_Addr a"]
    by (cases "Connect uc c is_ip env (plans 0) (an_Addr a) n") (auto split: option.split)
qed simp

lemma clean_aliases:
  "clean c ok n \<Longrightarrow> clean c ok (snd (setAlias uc env key name n))" "clean c ok n \<Longrightarrow> clean c ok (snd (clearAlias uc env key n))"
  by (auto simp: setAlias_def clearAlias_def intro!: clean_System clean_saves clean_observe
      simp del: Lookup_dir.simps SetAlias.simps ClearAlias.simps split: sum.split option.split prod.split)

lemma clean_HandleLine:
  assumes cl: "clean c ok n"
  shows "clean c ok (snd (HandleLine uc c ce line n))"
proof -
  note ops = clean_SendChat [OF cl] clean_Connect [OF cl] clean_disconnect [OF cl] clean_join [OF cl]
    clean_leave [OF cl] clean_SetNick [OF cl] clean_SendDirect [OF cl] clean_aliases [OF cl]
  have near: "clean c ok (snd (Nearby_node (ce_env ce) n))" using cl by (simp add: Nearby_node_def clean_nearby)
  then have "clean c ok (snd (connectNearbyVerified uc c (ce_is_ip ce) (ce_env ce) (ce_plans ce) n))"
    using clean_nearby_loop by (simp add: connectNearbyVerified_def case_prod_unfold split: option.split)
  moreover have sys: "clean c ok m \<Longrightarrow> clean c ok (snd (sys s m))" for s m by (simp add: sys_def clean_System)
  ultimately have "clean c ok (snd (cmdDiscover uc c ce cmd n))" for cmd
    using near by (auto simp: cmdDiscover_def case_prod_unfold split: sum.split prod.split)
  then have "clean c ok (snd (run_command uc c ce k cmd n))" for k cmd
    by (cases k)
      (simp_all add: cl ops sys usage_def ran_def cmdChat_def cmdHelp_def cmdConnect_def cmdDisconnect_def cmdPeers_def
        cmdJoin_def cmdLeave_def cmdChannels_def cmdNick_def cmdMe_def cmdMsg_def cmdWhoami_def cmdAlias_def cmdUnalias_def
        cmdKnown_def cmdAddr_def cmdVersion_def cmdStats_def cmdNames_def cmdQuit_def Let_def)
  then show ?thesis by (simp add: HandleLine_def Let_def)
qed

lemma clean_step: "node_step uc c n n' \<Longrightarrow> clean c ok n \<Longrightarrow> clean c ok n'"
proof (induction rule: node_step.induct)
  case (Write n h w)
  then show ?case by (intro clean_fields queue_on sends_ops cleanD)
next
  case (Tick n h sha nonce now)
  then show ?case by (intro clean_fields queue_on sends_ops cleanD)
next
  case (TakeEvent n i)
  then show ?case
    by (auto simp: take_event_def events_clean_def clean_def dest!: list.set_sel(2) subsetD [OF set_update_subset_insert])
next
  case (Shook n hs inb)
  then show ?case by (intro clean_fields queue_handshake cleanD)
next
  case (Ended n h)
  then show ?case by (intro clean_fields queue_ops cleanD)
qed (simp_all add: clean_conn_read clean_inbound clean_HandleLine clean_tryAutoConnect clean_reconnectOnce clean_saves seen_tick_def
    clean_nat clean_subscribe clean_close clean_on_event)

lemma clean_reach: "node_reach uc c n \<Longrightarrow> clean c ok n"
proof (induction rule: node_reach.induct)
  case (Started fjoin dir ifaces listened multicast cfg ident n)
  from Start_fields [OF Started.hyps(1)] obtain cfg port l nick lim x where
    f: "nd_events n = []" "nd_peers n = SetAdvertiseAddrs l (start_peers cfg (nd_ident n) port)"
      "nd_chans n = snd (Join_chan ''#general'' nick (NewManager (idPeerID (nd_ident n)) lim))" "nd_ident n = ident\<lparr>idNickname := x\<rparr>"
    by blast
  have "conn_at (start_peers cfg i port) h = None" for i h
    by (simp add: start_peers_def SetMaxPeers_def NewPeerManager_def EnableTLS_def SetListenPort_def SetReplaceHook_def SetHooks_def
        conn_at_def gm_laws Let_def)
  then have "queue_clean ok (nd_peers n)" unfolding f(2) by (intro queue_ops) (simp add: queue_clean_def)
  moreover have "hist_clean ok (nd_chans n)" unfolding f(3) by (intro hist_ops) (simp add: hist_clean_def NewManager_def gm_laws)
  moreover have "own_key c (nd_ident n)" using Started.hyps(2,3) by (simp add: f(4) own_key_def id_ok_def)
  ultimately show ?case using f(1) by (simp add: clean_def events_clean_def)
next
  case (Stepped n n')
  then show ?case using clean_step by blast
qed

end

section \<open>Authenticity is a policy\<close>

interpretation auth: policy uc c "\<lambda>m. IsRoutable (mType m) \<longrightarrow> authentic uc c m" for uc c
proof unfold_locales
  fix m m'
  show "IsRoutable (mType m) \<longrightarrow> authentic uc c m" if "VerifySignature uc c (Some m) = None" "speaks_for uc c m"
    using that authenticI by blast
  assume m: "IsRoutable (mType m) \<longrightarrow> authentic uc c m" "IsRoutable (mType m)" "Validate uc (Some m) = (None, Some m')"
  then show "IsRoutable (mType m') \<longrightarrow> authentic uc c m'" using authentic_routed by blast
qed simp

section \<open>Properties\<close>

text \<open>
  C1. Nothing is shown, stored or passed on but what was verified: in every reachable state of the
  process, for every chat, join or leave message in an event for a subscriber, in the history of a
  channel or in the queue of a connection, the sender id in lower case is the digest of the message's
  public key, and the signature verifies for the message as it came in. A direct message verifies as it
  is; the channel of any other message may since have been rewritten to its normal form, and then the
  signature it carries verifies for the channel before that only (C10 shows such a message). The process
  starts with a consistent identity whose key signs what its public half verifies.
\<close>

theorem only_authentic_messages:
  assumes "node_reach uc c n"
  shows "(\<forall>q \<in> set (nd_events n). \<forall>ev \<in> set q. \<forall>m. ev_Msg ev = Some m \<and> IsRoutable (mType m) \<longrightarrow> authentic uc c m)
    \<and> (\<forall>name ch. gm_get (cm_joined (nd_chans n)) name = Some ch \<longrightarrow>
        (\<forall>m \<in> set (ch_History ch). IsRoutable (mType m) \<longrightarrow> authentic uc c m))
    \<and> (\<forall>h cn. conn_at (nd_peers n) h = Some cn \<longrightarrow> (\<forall>m \<in> set (cn_sendCh cn). IsRoutable (mType m) \<longrightarrow> authentic uc c m))"
proof (intro conjI ballI allI impI)
  note cl = auth.clean_reach [OF assms]
  show "authentic uc c m" if "q \<in> set (nd_events n)" "ev \<in> set q" "ev_Msg ev = Some m \<and> IsRoutable (mType m)" for q ev m
    using cleanD(1) [OF cl] that by (auto simp: events_clean_def dest!: bspec)
qed (use cleanD(2,3) [OF auth.clean_reach [OF assms]] in \<open>auto simp: hist_clean_def queue_clean_def\<close>)

end
