(* ===== verification/NodeChat.thy ===== *)
theory NodeChat
  imports NodeAuth
begin

text \<open>
  A line of chat from one node to another: what \<open>SendChat\<close> queues on the connections and shows locally,
  what the receiving node does with the frame, and what happens to a text over the limit.
\<close>

section \<open>Definitions\<close>

text \<open>The message \<open>SendChat\<close> signs.\<close>

definition chat_draft :: "crypto \<Rightarrow> nenv \<Rightarrow> string \<Rightarrow> string \<Rightarrow> bool \<Rightarrow> node \<Rightarrow> message" where
  "chat_draft c env ch t action n =
     NewChat (c_sha256 c) (e_clock env 0) (e_nonce env 0) (idPeerID (nd_ident n)) (Nick n) ch t action"

text \<open>The limiter of the receiving node lets the message pass.\<close>

definition passes_limit :: "nenv \<Rightarrow> message \<Rightarrow> node \<Rightarrow> bool" where
  "passes_limit env msg n \<longleftrightarrow>
     fst (Allow (case nd_limit n of None \<Rightarrow> [] | Some w \<Rightarrow> ranged env 0 (w_hits w)) (e_clock env 1) (sender_of msg) (nd_limit n))"

text \<open>An event that shows the message is appended to every queue with room, and the message is in the history.\<close>

definition shown :: "message \<Rightarrow> node \<Rightarrow> node \<Rightarrow> bool" where
  "shown msg n n' \<longleftrightarrow>
     (\<forall>i < length (nd_events n). length (nd_events n ! i) < eventCap \<longrightarrow>
        (\<exists>ev. ev_Kind ev = EventChat \<and> ev_Msg ev = Some msg \<and> nd_events n' ! i = nd_events n ! i @ [ev]))
     \<and> msg \<in> set (History (nd_chans n') (mChannel msg))"

section \<open>Routing an acceptable message\<close>

declare Validate.simps(2) [simp del] Handle.simps(2) [simp del]

lemma Handle_accept:
  assumes "seen_inv (rt_seen r)" "IsRoutable (mType m)" "Validate uc (Some m) = (None, Some m)" "Fresh (Some m) t1 = None"
    and "\<not> Has (rt_seen r) (mID m)"
  shows "\<exists>s. Handle uc t1 t2 (Some m) p r =
    (True, (if rt_handler r then [Deliver m p] else []) @ (if rt_sender r \<and> mTo m = [] then [Broadcast m p] else []), r\<lparr>rt_seen := s\<rparr>)"
proof -
  have "fst (Add (mID m) t2 (rt_seen r))" using assms by (simp add: Add_fst)
  then show ?thesis using assms by (cases "Add (mID m) t2 (rt_seen r)") (auto simp: Handle.simps)
qed

lemma broadcast_frame [simp]:
  "nd_events (run_effect uc env (Broadcast m p) n) = nd_events n" "nd_chans (run_effect uc env (Broadcast m p) n) = nd_chans n"
  by simp_all

lemma applyNick_frame [simp]:
  "nd_events (applyNick env p nick n) = nd_events n" "nd_closed (applyNick env p nick n) = nd_closed n"
  "nd_ident (applyNick env p nick n) = nd_ident n"
  by (simp_all add: applyNick_def)

lemma Joined_applyNick [simp]: "Joined (nd_chans (applyNick env p nick n)) ch = Joined (nd_chans n) ch"
  by (simp add: applyNick_def Joined_def UpdateNick_chan_def gm_has_def go_simps)

lemma chan_inv_applyNick: "chan_inv (nd_chans n) \<Longrightarrow> chan_inv (nd_chans (applyNick env p nick n))"
  by (simp add: applyNick_def chan_inv_nick)

lemma History_add:
  assumes "chan_inv m" "Joined m (mChannel msg)" "mChannel msg \<noteq> []"
  shows "msg \<in> set (History (AddHistory (Some msg) m) (mChannel msg)) \<and> Joined (AddHistory (Some msg) m) (mChannel msg)"
proof -
  obtain ch where ch: "gm_get (cm_joined m) (mChannel msg) = Some ch" using assms(2) by (auto simp: Joined_def gm_has_def)
  have "0 < cm_histLim m" using assms(1) by (simp add: chan_inv_def)
  then have "msg \<in> set (keep_last (cm_histLim m) (ch_History ch @ [msg]))" by (auto simp: keep_last_def)
  then show ?thesis using ch assms(3) by (simp add: History_def Joined_def gm_has_def gm_laws)
qed

lemma onRouted_chat_shown:
  assumes "chan_inv (nd_chans n)" "Joined (nd_chans n) (mChannel msg)" "mChannel msg \<noteq> []" "mTo msg = []" "\<not> nd_closed n"
  shows "shown msg n (onRouted_chat env msg n)"
proof -
  let ?n = "applyNick env (mSender msg) (mNickname msg) n"
  let ?n1 = "?n\<lparr>nd_chans := AddHistory (Some msg) (nd_chans ?n)\<rparr>"
  have h: "msg \<in> set (History (nd_chans ?n1) (mChannel msg))" "Joined (nd_chans ?n1) (mChannel msg)"
    using History_add [of "nd_chans ?n" msg] assms chan_inv_applyNick by simp_all
  have r: "onRouted_chat env msg n = emit (chat_event msg ?n1) ?n1"
    using assms h(2) by (simp add: onRouted_chat_def Let_def del: AddHistory.simps)
  have "nd_events (emit (chat_event msg ?n1) ?n1) = map (offer (chat_event msg ?n1)) (nd_events n)"
    "nd_chans (emit (chat_event msg ?n1) ?n1) = nd_chans ?n1"
    using assms(5) by (simp_all add: emit_eq del: AddHistory.simps)
  moreover have "ev_Kind (chat_event msg ?n1) = EventChat" "ev_Msg (chat_event msg ?n1) = Some msg" by (simp_all add: chat_event_def)
  ultimately show ?thesis using h(1) unfolding shown_def r by (auto simp: offer_def simp del: AddHistory.simps)
qed

section \<open>Broadcasting\<close>

lemma fold_on_conn_at:
  "distinct hs \<Longrightarrow> h \<in> set hs \<Longrightarrow> conn_at (fold (\<lambda>h. on_conn h (F h)) hs m) h = map_option (F h) (conn_at m h)"
proof (induction hs arbitrary: m)
  case (Cons k hs)
  have other: "h \<notin> set hs \<Longrightarrow> conn_at (fold (\<lambda>h. on_conn h (F h)) hs m) h = conn_at m h" for m
    by (induction hs arbitrary: m) (auto simp: conn_at_on)
  show ?case
  proof (cases "h = k")
    case True
    then show ?thesis using Cons.prems other by (simp add: conn_at_on)
  next
    case False
    then have "conn_at (fold (\<lambda>h. on_conn h (F h)) hs (on_conn k (F k) m)) h = map_option (F h) (conn_at (on_conn k (F k) m) h)"
      using Cons by simp
    then show ?thesis using False by (simp add: conn_at_on)
  qed
qed simp

lemma handles_distinct:
  assumes "peer_inv m" "distinct ps"
  shows "distinct (List.map_filter (gm_get (pm_conns m)) ps)"
  using assms(2)
proof (induction ps)
  case (Cons p ps)
  have "h \<notin> set (List.map_filter (gm_get (pm_conns m)) ps)" if h: "gm_get (pm_conns m) p = Some h" for h
  proof
    assume "h \<in> set (List.map_filter (gm_get (pm_conns m)) ps)"
    then obtain q where q: "q \<in> set ps" "gm_get (pm_conns m) q = Some h" by (auto simp: List.map_filter_def)
    obtain cn cn' where "conn_at m h = Some cn" "pi_ID (cn_info cn) = p" "conn_at m h = Some cn'" "pi_ID (cn_info cn') = q"
      using inv_connD [OF assms(1) h] inv_connD [OF assms(1) q(2)] by metis
    then show False using q(1) Cons.prems by auto
  qed
  then show ?case using Cons by (auto simp: List.map_filter_def split: option.splits)
qed (simp add: List.map_filter_def)

lemma Broadcast_queues:
  assumes "table_good m" "env_ok env" "gm_get (pm_conns m) p = Some h" "conn_at m h = Some cn" "p \<noteq> ex"
    and "\<not> cn_done cn" "length (cn_sendCh cn) < sendCap"
  shows "\<exists>cn'. conn_at (Broadcast_peers (ranged env k (pm_conns m)) pick msg ex m) h = Some cn'
    \<and> cn_sendCh cn' = cn_sendCh cn @ [msg]"
proof -
  let ?hs = "List.map_filter (gm_get (pm_conns m)) (filter (\<lambda>p. p \<noteq> ex) (ranged env k (pm_conns m)))"
  have ord: "range_order (pm_conns m) (ranged env k (pm_conns m))"
    using assms(1,2) by (intro ranged_order) (auto simp: table_good_def peer_inv_def)
  then have "distinct ?hs" using assms(1) by (intro handles_distinct) (auto simp: table_good_def range_order_def)
  moreover have "h \<in> set ?hs"
    using assms(3,5) ord by (force simp: List.map_filter_def range_order_set dest: range_order_set)
  ultimately have "conn_at (Broadcast_peers (ranged env k (pm_conns m)) pick msg ex m) h = Some (broadcast_one pick msg h cn)"
    using fold_on_conn_at [of ?hs h "broadcast_one pick msg" m] assms(4) by (simp add: Broadcast_peers_def)
  then show ?thesis using assms(6,7) by (simp add: broadcast_one_def Send_def)
qed

section \<open>Sending\<close>

lemma channel_name_ne: "channel_name s \<Longrightarrow> s \<noteq> []"
  by (cases s) (simp_all add: channel_name_def)

lemma RuneCount_Nil: "RuneCount [] = 0"
  by (simp add: RuneCount_def runes_def bytes_of_def)


lemma signed_draft:
  assumes "own_key c (nd_ident n)" "sha_ok c" "channel_name ch" "t \<noteq> []" "RuneCount t \<le> MaxTextLen"
    and clock: "unixToInternal * second + second \<le> e_clock env 0" "e_clock env 0 < 2 ^ 61 * second"
  shows "\<exists>msg pk sg. sign c (chat_draft c env ch t action n) n = Inr msg
    \<and> msg = (chat_draft c env ch t action n)\<lparr>mPublicKey := pk, mSignature := sg\<rparr>
    \<and> VerifySignature uc c (Some msg) = None \<and> Validate uc (Some msg) = (None, Some msg)"
proof -
  let ?d = "chat_draft c env ch t action n"
  have own: "id_ok c (nd_ident n)" "key_ok c (idPrivateKey (nd_ident n))" using assms(1) by (simp_all add: own_key_def)
  have d: "mPublicKey ?d = []" "claimed_id ?d = idPeerID (nd_ident n)" "mType ?d = TypeChat" "mChannel ?d = ch" "mText ?d = t"
    "mSender ?d = idPeerID (nd_ident n)" "mTo ?d = []" "mTimestamp ?d = unix_of (e_clock env 0)" "length (mID ?d) = 64"
    using NewID_length [OF assms(2)] by (auto simp: chat_draft_def NewChat_def Let_def claimed_id_def zero_message_def)
  have "length (idPrivateKey (nd_ident n)) = PrivateKeySize" using own(1) by (simp add: id_ok_def)
  then obtain msg where s: "Sign c (idPrivateKey (nd_ident n)) (Some ?d) = Inr msg" by (auto simp: Let_def simp del: SignBytes.simps)
  then obtain pk sg where m: "msg = ?d\<lparr>mPublicKey := pk, mSignature := sg\<rparr>" using Sign_shape by blast
  have "VerifySignature uc c (Some msg) = None"
  proof (rule Sign_verifies [OF own(2) _ _ s])
    show "mPublicKey ?d = [] \<or> mPublicKey ?d = hex_encode (ed_public (idPrivateKey (nd_ident n)))" using d by simp
    show "ToLower uc (claimed_id ?d) = DerivePeerID c (ed_public (idPrivateKey (nd_ident n)))"
      using own(1) d(2) by (simp add: id_ok_def go_simps)
  qed
  moreover have "Validate uc (Some msg) = (None, Some msg)"
  proof -
    have "unix_of (e_clock env 0) \<noteq> 0" using Fresh_unix_of(2) [OF clock d(8), of "e_clock env 0"] by (simp add: MaxFutureSkew_def MaxPastSkew_def second_def)
    moreover have "idPeerID (nd_ident n) \<noteq> []" using idPeerID_length [OF assms(2) own(1)] by auto
    moreover have "ch \<noteq> []" using assms(3) by (rule channel_name_ne)
    moreover have "mID ?d \<noteq> []" "length (mID ?d) \<le> MaxIDLen" using d(9) by (auto simp: size_defs)
    moreover have "msg\<lparr>mChannel := ch\<rparr> = msg" using d(4) m by simp
    ultimately show ?thesis
      using d assms(4,5) NormalizeChannel_id [OF assms(3), of uc]
      unfolding Validate_ok_iff
      by (simp add: m ValidateEnvelope.simps validate_type_def validate_chat_def validate_text_def type_defs)
  qed
  ultimately show ?thesis using s m by (auto simp: sign_def)
qed

lemma queue_applyNick:
  assumes "conn_at (nd_peers n) h = Some cn"
  shows "\<exists>cn'. conn_at (nd_peers (applyNick env p nick n)) h = Some cn' \<and> cn_sendCh cn' = cn_sendCh cn \<and> cn_done cn' = cn_done cn"
  using assms by (auto simp: applyNick_def UpdateNick_peer_def conn_at_on split: option.split)

lemma pm_conns_applyNick [simp]: "pm_conns (nd_peers (applyNick env p nick n)) = pm_conns (nd_peers n)"
  by (simp add: applyNick_def UpdateNick_peer_def split: option.split)

lemma onRouted_chat_peers: "nd_peers (onRouted_chat env msg n) = nd_peers (applyNick env (mSender msg) (mNickname msg) n)"
  by (simp add: onRouted_chat_def Let_def emit_eq del: AddHistory.simps)

lemma later_simps [simp]:
  "e_clock (later k env) i = e_clock env (k + i)" "e_nonce (later k env) i = e_nonce env (k + i)"
  "e_range (later k env) i = e_range env (k + i)" "e_pick (later k env) i = e_pick env (k + i)"
  by (simp_all add: later_def)

lemma inject_route: "inject uc env msg n = route uc env msg [] n"
  by (simp add: inject_def route_def Inject_def)

lemma route_queues:
  assumes inv: "table_good (nd_peers n)" "seen_inv (rt_seen (nd_router n))" and env: "env_ok env" and rt: "rt_handler (nd_router n)" "rt_sender (nd_router n)"
    and msg: "mType msg = TypeChat" "mTo msg = []" "Validate uc (Some msg) = (None, Some msg)" "Fresh (Some msg) (e_clock env 2) = None"
      "\<not> Has (rt_seen (nd_router n)) (mID msg)"
    and cn: "gm_get (pm_conns (nd_peers n)) p = Some h" "conn_at (nd_peers n) h = Some cn" "\<not> cn_done cn"
      "length (cn_sendCh cn) < sendCap" "p \<noteq> from"
  shows "\<exists>cn'. conn_at (nd_peers (route uc env msg from n)) h = Some cn' \<and> cn_sendCh cn' = cn_sendCh cn @ [msg]"
proof -
  obtain s where h: "Handle uc (e_clock env 2) (e_clock env 3) (Some msg) from (nd_router n)
      = (True, [Deliver msg from, Broadcast msg from], (nd_router n)\<lparr>rt_seen := s\<rparr>)"
    using Handle_accept [of "nd_router n" msg uc] inv(2) msg rt by (fastforce simp: IsRoutable_def)
  let ?n0 = "n\<lparr>nd_router := (nd_router n)\<lparr>rt_seen := s\<rparr>\<rparr>"
  let ?n1 = "onRouted uc env msg from ?n0"
  have inj: "route uc env msg from n = run_effect uc env (Broadcast msg from) ?n1"
    by (simp add: route_def h del: Handle.simps)
  have peers: "nd_peers ?n1 = nd_peers (applyNick env (mSender msg) (mNickname msg) ?n0)"
    using msg(1) by (simp add: onRouted_def onRouted_chat_peers)
  obtain cn1 where cn1: "conn_at (nd_peers ?n1) h = Some cn1" "cn_sendCh cn1 = cn_sendCh cn" "cn_done cn1 = cn_done cn"
    using queue_applyNick [of ?n0 h cn env "mSender msg" "mNickname msg"] cn(2) peers by auto
  have good: "table_good (nd_peers ?n0)" using inv(1) by simp
  then have good1: "table_good (nd_peers ?n1)"
    unfolding peers by (auto simp: applyNick_def intro: table_good_nick)
  have reg: "gm_get (pm_conns (nd_peers ?n1)) p = Some h" using cn(1) peers by simp
  from Broadcast_queues [OF good1 env reg cn1(1) cn(5), of 1 "e_pick env 1" msg] show ?thesis
    using cn(3,4) cn1(2,3) unfolding inj by simp
qed

lemma registered_ne: "node_inv uc c n \<Longrightarrow> gm_get (pm_conns (nd_peers n)) p = Some h \<Longrightarrow> p \<noteq> []"
  using node_invD(1) by (auto simp: table_good_def)

lemma onPeerMessage_route:
  assumes "mType msg = TypeChat" "VerifySignature uc c (Some msg) = None" "Fresh (Some msg) (e_clock env 0) = None"
    and "conn_at (nd_peers n) k = Some cb" "passes_limit env msg n"
  shows "\<exists>w. onPeerMessage uc c env k msg n = route uc env msg (pi_ID (cn_info cb)) (n\<lparr>nd_limit := w\<rparr>)"
proof -
  define w where "w = Allow (case nd_limit n of None \<Rightarrow> [] | Some w \<Rightarrow> ranged env 0 (w_hits w)) (e_clock env 1) (sender_of msg) (nd_limit n)"
  have "fst w" using assms(5) by (simp add: w_def passes_limit_def)
  then have "onPeerMessage uc c env k msg n = route uc env msg (pi_ID (cn_info cb)) (n\<lparr>nd_limit := snd w\<rparr>)"
    using assms by (simp add: onPeerMessage_def IsRoutable_def type_defs w_def case_prod_unfold Let_def del: Allow.simps)
  then show ?thesis by blast
qed

lemma inject_stores:
  assumes inv: "node_inv uc c n" and "rt_handler (nd_router n)" "\<not> nd_closed n"
    and msg: "mType msg = TypeChat" "mTo msg = []" "Validate uc (Some msg) = (None, Some msg)" "Fresh (Some msg) (e_clock env 2) = None"
      "\<not> Has (rt_seen (nd_router n)) (mID msg)" "Joined (nd_chans n) (mChannel msg)" "mChannel msg \<noteq> []"
  shows "msg \<in> set (History (nd_chans (inject uc env msg n)) (mChannel msg))"
proof -
  define effs where "effs = (if rt_sender (nd_router n) then [Broadcast msg []] else [])"
  obtain s where h: "Handle uc (e_clock env 2) (e_clock env 3) (Some msg) [] (nd_router n)
      = (True, Deliver msg [] # effs, (nd_router n)\<lparr>rt_seen := s\<rparr>)"
    using Handle_accept [OF node_invD(2) [OF inv] _ msg(3-5), of "e_clock env 3" "[]"] msg(1,2) assms(2)
    by (auto simp: IsRoutable_def effs_def simp del: Handle.simps)
  let ?n = "n\<lparr>nd_router := (nd_router n)\<lparr>rt_seen := s\<rparr>\<rparr>"
  have "shown msg ?n (onRouted_chat env msg ?n)"
    using onRouted_chat_shown [of ?n msg env] node_invD(3) [OF inv] msg assms(3) by simp
  moreover have "inject uc env msg n = fold (run_effect uc env) effs (onRouted_chat env msg ?n)"
    using msg(1) by (simp add: inject_def Inject_def h onRouted_def del: Handle.simps)
  ultimately show ?thesis by (simp add: shown_def effs_def)
qed

section \<open>An authentic message\<close>

text \<open>The example of \<open>only_authentic_messages\<close>: the line of a user in a fresh process is in its history, signed.\<close>

lemma History_mem: "m \<in> set (History cm name) \<longleftrightarrow> (\<exists>ch. gm_get (cm_joined cm) name = Some ch \<and> m \<in> set (ch_History ch))"
  by (cases "gm_get (cm_joined cm) name") (simp_all add: History_def)

lemma sample_hello_stored:
  "\<exists>m. m \<in> set (History (nd_chans (snd (HandleLine sample_uc toy_crypto sample_cmd_env ''hello'' (sample_node CHR ''k'')))) ''#general'')
     \<and> IsRoutable (mType m)"
proof -
  let ?n = "sample_node CHR ''k''" and ?t = "''hello''"
  have t: "TrimRight ?t [CHR 0x0D, CHR 0x0A] = ?t" by (simp add: TrimRight_def)
  have ck: "clocks_ok (e_clock sample_nenv i) (e_clock sample_nenv j)" for i j using sample_clocks by (simp add: sample_nenv_def)
  then have c0: "unixToInternal * second + second \<le> e_clock sample_nenv 0" "e_clock sample_nenv 0 < 2 ^ 61 * second"
    by (simp_all add: clocks_ok_def)
  have own: "own_key toy_crypto (nd_ident ?n)" unfolding sample_node_fields(1) own_key_def using sample_ident_ok by blast
  have ch: "channel_name ''#general''" by (simp add: channel_name_def)
  have len: "RuneCount ?t \<le> MaxTextLen" by (simp add: RuneCount_def runes_ascii ascii_def bytes_of_def size_defs)
  obtain msg pk sg where m: "sign toy_crypto (chat_draft toy_crypto sample_nenv ''#general'' ?t False ?n) ?n = Inr msg"
    "msg = (chat_draft toy_crypto sample_nenv ''#general'' ?t False ?n)\<lparr>mPublicKey := pk, mSignature := sg\<rparr>"
    "Validate sample_uc (Some msg) = (None, Some msg)"
    using signed_draft [OF own toy_sha ch _ len c0, of False sample_uc] by blast
  have d: "mType msg = TypeChat" "mTo msg = []" "mChannel msg = ''#general''" "mTimestamp msg = unix_of (e_clock sample_nenv 0)"
    by (simp_all add: m(2) chat_draft_def NewChat_def Let_def zero_message_def)
  have "Fresh (Some msg) (e_clock (later 4 sample_nenv) 2) = None"
    using Fresh_unix_of(1) [OF c0 d(4)] ck by (simp add: clocks_ok_def)
  moreover have "\<not> Has (rt_seen (nd_router ?n)) (mID msg)"
    by (simp add: sample_node_fields New_def NewSeenStore_def Has_def gm_has_def gm_laws)
  moreover have "rt_handler (nd_router ?n)" by (simp add: sample_node_fields New_def)
  ultimately have "msg \<in> set (History (nd_chans (inject sample_uc (later 4 sample_nenv) msg ?n)) ''#general'')"
    using inject_stores [OF reach_inv [OF sample_node_reach], where msg = msg and env = "later 4 sample_nenv"] d m(3) sample_node_fields(4,7) by simp
  moreover have "snd (HandleLine sample_uc toy_crypto sample_cmd_env ?t ?n) = inject sample_uc (later 4 sample_nenv) msg ?n"
    using m(1) by (simp add: HandleLine_def Parse_def Let_def t TrimSpace_id is_space_def HasPrefix_def cmdChat_def ran_def
        SendChat_def sample_node_fields chat_draft_def sample_cmd_env_def)
  ultimately show ?thesis using d(1) by (auto simp: IsRoutable_def)
qed

theorem only_authentic_messages_witness:
  "\<exists>m. m \<in> set (History (nd_chans (snd (HandleLine sample_uc toy_crypto sample_cmd_env ''hello'' (sample_node CHR ''k'')))) ''#general'')
     \<and> authentic sample_uc toy_crypto m"
proof -
  have "env_ok (ce_env sample_cmd_env)" using sample_env_ok by (simp add: sample_cmd_env_def)
  then have "node_reach sample_uc toy_crypto (snd (HandleLine sample_uc toy_crypto sample_cmd_env ''hello'' (sample_node CHR ''k'')))"
    using sample_node_reach node_step.Line by (blast intro: node_reach.Stepped)
  note reach = this
  obtain m where m: "m \<in> set (History (nd_chans (snd (HandleLine sample_uc toy_crypto sample_cmd_env ''hello'' (sample_node CHR ''k'')))) ''#general'')"
    "IsRoutable (mType m)" using sample_hello_stored by blast
  then obtain ch where "gm_get (cm_joined (nd_chans (snd (HandleLine sample_uc toy_crypto sample_cmd_env ''hello'' (sample_node CHR ''k''))))) ''#general''
      = Some ch" "m \<in> set (ch_History ch)" unfolding History_mem by blast
  then have "authentic sample_uc toy_crypto m" using only_authentic_messages [OF reach] m(2) by blast
  with m(1) show ?thesis by blast
qed

section \<open>Properties\<close>

text \<open>
  C3. A line of chat reaches the neighbours: when a node sends a text of allowed length to its current
  channel, the signed message is appended to the queue of every live connection with room, and a
  neighbour that has joined the channel and handles this frame while its clock agrees, its limiter
  lets the sender pass and the id is not in its duplicate cache, shows it: every subscriber with room
  in its queue gets a chat event with the message, and the message is in the history of the channel.
  Both nodes are in states that satisfy the invariant.
\<close>

theorem chat_reaches_neighbour:
  assumes crypt: "sha_ok c" "own_key c (nd_ident a)"
    and inv: "node_inv uc c a" "node_inv uc c b" and env: "env_ok envA"
    and rt: "rt_handler (nd_router a)" "rt_sender (nd_router a)" "rt_handler (nd_router b)"
    and chan: "channel_name (Current (nd_chans a))" "Joined (nd_chans b) (Current (nd_chans a))"
    and len: "TrimRight line [CHR 0x0D, CHR 0x0A] \<noteq> []" "RuneCount (TrimRight line [CHR 0x0D, CHR 0x0A]) \<le> MaxTextLen"
    and clocks: "clocks_ok (e_clock envA 0) (e_clock envA 6)" "clocks_ok (e_clock envA 0) (e_clock envB 0)"
      "clocks_ok (e_clock envA 0) (e_clock envB 2)"
    and new: "draft = chat_draft c envA (Current (nd_chans a)) (TrimRight line [CHR 0x0D, CHR 0x0A]) action a"
      "\<not> Has (rt_seen (nd_router a)) (mID draft)" "\<not> Has (rt_seen (nd_router b)) (mID draft)"
    and conn: "gm_get (pm_conns (nd_peers a)) p = Some h" "conn_at (nd_peers a) h = Some cn" "\<not> cn_done cn"
      "length (cn_sendCh cn) < sendCap"
    and recv: "conn_at (nd_peers b) k = Some cb" "\<not> nd_closed b" "passes_limit envB draft b"
  shows "\<exists>msg a' cn'. SendChat uc c envA line action a = (None, a')
    \<and> conn_at (nd_peers a') h = Some cn' \<and> cn_sendCh cn' = cn_sendCh cn @ [msg]
    \<and> mSender msg = idPeerID (nd_ident a) \<and> mText msg = TrimRight line [CHR 0x0D, CHR 0x0A]
    \<and> shown msg b (onPeerMessage uc c envB k msg b)"
proof -
  let ?t = "TrimRight line [CHR 0x0D, CHR 0x0A]" and ?ch = "Current (nd_chans a)"
  have ck: "unixToInternal * second + second \<le> e_clock envA 0" "e_clock envA 0 < 2 ^ 61 * second"
    using clocks(1) by (simp_all add: clocks_ok_def)
  obtain msg pk sg where m: "sign c draft a = Inr msg" "msg = draft\<lparr>mPublicKey := pk, mSignature := sg\<rparr>"
    "VerifySignature uc c (Some msg) = None" "Validate uc (Some msg) = (None, Some msg)"
    using signed_draft [OF crypt(2,1) chan(1) len ck, of action uc] new(1) by blast
  have d: "mType msg = TypeChat" "mTo msg = []" "mChannel msg = ?ch" "mID msg = mID draft" "mText msg = ?t"
    "mSender msg = idPeerID (nd_ident a)" "mTimestamp msg = unix_of (e_clock envA 0)" "sender_of msg = sender_of draft"
    by (simp_all add: m(2) new(1) chat_draft_def NewChat_def Let_def zero_message_def sender_of_def)
  have fresh: "Fresh (Some msg) now = None" if "clocks_ok (e_clock envA 0) now" for now
    using Fresh_unix_of(1) [OF ck d(7)] that by (simp add: clocks_ok_def)
  have ne: "?ch \<noteq> []" using chan(1) by (rule channel_name_ne)
  have send: "SendChat uc c envA line action a = (None, inject uc (later 4 envA) msg a)"
    using ne len(1) m(1) new(1) by (simp add: SendChat_def Let_def chat_draft_def)
  obtain cn' where q: "conn_at (nd_peers (inject uc (later 4 envA) msg a)) h = Some cn'" "cn_sendCh cn' = cn_sendCh cn @ [msg]"
    using route_queues [OF node_invD(1) [OF inv(1)] node_invD(2) [OF inv(1)] env_ok_later [OF env, of 4] rt(1,2) d(1,2) m(4) _ _ conn registered_ne [OF inv(1) conn(1)]]
      fresh [OF clocks(1)] new(2) d(4) by (auto simp: inject_route)
  have "passes_limit envB msg b" using recv(3) d(8) by (simp add: passes_limit_def)
  then obtain w where on: "onPeerMessage uc c envB k msg b = route uc envB msg (pi_ID (cn_info cb)) (b\<lparr>nd_limit := w\<rparr>)"
    using onPeerMessage_route [OF d(1) m(3) fresh [OF clocks(2)] recv(1)] by blast
  let ?b = "b\<lparr>nd_limit := w\<rparr>"
  define effs where "effs = (if rt_sender (nd_router b) then [Broadcast msg (pi_ID (cn_info cb))] else [])"
  obtain s where hd: "Handle uc (e_clock envB 2) (e_clock envB 3) (Some msg) (pi_ID (cn_info cb)) (nd_router b)
      = (True, Deliver msg (pi_ID (cn_info cb)) # effs, (nd_router b)\<lparr>rt_seen := s\<rparr>)"
    using Handle_accept [OF node_invD(2) [OF inv(2)] _ m(4) fresh [OF clocks(3)], of "e_clock envB 3" "pi_ID (cn_info cb)"]
      d(1,2,4) new(3) rt(3) by (auto simp: IsRoutable_def effs_def simp del: Handle.simps)
  let ?b1 = "?b\<lparr>nd_router := (nd_router b)\<lparr>rt_seen := s\<rparr>\<rparr>"
  have "shown msg ?b1 (onRouted_chat envB msg ?b1)"
    using onRouted_chat_shown [of ?b1 msg envB] node_invD(3) [OF inv(2)] chan(2) d(2,3) ne recv(2) by simp
  moreover have "onPeerMessage uc c envB k msg b = fold (run_effect uc envB) effs (onRouted_chat envB msg ?b1)"
    unfolding on route_def using hd d(1) by (simp add: onRouted_def del: Handle.simps)
  ultimately have "shown msg b (onPeerMessage uc c envB k msg b)" by (auto simp: shown_def effs_def)
  then show ?thesis using send q d(5,6) by blast
qed

text \<open>
  C22. A text over the limit disappears without an error: when the text of a chat line has more than 4096
  characters, SendChat reports success, but the node is unchanged; nothing is queued for any peer,
  stored or shown.
\<close>

theorem oversized_chat_is_dropped:
  assumes "node_inv uc c n" "Current (nd_chans n) \<noteq> []" "RuneCount (TrimRight line [CHR 0x0D, CHR 0x0A]) > MaxTextLen"
  shows "SendChat uc c env line action n = (None, n)"
proof -
  let ?d = "chat_draft c env (Current (nd_chans n)) (TrimRight line [CHR 0x0D, CHR 0x0A]) action n"
  have ne: "TrimRight line [CHR 0x0D, CHR 0x0A] \<noteq> []" using assms(3) RuneCount_Nil by force
  have "length (idPrivateKey (nd_ident n)) = PrivateKeySize" using node_invD(7) [OF assms(1)] by (simp add: id_ok_def)
  then obtain msg where s: "sign c ?d n = Inr msg" by (auto simp: sign_def Let_def simp del: SignBytes.simps)
  then obtain pk sg where m: "msg = ?d\<lparr>mPublicKey := pk, mSignature := sg\<rparr>" using Sign_shape unfolding sign_def by blast
  have "fst (Validate uc (Some msg)) \<noteq> None"
  proof
    assume "fst (Validate uc (Some msg)) = None"
    moreover obtain e m' ch where "Validate uc (Some msg) = (e, Some m')" "m' = msg\<lparr>mChannel := ch\<rparr>" by (rule Validate_result)
    ultimately have "validate_chat uc msg = (None, m')"
      by (simp add: Validate_ok_iff m validate_type_def chat_draft_def NewChat_def Let_def type_defs del: Validate.simps)
    then show False
      using assms(3) by (auto simp: validate_chat_def validate_text_def m chat_draft_def NewChat_def Let_def zero_message_def
          split: if_splits sum.splits)
  qed
  then have "\<not> accepts uc t msg (nd_router n)" for t by (simp add: accepts_def del: Validate.simps)
  then have "inject uc (later 4 env) msg n = n"
    using Handle_reject [OF node_invD(2) [OF assms(1)]] by (simp add: inject_def Inject_def del: Handle.simps)
  then show ?thesis using assms(2) ne s by (simp add: SendChat_def Let_def chat_draft_def)
qed

theorem oversized_chat_is_dropped_witness:
  "SendChat sample_uc toy_crypto sample_nenv (replicate 4097 CHR ''x'') False (sample_node CHR ''k'') = (None, sample_node CHR ''k'')"
proof (rule oversized_chat_is_dropped [OF reach_inv [OF sample_node_reach]])
  show "Current (nd_chans (sample_node CHR ''k'')) \<noteq> []" by (simp add: sample_node_fields)
  have "TrimRight (replicate 4097 CHR ''x'') [CHR 0x0D, CHR 0x0A] = replicate 4097 CHR ''x''"
    by (simp add: TrimRight_def dropWhile_replicate)
  then show "RuneCount (TrimRight (replicate 4097 CHR ''x'') [CHR 0x0D, CHR 0x0A]) > MaxTextLen"
    by (simp add: RuneCount_def runes_ascii ascii_def bytes_of_def size_defs)
qed

theorem chat_reaches_neighbour_witness:
  "\<exists>msg a' cn'. SendChat sample_uc toy_crypto sample_nenv ''hi'' False (sample_linked CHR ''k'' ''bob'') = (None, a')
    \<and> conn_at (nd_peers a') 1 = Some cn' \<and> cn_sendCh cn' = [msg] \<and> mText msg = ''hi''
    \<and> shown msg (sample_linked CHR ''j'' ''ann'')
        (onPeerMessage sample_uc toy_crypto sample_nenv 1 msg (sample_linked CHR ''j'' ''ann''))"
proof -
  let ?a = "sample_linked CHR ''k'' ''bob''" and ?b = "sample_linked CHR ''j'' ''ann''"
  have a: "nd_ident ?a = sample_ident CHR ''k''" "nd_router ?a = New True True (24 * 3600 * 10 ^ 9) 50000"
    "Current (nd_chans ?a) = ''#general''" "gm_get (pm_conns (nd_peers ?a)) ''bob'' = Some 1"
    "conn_at (nd_peers ?a) 1 = Some (sample_conn ''bob'' False)"
    by (simp_all add: sample_linked_def Subscribe_def sample_node_fields conn_at_def put_conn_def gm_laws)
  have b: "nd_router ?b = New True True (24 * 3600 * 10 ^ 9) 50000" "Joined (nd_chans ?b) ''#general''" "\<not> nd_closed ?b"
    "nd_limit ?b = Some (NewWindow 30 second)" "conn_at (nd_peers ?b) 1 = Some (sample_conn ''ann'' False)"
    by (simp_all add: sample_linked_def Subscribe_def sample_node_fields conn_at_def put_conn_def gm_laws)
  have seen: "\<not> Has (rt_seen (New True True (24 * 3600 * 10 ^ 9) 50000)) i" for i
    by (simp add: New_def NewSeenStore_def Has_def gm_has_def gm_laws)
  have lim: "passes_limit sample_nenv m ?b" for m
    by (simp add: passes_limit_def b(4) hits_of_def gm_laws) (simp add: NewWindow_def)
  have t: "TrimRight ''hi'' [CHR 0x0D, CHR 0x0A] = ''hi''" by (simp add: TrimRight_def)
  have len: "RuneCount ''hi'' \<le> MaxTextLen" by (simp add: RuneCount_def runes_ascii ascii_def bytes_of_def size_defs)
  have ch: "channel_name ''#general''" by (simp add: channel_name_def)
  have clocks: "clocks_ok (e_clock sample_nenv i) (e_clock sample_nenv j)" for i j using sample_clocks by (simp add: sample_nenv_def)
  have own: "own_key toy_crypto (nd_ident ?a)" unfolding a(1) own_key_def using sample_ident_ok by blast
  have inv: "node_inv sample_uc toy_crypto ?a" "node_inv sample_uc toy_crypto ?b" by (simp_all add: sample_linked_inv)
  have q: "\<not> cn_done (sample_conn ''bob'' False)" "cn_sendCh (sample_conn ''bob'' False) = []" by (simp_all add: sample_conn_def)
  have rt: "rt_handler (nd_router ?a)" "rt_sender (nd_router ?a)" "rt_handler (nd_router ?b)" by (simp_all add: a(2) b(1) New_def)
  show ?thesis
    using chat_reaches_neighbour [OF toy_sha own inv sample_env_ok rt _ _ _ _ clocks clocks clocks refl _ _ a(4,5) q(1) _ b(5,3) lim,
      where line = "''hi''" and action = False]
    unfolding t a(2,3) b(1) q(2) using ch b(2) len seen by (auto simp: sendCap_def)
qed

end
