(* ===== verification/NodeFrame.thy ===== *)
theory NodeFrame
  imports NodeInv
begin

text \<open>
  What no operation of a node changes: its configuration, its keys and peer id, its port, and, but for \<^verbatim>\<open>Close\<close>
  and \<^verbatim>\<open>Subscribe\<close>, whether it is closed and how many subscribers it has. One equation per operation, collected in \<open>frame_simps\<close>.
\<close>

section \<open>Definitions\<close>

named_theorems frame_simps \<open>operations of the node that keep its frame\<close>

definition id_keys :: "identity \<Rightarrow> string \<times> string \<times> string" where
  "id_keys i = (idPrivateKey i, idPublicKey i, idPeerID i)"

definition constants :: "node \<Rightarrow> config \<times> (string \<times> string \<times> string) \<times> int \<times> string" where
  "constants n = (nd_cfg n, id_keys (nd_ident n), nd_port n, nd_host n)"

definition frame :: "node \<Rightarrow> bool \<times> nat \<times> config \<times> (string \<times> string \<times> string) \<times> int \<times> string" where
  "frame n = (nd_closed n, length (nd_events n), constants n)"

text \<open>A node as it goes on: not closed in between, with the same constants and at least the same subscribers.\<close>

definition goes_on :: "node \<Rightarrow> node \<Rightarrow> bool" where
  "goes_on n n' \<longleftrightarrow>
     nd_closed n' = nd_closed n \<and> length (nd_events n) \<le> length (nd_events n') \<and> constants n' = constants n"

section \<open>Updates\<close>

lemma frame_updates [frame_simps]:
  "frame (n\<lparr>nd_peers := a\<rparr>) = frame n" "frame (n\<lparr>nd_chans := b\<rparr>) = frame n" "frame (n\<lparr>nd_router := d\<rparr>) = frame n"
  "frame (n\<lparr>nd_disc := e\<rparr>) = frame n" "frame (n\<lparr>nd_dir := f\<rparr>) = frame n" "frame (n\<lparr>nd_limit := g\<rparr>) = frame n"
  "frame (n\<lparr>nd_backoff := h\<rparr>) = frame n" "frame (n\<lparr>nd_addrs := i\<rparr>) = frame n" "frame (n\<lparr>nd_stunUDP := j\<rparr>) = frame n"
  "frame (n\<lparr>nd_stunDone := k\<rparr>) = frame n" "frame (n\<lparr>nd_upnpExt := l\<rparr>) = frame n" "frame (n\<lparr>nd_upnpMap := m\<rparr>) = frame n"
  "frame (n\<lparr>nd_handshakes := p\<rparr>) = frame n" "frame (n\<lparr>nd_dialing := q\<rparr>) = frame n"
  "length r = length (nd_events n) \<Longrightarrow> frame (n\<lparr>nd_events := r\<rparr>) = frame n"
  "frame (n\<lparr>nd_ident := (nd_ident n)\<lparr>idNickname := s\<rparr>\<rparr>) = frame n"
  by (simp_all add: frame_def constants_def id_keys_def)

text \<open>To see that all branches agree, the frame is pushed into them and the rest is left as it is.\<close>

lemma case_same: "case_option a (\<lambda>x. a) p = a" "case_sum (\<lambda>x. b) (\<lambda>y. b) q = b" "(case r of (x, y) \<Rightarrow> d) = d"
  by (simp_all split: option.split sum.split prod.split)

lemmas frame_cases = if_distrib [of frame] option.case_distrib [of frame] sum.case_distrib [of frame] prod.case_distrib [of frame]
  if_cancel case_same

lemma frame_fold: "(\<And>x n. frame (f x n) = frame n) \<Longrightarrow> frame (fold f xs n) = frame n"
  by (induction xs arbitrary: n) simp_all

lemma id_keys_save: "id_keys (fst (snd (Save_id e t i))) = id_keys i"
  by (auto simp: Save_id_def toRecord_def id_keys_def Let_def split: option.splits)

lemma frame_small [frame_simps]:
  "frame (emit ev n) = frame n" "frame (System t n) = frame n" "frame (observePeer env i n) = frame n"
  "frame (applyNick env p nick n) = frame n" "frame (see env x n) = frame n" "frame (save_dir env n) = frame n"
  "frame (save_ident env n) = frame n" "frame (seen_tick now n) = frame n" "frame (refreshAdvertise ifaces n) = frame n"
  by (simp_all add: emit_eq System_def observePeer_def applyNick_def see_def save_dir_def seen_tick_def refreshAdvertise_def
      frame_updates Let_def) (simp add: save_ident_def frame_def constants_def id_keys_save)

lemma frame_nearby [frame_simps]:
  "frame (snd (nearbySnapshot env n)) = frame n" "frame (snd (Nearby_node env n)) = frame n"
  by (simp_all add: nearbySnapshot_def Nearby_node_def frame_updates split: option.split prod.split)

lemma frame_ping [frame_simps]: "frame (answer_ping c env h n) = frame n"
  by (simp add: answer_ping_def frame_updates Let_def split: option.split prod.split)

lemma frame_nat [frame_simps]: "frame (trySTUN txid exchange n) = frame n" "frame (snd (tryUPnP ifaces uenv n)) = frame n"
proof -
  show "frame (trySTUN txid exchange n) = frame n"
    by (simp add: trySTUN_def frame_updates frame_small Let_def split: sum.split)
  show "frame (snd (tryUPnP ifaces uenv n)) = frame n"
    unfolding tryUPnP_def Let_def by (simp add: frame_updates frame_small split: sum.split list.split prod.split)
qed

lemma frame_take [frame_simps]: "frame (snd (take_event k n)) = frame n"
  by (simp add: take_event_def frame_updates)

section \<open>Messages\<close>

lemma frame_onRouted [frame_simps]: "frame (onRouted uc env msg p n) = frame n"
proof -
  have "frame (onRouted_chat env msg n) = frame n" "frame (onRouted_join uc env msg n) = frame n" "frame (onRouted_leave uc msg n) = frame n"
    unfolding onRouted_chat_def onRouted_join_def onRouted_leave_def Let_def by (simp_all only: frame_cases frame_simps)
  then show ?thesis by (simp add: onRouted_def)
qed

lemma frame_effects: "frame (fold (run_effect uc env) effs n) = frame n"
proof (rule frame_fold)
  show "frame (run_effect uc env e n) = frame n" for e n by (cases e) (simp_all add: frame_simps)
qed

lemma frame_messages [frame_simps]:
  "frame (route uc env msg p n) = frame n" "frame (inject uc env msg n) = frame n"
  "frame (onPeerMessage uc c env h msg n) = frame n"
  by (simp_all add: route_def inject_def onPeerMessage_def frame_effects frame_simps Let_def split: prod.split option.split)

lemma frame_resync [frame_simps]: "frame (resyncJoins c env p n) = frame n"
proof -
  have "frame (resync_loop c env p chs n) = frame n" for chs
    by (induction c env p chs n rule: resync_loop.induct) (simp_all add: resync_one_def frame_simps Let_def split: sum.split)
  then show ?thesis by (simp add: resyncJoins_def)
qed

lemma frame_on_event [frame_simps]: "frame (on_event c env ev n) = frame n"
  by (cases ev) (simp_all add: onPeerUp_def onPeerReplace_def onPeerDown_def frame_simps Let_def)

lemma frame_with_hooks [frame_simps]: "frame (with_hooks c env res n) = frame n"
  by (simp add: with_hooks_def frame_simps frame_fold split: prod.split)

lemma frame_inbound [frame_simps]:
  "frame (conn_read uc c env h now r n) = frame n" "frame (adoptInbound uc c env hs n) = frame n"
  by (simp_all add: conn_read_def adoptInbound_def acquire_handshake_def release_handshake_def handleInbound_def frame_simps Let_def
      split: option.split prod.split)

section \<open>User operations\<close>

lemma frame_user [frame_simps]:
  "frame (snd (Disconnect_node uc env key n)) = frame n" "frame (snd (Join_node uc c env name n)) = frame n"
  "frame (snd (Leave_node uc c env name n)) = frame n" "frame (snd (SendChat uc c env t action n)) = frame n"
  "frame (snd (SendDirect uc c env to t n)) = frame n" "frame (snd (clearAlias uc env key n)) = frame n"
  by (simp_all add: Disconnect_node_def Join_node_def Leave_node_def SendChat_def SendDirect_def clearAlias_def
      frame_simps Let_def split: option.split prod.split sum.split)

lemma frame_setAlias [frame_simps]: "frame (snd (setAlias uc env key name n)) = frame n"
  unfolding setAlias_def by (auto simp: frame_simps split: option.split prod.split sum.split)

lemma frame_SetNick [frame_simps]: "frame (snd (SetNick uc c env nick n)) = frame n"
proof -
  have "frame (announce_nick uc c env chs n) = frame n" for env chs n
    by (induction uc c env chs n rule: announce_nick.induct) (simp_all add: frame_simps split: sum.split)
  then show ?thesis by (simp add: SetNick_def frame_simps Let_def)
qed

lemma frame_dial [frame_simps]:
  "frame (snd (dialOne uc c de a n)) = frame n" "frame (snd (dial_all uc c plan as n)) = frame n"
proof -
  have b: "frame (snd (dial_body uc c de a n)) = frame n" for de a n
    by (simp add: dial_body_def frame_simps Let_def split: tcp_dial.split prod.split sum.split option.split)
  show one: "frame (snd (dialOne uc c de a n)) = frame n" for de a n
  proof -
    obtain err n2 where r: "dial_body uc c de a (n\<lparr>nd_dialing := gm_put a () (nd_dialing n)\<rparr>) = (err, n2)" by force
    then have "frame n2 = frame n" using b [of de a "n\<lparr>nd_dialing := gm_put a () (nd_dialing n)\<rparr>"] by (simp add: frame_simps)
    then show ?thesis using r by (simp add: dialOne_def beginDial_def endDial_def frame_simps)
  qed
  show "frame (snd (dial_all uc c plan as n)) = frame n"
  proof (induction as arbitrary: n)
    case (Cons a as)
    show ?case using Cons one [of "plan a" a n] by (auto split: prod.split) (metis snd_conv)+
  qed simp
qed

lemma frame_Connect [frame_simps]: "frame (snd (Connect uc c is_ip env plan t n)) = frame n"
proof -
  have "frame (snd (resolveConnectTargets uc is_ip env t n)) = frame n"
    using frame_nearby(1) [of env n]
    by (auto simp: resolveConnectTargets_def Let_def split: sum.split list.split prod.split option.split)
  then show ?thesis
    by (auto simp: Connect_def dialFirst_def split: prod.split sum.split) (metis frame_dial snd_conv)+
qed

lemma frame_Connect_result: "Connect uc c is_ip env plan t n = (err, n1) \<Longrightarrow> frame n1 = frame n"
  using frame_Connect [of uc c is_ip env plan t n] by simp

lemma frame_auto [frame_simps]:
  "frame (tryAutoConnect uc c is_ip env plan a n) = frame n" "frame (reconnectOnce uc c is_ip env plans busy n) = frame n"
  "frame (snd (nearby_loop uc c is_ip env plans as cnt e n)) = frame n"
proof -
  have dial: "frame (autoDial uc c is_ip env plan p addr n) = frame n" for env p addr
    by (auto simp: autoDial_def frame_simps dest: frame_Connect_result split: prod.split option.split)
  then show "frame (tryAutoConnect uc c is_ip env plan a n) = frame n" by (simp add: tryAutoConnect_def)
  have "frame (reconnect_one uc c is_ip env plan rec n) = frame n" for env plan rec n
    by (auto simp: reconnect_one_def frame_simps dest: frame_Connect_result split: prod.split option.split)
  then have "frame (reconnect_loop uc c is_ip env plans recs n) = frame n" for recs
    by (induction uc c is_ip env plans recs n rule: reconnect_loop.induct) simp_all
  then show "frame (reconnectOnce uc c is_ip env plans busy n) = frame n" by (simp add: reconnectOnce_def)
  show "frame (snd (nearby_loop uc c is_ip env plans as cnt e n)) = frame n"
  proof (induction as arbitrary: env plans cnt e n)
    case (Cons a as)
    show ?case using Cons by (auto dest: frame_Connect_result split: prod.split option.split)
  qed simp
qed

lemma frame_discover: "frame (snd (connectNearbyVerified uc c is_ip env plans n)) = frame n"
proof -
  obtain l n1 where l: "Nearby_node env n = (l, n1)" by force
  obtain cnt e n2 where r: "nearby_loop uc c is_ip (later 1 env) plans l 0 None n1 = ((cnt, e), n2)" by (metis prod.collapse)
  have "frame n1 = frame n" "frame n2 = frame n1"
    using frame_nearby(2) [of env n] frame_auto(3) [of uc c is_ip "later 1 env" plans l 0 None n1] unfolding l r by simp_all
  then show ?thesis unfolding connectNearbyVerified_def l r prod.case by (simp split: option.split)
qed

lemma frame_HandleLine [frame_simps]: "frame (snd (HandleLine uc c ce line n)) = frame n"
proof -
  have out: "frame (snd (ran r)) = frame (snd r)" "frame (snd (sys t n)) = frame n" "frame (snd (usage t n)) = frame n" for r t n
    by (simp_all add: ran_def sys_def usage_def frame_simps split: prod.split)
  have d: "frame (snd (cmdDiscover uc c ce cmd n)) = frame n" for cmd
    using frame_discover [of uc c "ce_is_ip ce" "ce_env ce" "ce_plans ce" n] frame_nearby(2) [of "ce_env ce" n]
    by (auto simp: cmdDiscover_def out split: prod.split sum.split)
  have "frame (snd (run_command uc c ce k cmd n)) = frame n" for k cmd
    by (cases k) (simp_all add: d out frame_simps cmdChat_def cmdHelp_def cmdConnect_def cmdDisconnect_def cmdPeers_def cmdJoin_def cmdLeave_def
        cmdChannels_def cmdNick_def cmdMe_def cmdMsg_def cmdWhoami_def cmdAlias_def cmdUnalias_def cmdKnown_def cmdAddr_def
        cmdVersion_def cmdStats_def cmdNames_def cmdQuit_def Let_def)
  then show ?thesis by (simp add: HandleLine_def Let_def)
qed

section \<open>Steps\<close>

lemma constants_Close: "constants (snd (Close_node uenv env n)) = constants n"
proof -
  have "constants (save_ident env m) = constants m" "constants (save_dir env m) = constants m" for m
    using frame_small(6,7) [of env m] by (simp_all add: frame_def)
  then show ?thesis by (simp add: Close_node_def Let_def) (simp add: constants_def)
qed

lemma step_frame:
  "node_step uc c n n' \<Longrightarrow>
     frame n' = frame n \<or> n' = snd (Subscribe n) \<or> (\<exists>uenv env. n' = snd (Close_node uenv env n))"
  by (induction rule: node_step.induct) (auto simp: frame_simps)

lemma frame_goes_on: "frame n' = frame n \<Longrightarrow> goes_on n n'"
  by (simp add: frame_def goes_on_def)

lemma goes_on_trans [trans]: "goes_on a b \<Longrightarrow> goes_on b d \<Longrightarrow> goes_on a d"
  by (auto simp: goes_on_def)

lemma goes_on_refl [simp]: "goes_on n n"
  by (simp add: goes_on_def)

lemma Subscribe_goes_on: "goes_on n (snd (Subscribe n))"
  by (simp add: Subscribe_def goes_on_def constants_def)

lemma Close_closed: "nd_closed (snd (Close_node uenv env n))" "nd_closed n \<Longrightarrow> snd (Close_node uenv env n) = n"
  by (simp_all add: Close_node_def Let_def save_ident_def save_dir_def)

lemma step_goes_on:
  assumes "node_step uc c n n'" "nd_closed n' = nd_closed n"
  shows "goes_on n n'"
proof -
  consider "frame n' = frame n" | "n' = snd (Subscribe n)" | uenv env where "n' = snd (Close_node uenv env n)"
    using step_frame [OF assms(1)] by blast
  then show ?thesis
  proof cases
    case 3
    then show ?thesis using Close_closed assms(2) by (metis goes_on_refl)
  qed (simp_all add: frame_goes_on Subscribe_goes_on)
qed

end
