(* ===== verification/Codec.thy ===== *)
theory Codec
  imports Peer
begin

text \<open>
  \<^verbatim>\<open>src/internal/protocol/codec.go\<close>: one message per line on a connection, and how the loops of a connection
  use it. \<^verbatim>\<open>encoding/json\<close> is a pair of arguments, \<open>marshal\<close> and \<open>unmarshal\<close>. The input of a reader is what
  is left of the byte stream together with how it ends; \<^verbatim>\<open>bufio.Reader.ReadSlice\<close> is written out for a
  buffer of \<open>B\<close> bytes (at least 16, as \<^verbatim>\<open>bufio\<close> makes it), over a source whose error comes after its
  last byte.
\<close>

section \<open>Definitions\<close>

datatype codec_err = EncNil | EncJson | ErrTooLarge | ErrWrite | ErrMalformed | UnexpectedEOF | EndOfStream | ErrRead

datatype stream_end = AtEOF | AtError

datatype slice_end = SliceLine | SliceFull | SliceEnd

fun Encode :: "(message \<Rightarrow> string option) \<Rightarrow> message option \<Rightarrow> codec_err + string" where
  "Encode marshal None = Inl EncNil"
| "Encode marshal (Some m) =
     (case marshal m of
        None \<Rightarrow> Inl EncJson
      | Some d \<Rightarrow> if length d > MaxMessageSize then Inl ErrTooLarge else Inr (d @ [CHR 0x0A]))"

text \<open>\<^verbatim>\<open>Write\<close>: the error and the bytes that went out; \<open>sock\<close> says whether the socket took them.\<close>

definition Write :: "(message \<Rightarrow> string option) \<Rightarrow> bool \<Rightarrow> message option \<Rightarrow> codec_err option \<times> string" where
  "Write marshal sock m =
     (case Encode marshal m of
        Inl e \<Rightarrow> (Some e, [])
      | Inr d \<Rightarrow> if sock then (None, d) else (Some ErrWrite, []))"

definition bufSize :: "nat \<Rightarrow> nat" where
  "bufSize B = max 16 B"

definition ReadSlice :: "nat \<Rightarrow> string \<Rightarrow> string \<times> slice_end \<times> string" where
  "ReadSlice B s =
     (let B1 = bufSize B in
      case index_byte (take B1 s) CHR 0x0A of
        Some i \<Rightarrow> (take (Suc i) s, SliceLine, drop (Suc i) s)
      | None \<Rightarrow> if length s \<ge> B1 then (take B1 s, SliceFull, drop B1 s) else (s, SliceEnd, []))"

text \<open>How much of a slice remains without its line end.\<close>

definition line_len :: "string \<Rightarrow> nat" where
  "line_len part =
     (let n = length part in
      if n > 0 \<and> part ! (n - 1) = CHR 0x0A
      then (if n - 1 > 0 \<and> part ! (n - 2) = CHR 0x0D then n - 2 else n - 1)
      else n)"

function readLineLimited :: "nat \<Rightarrow> stream_end \<Rightarrow> int \<Rightarrow> string \<Rightarrow> string \<Rightarrow> (codec_err + string) \<times> string" where
  "readLineLimited B e mx buf s =
     (case ReadSlice B s of
        (part, err, rest) \<Rightarrow>
          if int (length buf + length part) > mx + 1 then (Inl ErrTooLarge, rest)
          else
            (case err of
               SliceFull \<Rightarrow> readLineLimited B e mx (buf @ part) rest
             | SliceEnd \<Rightarrow>
                 (Inl (if e = AtEOF then (if length buf + length part > 0 then UnexpectedEOF else EndOfStream) else ErrRead), rest)
             | SliceLine \<Rightarrow>
                 (let buf1 = buf @ take (line_len part) part in
                  if int (length buf1) > mx then (Inl ErrTooLarge, rest) else (Inr buf1, rest))))"
  by pat_completeness auto
termination
  by (relation "measure (\<lambda>(B, e, mx, buf, s). length s)") (auto simp: ReadSlice_def bufSize_def Let_def split: option.splits if_splits)

declare readLineLimited.simps [simp del]

definition Read ::
  "(string \<Rightarrow> message option) \<Rightarrow> nat \<Rightarrow> stream_end \<Rightarrow> int \<Rightarrow> string \<Rightarrow> (codec_err + message) \<times> string" where
  "Read unmarshal B e mx0 s =
     (let mx = (if mx0 \<le> 0 then int MaxMessageSize else mx0) in
      case readLineLimited B e mx [] s of
        (Inl err, rest) \<Rightarrow> (Inl err, rest)
      | (Inr line0, rest) \<Rightarrow>
          (let line = TrimSpace line0 in
           if line = [] then (Inl ErrMalformed, rest)
           else
             (case unmarshal line of
                None \<Rightarrow> (Inl ErrMalformed, rest)
              | Some m \<Rightarrow> if ValidateEnvelope (Some m) \<noteq> None then (Inl ErrMalformed, rest) else (Inr m, rest))))"

text \<open>What the read loop of a connection sees, and the first \<open>n\<close> reads of a stream.\<close>

fun as_read_result :: "codec_err + message \<Rightarrow> read_result" where
  "as_read_result (Inr m) = ReadMsg m"
| "as_read_result (Inl e) = (if e = ErrMalformed then ReadMalformed else ReadFailed)"

fun read_frames ::
  "(string \<Rightarrow> message option) \<Rightarrow> nat \<Rightarrow> stream_end \<Rightarrow> int \<Rightarrow> nat \<Rightarrow> string \<Rightarrow> (codec_err + message) list" where
  "read_frames unmarshal B e mx 0 s = []"
| "read_frames unmarshal B e mx (Suc n) s =
     (case Read unmarshal B e mx s of (r, rest) \<Rightarrow> r # read_frames unmarshal B e mx n rest)"

text \<open>The branch of the write loop that takes a queued message, with \<^verbatim>\<open>writeMsg\<close>.\<close>

definition write_msg :: "(message \<Rightarrow> string option) \<Rightarrow> bool \<Rightarrow> conn \<Rightarrow> string \<times> conn" where
  "write_msg marshal sock c =
     (case cn_sendCh c of
        [] \<Rightarrow> ([], c)
      | m # q \<Rightarrow> (case Write marshal sock (Some m) of (err, bytes) \<Rightarrow> (bytes, snd (write_next (err = None) c))))"

fun write_all :: "(message \<Rightarrow> string option) \<Rightarrow> nat \<Rightarrow> conn \<Rightarrow> string \<times> conn" where
  "write_all marshal 0 c = ([], c)"
| "write_all marshal (Suc n) c =
     (if cn_done c then ([], c)
      else (case write_msg marshal True c of (out, c1) \<Rightarrow> (case write_all marshal n c1 of (out2, c2) \<Rightarrow> (out @ out2, c2))))"

text \<open>
  A reference for \<open>readLineLimited\<close> that does not mention the buffer, except for the carriage return of a
  line end that falls on the boundary of two buffers and is then kept.
\<close>

definition line_ref :: "nat \<Rightarrow> stream_end \<Rightarrow> int \<Rightarrow> string \<Rightarrow> codec_err + string" where
  "line_ref B e mx s =
     (let line = takeWhile (\<lambda>ch. ch \<noteq> CHR 0x0A) s in
      if CHR 0x0A \<in> set s then
        (if int (length line) > mx then Inl ErrTooLarge
         else Inr (if bufSize B dvd length line then line else dropCR line))
      else if int (length s) > mx + 1 then Inl ErrTooLarge
      else if e = AtError then Inl ErrRead
      else if s = [] then Inl EndOfStream
      else Inl UnexpectedEOF)"

section \<open>Lines\<close>

lemma bufSize_pos [simp]: "0 < bufSize B"
  by (simp add: bufSize_def)

lemma index_byte_first: "index_byte s ch = Some i \<longleftrightarrow> i = length (takeWhile (\<lambda>x. x \<noteq> ch) s) \<and> ch \<in> set s"
  by (induction s arbitrary: i) auto

lemma takeWhile_short: "ch \<in> set s \<Longrightarrow> length (takeWhile (\<lambda>x. x \<noteq> ch) s) < length s"
  by (induction s) auto

lemma ReadSlice_cases:
  fixes s defines "line \<equiv> takeWhile (\<lambda>ch. ch \<noteq> CHR 0x0A) s"
  obtains (line) "CHR 0x0A \<in> set s" "length line < bufSize B"
      "ReadSlice B s = (line @ [CHR 0x0A], SliceLine, drop (Suc (length line)) s)"
  | (full) "CHR 0x0A \<notin> set (take (bufSize B) s)" "bufSize B \<le> length s"
      "ReadSlice B s = (take (bufSize B) s, SliceFull, drop (bufSize B) s)"
  | (ended) "CHR 0x0A \<notin> set s" "length s < bufSize B" "ReadSlice B s = (s, SliceEnd, [])"
proof (cases "index_byte (take (bufSize B) s) CHR 0x0A")
  case None
  then have nl: "CHR 0x0A \<notin> set (take (bufSize B) s)" by (simp add: index_byte_None)
  show thesis
  proof (cases "bufSize B \<le> length s")
    case True
    then show thesis using None nl by (intro full) (simp_all add: ReadSlice_def Let_def)
  next
    case False
    then have lt: "length s < bufSize B" by (simp only: not_le)
    then have "ReadSlice B s = (s, SliceEnd, [])" using None by (simp add: ReadSlice_def Let_def)
    then show thesis using nl lt by (intro ended) simp_all
  qed
next
  case (Some i)
  have tw: "takeWhile (\<lambda>ch. ch \<noteq> CHR 0x0A) (take (bufSize B) s) = line" if "CHR 0x0A \<in> set (take (bufSize B) s)"
    using takeWhile_append1 [of "CHR 0x0A" "take (bufSize B) s" "\<lambda>ch. ch \<noteq> CHR 0x0A" "drop (bufSize B) s"] that
    by (simp add: line_def)
  from Some have i: "i = length line" "CHR 0x0A \<in> set (take (bufSize B) s)" by (auto simp: index_byte_first tw)
  then have mem: "CHR 0x0A \<in> set s" by (meson in_set_takeD)
  have lt: "length line < length (take (bufSize B) s)"
    using takeWhile_short [OF i(2)] tw [OF i(2)] by simp
  obtain ys zs where s: "s = ys @ CHR 0x0A # zs" "CHR 0x0A \<notin> set ys" using split_list_first [OF mem] by blast
  then have "line = ys" by (auto simp: line_def takeWhile_tail)
  then have "take (Suc i) s = line @ [CHR 0x0A]" using s(1) i(1) by simp
  then show thesis using Some i mem lt by (intro line) (simp_all add: ReadSlice_def Let_def)
qed

lemma take_line_len:
  "CHR 0x0A \<notin> set line \<Longrightarrow> take (line_len (line @ [CHR 0x0A])) (line @ [CHR 0x0A]) = dropCR line"
  by (cases line rule: rev_cases) (simp_all add: line_len_def dropCR_def Let_def nth_append)

lemma length_dropCR: "length (dropCR l) \<le> length l"
  by (simp add: dropCR_def)

lemma readLine_line:
  fixes s defines "line \<equiv> takeWhile (\<lambda>ch. ch \<noteq> CHR 0x0A) s"
  assumes "ReadSlice B s = (line @ [CHR 0x0A], SliceLine, rest)"
  shows "readLineLimited B e mx buf s = (if int (length buf + length line) > mx then Inl ErrTooLarge else Inr (buf @ dropCR line), rest)"
proof -
  have nl: "CHR 0x0A \<notin> set line" by (auto simp: line_def dest: set_takeWhileD)
  show ?thesis
    unfolding readLineLimited.simps [of B e mx buf s] assms(2) prod.case slice_end.case take_line_len [OF nl] Let_def
    using length_dropCR [of line] by simp
qed

lemma readLine_full:
  assumes "ReadSlice B s = (part, SliceFull, rest)"
  shows "readLineLimited B e mx buf s =
    (if int (length buf + length part) > mx + 1 then (Inl ErrTooLarge, rest) else readLineLimited B e mx (buf @ part) rest)"
  by (simp add: readLineLimited.simps [of B e mx buf s] assms)

lemma readLine_end:
  assumes "ReadSlice B s = (s, SliceEnd, rest)"
  shows "readLineLimited B e mx buf s =
    (Inl (if int (length buf + length s) > mx + 1 then ErrTooLarge else if e = AtError then ErrRead
          else if buf @ s = [] then EndOfStream else UnexpectedEOF), rest)"
  unfolding readLineLimited.simps [of B e mx buf s] assms by (cases e) auto

text \<open>The reference with the part of the line that was read already.\<close>

definition line_after :: "nat \<Rightarrow> stream_end \<Rightarrow> int \<Rightarrow> string \<Rightarrow> string \<Rightarrow> codec_err + string" where
  "line_after B e mx buf s =
     (let line = takeWhile (\<lambda>ch. ch \<noteq> CHR 0x0A) s in
      if CHR 0x0A \<in> set s then
        (if int (length buf + length line) > mx then Inl ErrTooLarge
         else Inr (buf @ (if bufSize B dvd length line then line else dropCR line)))
      else if int (length buf + length s) > mx + 1 then Inl ErrTooLarge
      else if e = AtError then Inl ErrRead
      else if buf @ s = [] then Inl EndOfStream
      else Inl UnexpectedEOF)"

lemma line_after_skip:
  assumes "CHR 0x0A \<notin> set part" "length part = bufSize B"
  shows "line_after B e mx buf (part @ rest) =
    (if int (length buf + length part) > mx + 1 then Inl ErrTooLarge else line_after B e mx (buf @ part) rest)"
proof -
  let ?l = "takeWhile (\<lambda>ch. ch \<noteq> CHR 0x0A) rest"
  have tw: "takeWhile (\<lambda>ch. ch \<noteq> CHR 0x0A) (part @ rest) = part @ ?l" using assms(1) by (subst takeWhile_append2) auto
  have "bufSize B dvd length (part @ ?l) \<longleftrightarrow> bufSize B dvd length ?l" unfolding length_append assms(2) by simp
  moreover have "dropCR (part @ ?l) = part @ dropCR ?l" if "\<not> bufSize B dvd length ?l"
  proof -
    have "?l \<noteq> []" using that by (metis dvd_0_right list.size(3))
    then show ?thesis by (simp add: dropCR_def butlast_append)
  qed
  moreover have "length part \<noteq> 0" using assms(2) bufSize_pos [of B] by linarith
  moreover from this have "buf @ part \<noteq> []" by simp
  ultimately show ?thesis
    using assms(1) unfolding line_after_def tw Let_def by (auto simp: algebra_simps)
qed

lemma readLine_spec:
  "fst (readLineLimited B e mx buf s) = line_after B e mx buf s
   \<and> (\<forall>l. fst (readLineLimited B e mx buf s) = Inr l
        \<longrightarrow> snd (readLineLimited B e mx buf s) = drop (Suc (length (takeWhile (\<lambda>ch. ch \<noteq> CHR 0x0A) s))) s)"
proof (induction "length s" arbitrary: buf s rule: less_induct)
  case less
  let ?line = "takeWhile (\<lambda>ch. ch \<noteq> CHR 0x0A) s" and ?B = "bufSize B"
  show ?case
  proof (cases B s rule: ReadSlice_cases)
    case line
    have "?B dvd length ?line \<longleftrightarrow> ?line = []" using line(2) by (auto dest: dvd_imp_le)
    then show ?thesis
      using line(1) by (auto simp: readLine_line [OF line(3)] line_after_def Let_def dropCR_def)
  next
    case full
    let ?p = "take ?B s" and ?r = "drop ?B s"
    have sp: "?p @ ?r = s" and lt: "length ?p = ?B" using full(2) by simp_all
    have tw: "?line = ?p @ takeWhile (\<lambda>ch. ch \<noteq> CHR 0x0A) ?r"
      using full(1) by (subst sp [symmetric], subst takeWhile_append2) auto
    have "length ?r < length s" using full(2) bufSize_pos [of B] unfolding length_drop by linarith
    note IH = less [OF this, of "buf @ ?p"]
    have "drop (Suc (length ?line)) s = drop (Suc (length (takeWhile (\<lambda>ch. ch \<noteq> CHR 0x0A) ?r))) ?r"
      unfolding tw length_append lt by (simp add: add.commute)
    then show ?thesis
      using IH line_after_skip [OF full(1) lt, of e mx buf ?r] unfolding sp readLine_full [OF full(3)] by auto
  next
    case ended
    then show ?thesis by (auto simp: readLine_end [OF ended(3)] line_after_def)
  qed
qed

lemma line_ref_after: "line_ref B e mx s = line_after B e mx [] s"
  by (simp add: line_ref_def line_after_def Let_def)

section \<open>Frames\<close>

text \<open>
  What is used of \<^verbatim>\<open>encoding/json\<close> for one message: it is printed as an object on one line (control
  characters are escaped) of allowed length and parsed back.
\<close>

definition frame_ok :: "(message \<Rightarrow> string option) \<Rightarrow> (string \<Rightarrow> message option) \<Rightarrow> message \<Rightarrow> bool" where
  "frame_ok marshal unmarshal m \<longleftrightarrow>
     (\<exists>body. marshal m = Some (''{'' @ body @ ''}'') \<and> CHR 0x0A \<notin> set body \<and> length body + 2 \<le> MaxMessageSize
        \<and> unmarshal (''{'' @ body @ ''}'') = Some m)
     \<and> ValidateEnvelope (Some m) = None"

lemma TrimSpace_object: "TrimSpace (''{'' @ body @ ''}'') = ''{'' @ body @ ''}''"
  by (rule TrimSpace_id) (auto simp: is_space_def)

lemma readLine_line_ok:
  assumes "CHR 0x0A \<notin> set line" "last line \<noteq> CHR 0x0D" "int (length line) \<le> mx"
  shows "readLineLimited B e mx [] (line @ CHR 0x0A # rest) = (Inr line, rest)"
proof -
  have tw: "takeWhile (\<lambda>ch. ch \<noteq> CHR 0x0A) (line @ CHR 0x0A # rest) = line"
    using assms(1) by (auto simp: takeWhile_tail)
  then have "line_after B e mx [] (line @ CHR 0x0A # rest) = Inr line"
    using assms(2,3) by (simp add: line_after_def dropCR_def)
  then show ?thesis
    using readLine_spec [of B e mx "[]" "line @ CHR 0x0A # rest"] by (simp add: tw prod_eq_iff)
qed

lemma Read_frame:
  assumes "frame_ok marshal unmarshal m" "mx \<le> 0 \<or> int MaxMessageSize \<le> mx"
  shows "\<exists>d. Encode marshal (Some m) = Inr d \<and> Read unmarshal B e mx (d @ rest) = (Inr m, rest)"
proof -
  obtain body where b: "marshal m = Some (''{'' @ body @ ''}'')" "CHR 0x0A \<notin> set body" "length body + 2 \<le> MaxMessageSize"
    "unmarshal (''{'' @ body @ ''}'') = Some m" "ValidateEnvelope (Some m) = None"
    using assms(1) unfolding frame_ok_def by blast
  let ?line = "''{'' @ body @ ''}''" and ?mx = "if mx \<le> 0 then int MaxMessageSize else mx"
  have "int (length ?line) \<le> ?mx" using b(3) assms(2) by auto
  then have "readLineLimited B e ?mx [] (?line @ CHR 0x0A # rest) = (Inr ?line, rest)"
    using b(2) by (intro readLine_line_ok) auto
  then have "Read unmarshal B e mx ((?line @ [CHR 0x0A]) @ rest) = (Inr m, rest)"
    using b(4,5) TrimSpace_object [of body] unfolding Read_def Let_def by simp
  moreover have "Encode marshal (Some m) = Inr (?line @ [CHR 0x0A])" using b(1,3) by simp
  ultimately show ?thesis by blast
qed

lemma Read_end: "Read unmarshal B AtEOF mx [] = (Inl EndOfStream, [])"
proof -
  have "ReadSlice B [] = ([], SliceEnd, [])" using bufSize_pos [of B] by (simp add: ReadSlice_def Let_def del: bufSize_pos)
  then have "readLineLimited B AtEOF l [] [] = (Inl (if 0 > l + 1 then ErrTooLarge else EndOfStream), [])" for l
    by (simp add: readLine_end)
  then show ?thesis by (simp add: Read_def Let_def)
qed

lemma write_all_frames:
  assumes "\<forall>m \<in> set ms. frame_ok marshal unmarshal m" "mx \<le> 0 \<or> int MaxMessageSize \<le> mx" "cn_sendCh c = ms" "\<not> cn_done c"
  shows "\<exists>out. write_all marshal (length ms) c = (out, c\<lparr>cn_sendCh := []\<rparr>)
    \<and> read_frames unmarshal B AtEOF mx (length ms) out = map Inr ms
    \<and> read_frames unmarshal B AtEOF mx (Suc (length ms)) out = map Inr ms @ [Inl EndOfStream]"
  using assms
proof (induction ms arbitrary: c)
  case Nil
  then have "c\<lparr>cn_sendCh := []\<rparr> = c" by simp
  then show ?case by (simp add: Read_end)
next
  case (Cons m ms)
  from Cons.prems(1) have m: "frame_ok marshal unmarshal m" by simp
  let ?c = "c\<lparr>cn_sendCh := ms\<rparr>"
  obtain out where out: "write_all marshal (length ms) ?c = (out, ?c\<lparr>cn_sendCh := []\<rparr>)"
    "read_frames unmarshal B AtEOF mx (length ms) out = map Inr ms"
    "read_frames unmarshal B AtEOF mx (Suc (length ms)) out = map Inr ms @ [Inl EndOfStream]"
    using Cons.IH [of ?c] Cons.prems by auto
  obtain d where d: "Encode marshal (Some m) = Inr d" "Read unmarshal B AtEOF mx (d @ out) = (Inr m, out)"
    using Read_frame [OF m Cons.prems(2)] by blast
  then have "write_msg marshal True c = (d, ?c)"
    using Cons.prems(3) by (simp add: write_msg_def Write_def write_next_def Let_def del: Encode.simps)
  then have "write_all marshal (length (m # ms)) c = (d @ out, c\<lparr>cn_sendCh := []\<rparr>)" using out(1) Cons.prems(4) by simp
  moreover have "read_frames unmarshal B AtEOF mx (Suc (length (m # ms))) (d @ out) = map Inr (m # ms) @ [Inl EndOfStream]"
    "read_frames unmarshal B AtEOF mx (length (m # ms)) (d @ out) = map Inr (m # ms)"
    using d(2) out(2,3) by simp_all
  ultimately show ?case by blast
qed

lemma readLoop_messages:
  "fst (readLoop (map (\<lambda>m. (now, ReadMsg m)) ms) c) \<and> fst (snd (readLoop (map (\<lambda>m. (now, ReadMsg m)) ms) c)) = ms"
  by (induction ms arbitrary: c) (auto simp: case_prod_unfold)

section \<open>Properties\<close>

text \<open>
  C25. Reading a line does not depend on the buffer: for every buffer size, limit and input, the loop over
  ReadSlice returns what the loop-free reference returns (the line up to the limit, the error for a line
  that is too long, a truncated line or a failed read), and after a line the input goes on behind its
  newline. The carriage return before the newline is dropped except when the newline starts a new buffer.
\<close>

theorem read_line_reference:
  "fst (readLineLimited B e mx [] s) = line_ref B e mx s
   \<and> (\<forall>l. line_ref B e mx s = Inr l \<longrightarrow>
        snd (readLineLimited B e mx [] s) = drop (Suc (length (takeWhile (\<lambda>ch. ch \<noteq> CHR 0x0A) s))) s)"
  using readLine_spec [of B e mx "[]" s] by (auto simp: line_ref_after)

theorem read_line_reference_witness:
  "readLineLimited 16 AtEOF 64 [] (replicate 15 CHR ''a'' @ [CHR 0x0D, CHR 0x0A] @ ''rest'')
     = (Inr (replicate 15 CHR ''a'' @ [CHR 0x0D]), ''rest'')"
proof -
  let ?s = "replicate 15 CHR ''a'' @ [CHR 0x0D, CHR 0x0A] @ ''rest''"
  have "line_ref 16 AtEOF 64 ?s = Inr (replicate 15 CHR ''a'' @ [CHR 0x0D])"
    by (simp add: line_ref_def bufSize_def takeWhile_append takeWhile_replicate)
  moreover have "length (takeWhile (\<lambda>ch. ch \<noteq> CHR 0x0A) ?s) = 16" by (simp add: takeWhile_append takeWhile_replicate)
  ultimately show ?thesis using read_line_reference [of 16 AtEOF 64 ?s] by (simp add: prod_eq_iff)
qed

text \<open>
  C17. What one side queues the other side gets: when JSON prints and parses the queued messages, the write
  loop sends all of them and stays open, and the reader at the other end, whatever its buffer and with a
  limit of at least 64 KiB, gets exactly these messages in order and then the end of the stream; its read
  loop hands them to the node one by one.
\<close>

theorem frames_arrive_in_order:
  assumes "\<forall>m \<in> set (cn_sendCh c). frame_ok marshal unmarshal m" "mx \<le> 0 \<or> int MaxMessageSize \<le> mx" "\<not> cn_done c"
  shows "\<exists>out c'. write_all marshal (length (cn_sendCh c)) c = (out, c') \<and> cn_sendCh c' = [] \<and> \<not> cn_done c'
    \<and> read_frames unmarshal B AtEOF mx (Suc (length (cn_sendCh c))) out = map Inr (cn_sendCh c) @ [Inl EndOfStream]
    \<and> fst (snd (readLoop (map (\<lambda>r. (now, as_read_result r)) (read_frames unmarshal B AtEOF mx (length (cn_sendCh c)) out)) peer))
        = cn_sendCh c"
proof -
  let ?ms = "cn_sendCh c"
  obtain out where out: "write_all marshal (length ?ms) c = (out, c\<lparr>cn_sendCh := []\<rparr>)"
    "read_frames unmarshal B AtEOF mx (length ?ms) out = map Inr ?ms"
    "read_frames unmarshal B AtEOF mx (Suc (length ?ms)) out = map Inr ?ms @ [Inl EndOfStream]"
    using write_all_frames [OF assms(1,2) refl assms(3)] by blast
  from out(2) have loop: "map (\<lambda>r. (now, as_read_result r)) (read_frames unmarshal B AtEOF mx (length ?ms) out) = map (\<lambda>m. (now, ReadMsg m)) ?ms"
    by (simp add: comp_def)
  show ?thesis
    by (rule exI [of _ out], rule exI [of _ "c\<lparr>cn_sendCh := []\<rparr>"], unfold loop)
      (use out assms(3) readLoop_messages [of now ?ms peer] in \<open>simp del: read_frames.simps write_all.simps\<close>)
qed

theorem frames_arrive_in_order_witness:
  "\<exists>out c'. write_all (\<lambda>m. Some ''{}'') 2 ((sample_conn ''b'' True)\<lparr>cn_sendCh := [sample_join, sample_join]\<rparr>) = (out, c')
    \<and> cn_sendCh c' = []
    \<and> read_frames (\<lambda>s. Some sample_join) 4096 AtEOF 65536 3 out = [Inr sample_join, Inr sample_join, Inl EndOfStream]"
proof -
  let ?c = "(sample_conn ''b'' True)\<lparr>cn_sendCh := [sample_join, sample_join]\<rparr>"
  have "frame_ok (\<lambda>m. Some ''{}'') (\<lambda>s. Some sample_join) sample_join"
    unfolding frame_ok_def
    by (auto simp: sample_join_def ValidateEnvelope.simps size_defs intro!: exI [of _ "[]"])
  then have "\<forall>m \<in> set (cn_sendCh ?c). frame_ok (\<lambda>m. Some ''{}'') (\<lambda>s. Some sample_join) m" by simp
  note frames = this
  have len: "length (cn_sendCh ?c) = 2" "Suc 2 = 3" and q: "cn_sendCh ?c = [sample_join, sample_join]" "\<not> cn_done ?c"
    by (simp_all add: sample_conn_def)
  show ?thesis
    using frames_arrive_in_order [OF frames _ q(2), of 65536 4096, unfolded len]
    unfolding q(1) list.map append.simps by (simp add: size_defs del: read_frames.simps write_all.simps) blast
qed

end
