(* ===== verification/Wire.thy ===== *)
theory Wire
  imports NodeChat Codec
begin

text \<open>
  The node together with the framing of its connections: what becomes of a frame between the socket it
  is read from and the sockets it is forwarded to.
\<close>

section \<open>Examples\<close>

text \<open>A node with two connections.\<close>

definition sample_meshed :: "char \<Rightarrow> string \<Rightarrow> string \<Rightarrow> node" where
  "sample_meshed k p q =
     (let n = sample_linked k p in
      n\<lparr>nd_peers := (put_conn 2 (sample_conn q False) (nd_peers n))\<lparr>pm_conns := gm_put q 2 (gm_put p 1 gm_empty)\<rparr>\<rparr>)"

lemma sample_meshed_inv: "p \<noteq> [] \<Longrightarrow> q \<noteq> [] \<Longrightarrow> p \<noteq> q \<Longrightarrow> node_inv uc toy_crypto (sample_meshed k p q)"
proof -
  assume pq: "p \<noteq> []" "q \<noteq> []" "p \<noteq> q"
  let ?n = "sample_linked k p"
  have st: "pm_store (nd_peers ?n) = gm_put 1 (sample_conn p False) gm_empty" "pm_maxPeers (nd_peers ?n) = 64" "hooked (nd_peers ?n)"
    using sample_node_fields(8-10) [of k] by (simp_all add: sample_linked_def Subscribe_def Let_def put_conn_def hooked_def)
  then have "table_good ((put_conn 2 (sample_conn q False) (nd_peers ?n))\<lparr>pm_conns := gm_put q 2 (gm_put p 1 gm_empty)\<rparr>)"
    using pq by (simp add: table_good_def peer_inv_def hooked_def conn_at_def gm_laws gm.len_put put_conn_def gm_has_def)
  then show ?thesis using sample_linked_inv [OF pq(1)] unfolding sample_meshed_def Let_def by (intro node_inv_peers)
qed

section \<open>Properties\<close>

text \<open>
  C28. One message can cut the links of a node that relays it: a chat message in a frame within the
  limit, with a valid signature, in time and new, whose text and channel are accepted, but which JSON
  prints with more than 64 KiB (a long nickname of characters that it escapes), is queued for every
  other live peer, and writing it closes that connection.
\<close>

theorem inflating_message_cuts_links:
  assumes inv: "node_inv uc c n" "env_ok env" and rt: "rt_handler (nd_router n)" "rt_sender (nd_router n)"
    and frame: "Read unmarshal B e mx s = (Inr msg, rest)" "marshal msg = Some d" "length d > MaxMessageSize"
    and msg: "mType msg = TypeChat" "mTo msg = []" "VerifySignature uc c (Some msg) = None" "Validate uc (Some msg) = (None, Some msg)"
      "Fresh (Some msg) (e_clock env 0) = None" "Fresh (Some msg) (e_clock env 2) = None" "\<not> Has (rt_seen (nd_router n)) (mID msg)"
    and recv: "conn_at (nd_peers n) k = Some cb" "passes_limit env msg n"
    and link: "gm_get (pm_conns (nd_peers n)) p = Some h" "conn_at (nd_peers n) h = Some cn" "\<not> cn_done cn" "cn_sendCh cn = []"
      "p \<noteq> pi_ID (cn_info cb)"
  shows "\<exists>cn'. conn_at (nd_peers (conn_read uc c env k now (as_read_result (fst (Read unmarshal B e mx s))) n)) h = Some cn'
    \<and> cn_sendCh cn' = [msg] \<and> cn_done (snd (write_msg marshal True cn'))"
proof -
  let ?cb = "touch now (cb\<lparr>cn_malformed := 0\<rparr>)"
  let ?n = "n\<lparr>nd_peers := put_conn k ?cb (nd_peers n)\<rparr>"
  have read: "conn_read uc c env k now (as_read_result (fst (Read unmarshal B e mx s))) n = onPeerMessage uc c env k msg ?n"
    by (simp add: conn_read_def recv(1) frame(1))
  have "pi_ID (cn_info cn) = p"
    using link(1,2) node_invD(1) [OF inv(1)] unfolding table_good_def peer_inv_def by (metis option.inject)
  then have hk: "h \<noteq> k" using link(2,5) recv(1) by auto
  have peers: "conn_at (nd_peers ?n) k = Some ?cb" "conn_at (nd_peers ?n) h = Some cn" "gm_get (pm_conns (nd_peers ?n)) p = Some h"
    using hk link(1,2) by (simp_all add: conn_at_def put_conn_def gm_laws)
  have "benign (\<lambda>cn. touch now (cn\<lparr>cn_malformed := 0\<rparr>))" by (simp add: benign_def touch_def)
  then have "table_good (nd_peers ?n)" using table_good_put [OF recv(1)] node_invD(1) [OF inv(1)] by fastforce
  note good = this
  have "passes_limit env msg ?n" using recv(2) by (simp add: passes_limit_def)
  then obtain w where on: "onPeerMessage uc c env k msg ?n = route uc env msg (pi_ID (cn_info ?cb)) (?n\<lparr>nd_limit := w\<rparr>)"
    using onPeerMessage_route [OF msg(1,3,5) peers(1)] by blast
  have "\<exists>cn'. conn_at (nd_peers (route uc env msg (pi_ID (cn_info ?cb)) (?n\<lparr>nd_limit := w\<rparr>))) h = Some cn' \<and> cn_sendCh cn' = cn_sendCh cn @ [msg]"
    by (rule route_queues) (use good node_invD(2) [OF inv(1)] inv(2) rt msg peers link in \<open>simp_all add: touch_def sendCap_def\<close>)
  then obtain cn' where "conn_at (nd_peers (onPeerMessage uc c env k msg ?n)) h = Some cn'" "cn_sendCh cn' = [msg]"
    using link(4) on by auto
  moreover from this have "cn_done (snd (write_msg marshal True cn'))"
    using frame(2,3) by (simp add: write_msg_def Write_def write_next_def Close_conn_def)
  ultimately show ?thesis unfolding read by blast
qed

lemma sample_meshed_fields:
  "nd_router (sample_meshed k p q) = New True True (24 * 3600 * 10 ^ 9) 50000" "nd_limit (sample_meshed k p q) = Some (NewWindow 30 second)"
  "p \<noteq> q \<Longrightarrow> gm_get (pm_conns (nd_peers (sample_meshed k p q))) q = Some 2"
  "conn_at (nd_peers (sample_meshed k p q)) 1 = Some (sample_conn p False)" "conn_at (nd_peers (sample_meshed k p q)) 2 = Some (sample_conn q False)"
  by (simp_all add: sample_meshed_def sample_linked_def Subscribe_def sample_node_fields conn_at_def put_conn_def gm_laws Let_def)

theorem inflating_message_cuts_links_witness:
  "\<exists>msg cn'. conn_at (nd_peers (conn_read sample_uc toy_crypto sample_nenv 1 0
       (as_read_result (fst (Read (\<lambda>s. Some msg) 4096 AtEOF 65536 (''{}'' @ [CHR 0x0A])))) (sample_meshed CHR ''k'' ''ann'' ''carl''))) 2 = Some cn'
     \<and> cn_sendCh cn' = [msg] \<and> cn_done (snd (write_msg (\<lambda>m. Some (replicate 65537 CHR ''x'')) True cn'))"
proof -
  let ?n = "sample_meshed CHR ''k'' ''ann'' ''carl''" and ?a = "sample_node CHR ''j''"
  have ck: "clocks_ok (e_clock sample_nenv i) (e_clock sample_nenv j)" for i j using sample_clocks by (simp add: sample_nenv_def)
  then have c0: "unixToInternal * second + second \<le> e_clock sample_nenv 0" "e_clock sample_nenv 0 < 2 ^ 61 * second"
    by (simp_all add: clocks_ok_def)
  have own: "own_key toy_crypto (nd_ident ?a)" unfolding sample_node_fields(1) own_key_def using sample_ident_ok by blast
  have ch: "channel_name ''#general''" by (simp add: channel_name_def)
  have len: "RuneCount ''hi'' \<le> MaxTextLen" by (simp add: RuneCount_def runes_ascii ascii_def bytes_of_def size_defs)
  obtain msg pk sg where m: "msg = (chat_draft toy_crypto sample_nenv ''#general'' ''hi'' False ?a)\<lparr>mPublicKey := pk, mSignature := sg\<rparr>"
    "VerifySignature sample_uc toy_crypto (Some msg) = None" "Validate sample_uc (Some msg) = (None, Some msg)"
    using signed_draft [OF own toy_sha ch _ len c0, of False sample_uc] by blast
  have d: "mType msg = TypeChat" "mTo msg = []" "mTimestamp msg = unix_of (e_clock sample_nenv 0)"
    by (simp_all add: m(1) chat_draft_def NewChat_def Let_def zero_message_def)
  have fresh: "Fresh (Some msg) (e_clock sample_nenv i) = None" for i
    using Fresh_unix_of(1) [OF c0 d(3)] ck by (simp add: clocks_ok_def)
  have env: "ValidateEnvelope (Some msg) = None" using m(3) by (auto split: option.splits prod.splits)
  have "frame_ok (\<lambda>m. Some ''{}'') (\<lambda>s. Some msg) msg"
    unfolding frame_ok_def using env by (auto simp: size_defs intro!: exI [of _ "[]"] simp del: ValidateEnvelope.simps)
  from Read_frame [OF this, of 65536 4096 AtEOF "[]"]
  have read: "Read (\<lambda>s. Some msg) 4096 AtEOF 65536 (''{}'' @ [CHR 0x0A]) = (Inr msg, [])" by (simp add: size_defs)
  have seen: "\<not> Has (rt_seen (nd_router ?n)) (mID msg)"
    by (simp add: sample_meshed_fields New_def NewSeenStore_def Has_def gm_has_def gm_laws)
  have lim: "passes_limit sample_nenv msg ?n"
    by (simp add: passes_limit_def sample_meshed_fields hits_of_def gm_laws) (simp add: NewWindow_def)
  have inv: "node_inv sample_uc toy_crypto ?n" by (rule sample_meshed_inv) simp_all
  have rt: "rt_handler (nd_router ?n)" "rt_sender (nd_router ?n)" by (simp_all add: sample_meshed_fields New_def)
  have big: "length (replicate 65537 CHR ''x'') > MaxMessageSize" by (simp add: size_defs)
  have q: "\<not> cn_done (sample_conn ''carl'' False)" "cn_sendCh (sample_conn ''carl'' False) = []" by (simp_all add: sample_conn_def)
  show ?thesis
    using inflating_message_cuts_links [OF inv sample_env_ok rt read refl big d(1,2) m(2,3) fresh fresh seen
        sample_meshed_fields(4) lim sample_meshed_fields(3) sample_meshed_fields(5) q] by (simp del: replicate.simps) blast
qed

end
