(* ===== verification/Tls.thy ===== *)
theory Tls
  imports Handshake
begin

text \<open>
  \<^verbatim>\<open>src/internal/transport/tls.go\<close>: the self-signed certificate of an identity with its cache, the TLS
  configuration, the check of the peer's certificate and the key it carries. \<^verbatim>\<open>crypto/x509\<close> and
  \<^verbatim>\<open>crypto/tls\<close> are the record \<open>tls_lib\<close>: random serial numbers, creating and parsing certificates, and
  the certificates the peer presented in a handshake that the library completed (\<open>None\<close> when it failed),
  which it passes to the configured check before the handshake succeeds.
\<close>

section \<open>Definitions\<close>

datatype cert_key = Ed25519Key string | OtherKey

record cert_template =
  ct_SerialNumber :: string
  ct_CommonName :: string
  ct_Organization :: string
  ct_NotBefore :: int
  ct_NotAfter :: int
  ct_Usages :: "string list"

record tls_cert =
  tc_Certificate :: "string list"
  tc_PrivateKey :: string

record tls_config =
  tf_Certificates :: "tls_cert list"
  tf_MinVersion :: int
  tf_MaxVersion :: int
  tf_RequireAnyClientCert :: bool
  tf_InsecureSkipVerify :: bool
  tf_NextProtos :: "string list"

record tls_lib =
  tl_serial :: "string option"
  tl_now :: int
  tl_create :: "cert_template \<Rightarrow> string \<Rightarrow> string \<Rightarrow> string option"
  tl_parse :: "string \<Rightarrow> cert_key option"
  tl_run :: "tls_config \<Rightarrow> bool \<Rightarrow> string list option"

datatype tls_err = NilIdentity | NoSerial | CreateCertificate | TlsHandshake | NoPeerCertificate | ParseCertificate | NotEd25519

text \<open>A connection: plain, or TLS with the certificates of the peer.\<close>

datatype net_conn = PlainConn | TlsConn "string list"

definition ALPN :: string where "ALPN = ''p2pirc/2''"

definition VersionTLS13 :: int where "VersionTLS13 = 0x0304"

fun certificate :: "tls_lib \<Rightarrow> identity option \<Rightarrow> (string, tls_cert) gomap \<Rightarrow> (tls_err + tls_cert) \<times> (string, tls_cert) gomap" where
  "certificate lib None certByID = (Inl NilIdentity, certByID)"
| "certificate lib (Some ident) certByID =
     (case gm_get certByID (idPeerID ident) of
        Some c \<Rightarrow> (Inr c, certByID)
      | None \<Rightarrow>
          (case tl_serial lib of
             None \<Rightarrow> (Inl NoSerial, certByID)
           | Some serial \<Rightarrow>
               (let tmpl = \<lparr>ct_SerialNumber = serial, ct_CommonName = ShortID ident, ct_Organization = ''P2P-IRC'',
                      ct_NotBefore = tl_now lib - 3600 * second, ct_NotAfter = tl_now lib + 10 * 365 * 24 * 3600 * second,
                      ct_Usages = [''DigitalSignature'', ''ServerAuth'', ''ClientAuth'']\<rparr> in
                case tl_create lib tmpl (idPublicKey ident) (idPrivateKey ident) of
                  None \<Rightarrow> (Inl CreateCertificate, certByID)
                | Some der \<Rightarrow>
                    (let cert = \<lparr>tc_Certificate = [der], tc_PrivateKey = idPrivateKey ident\<rparr> in
                     (Inr cert, gm_put (idPeerID ident) cert certByID)))))"

definition TLSConfig ::
  "tls_lib \<Rightarrow> identity option \<Rightarrow> (string, tls_cert) gomap \<Rightarrow> (tls_err + tls_config) \<times> (string, tls_cert) gomap" where
  "TLSConfig lib ident cache =
     (case certificate lib ident cache of
        (Inl e, cache1) \<Rightarrow> (Inl e, cache1)
      | (Inr cert, cache1) \<Rightarrow>
          (Inr \<lparr>tf_Certificates = [cert], tf_MinVersion = VersionTLS13, tf_MaxVersion = VersionTLS13, tf_RequireAnyClientCert = True,
             tf_InsecureSkipVerify = True, tf_NextProtos = [ALPN]\<rparr>, cache1))"

text \<open>The function \<^verbatim>\<open>VerifyPeerCertificate\<close> of the configuration.\<close>

fun VerifyPeerCertificate :: "tls_lib \<Rightarrow> string list \<Rightarrow> tls_err option" where
  "VerifyPeerCertificate lib [] = Some NoPeerCertificate"
| "VerifyPeerCertificate lib (raw # _) =
     (case tl_parse lib raw of
        None \<Rightarrow> Some ParseCertificate
      | Some OtherKey \<Rightarrow> Some NotEd25519
      | Some (Ed25519Key k) \<Rightarrow> None)"

definition Handshake_tls ::
  "tls_lib \<Rightarrow> identity option \<Rightarrow> bool \<Rightarrow> (string, tls_cert) gomap \<Rightarrow> (tls_err + net_conn) \<times> (string, tls_cert) gomap" where
  "Handshake_tls lib ident inbound cache =
     (case TLSConfig lib ident cache of
        (Inl e, cache1) \<Rightarrow> (Inl e, cache1)
      | (Inr cfg, cache1) \<Rightarrow>
          (case tl_run lib cfg inbound of
             None \<Rightarrow> (Inl TlsHandshake, cache1)
           | Some certs \<Rightarrow> (if VerifyPeerCertificate lib certs \<noteq> None then Inl TlsHandshake else Inr (TlsConn certs), cache1)))"

fun PeerPublicKey :: "tls_lib \<Rightarrow> net_conn \<Rightarrow> tls_err + string option" where
  "PeerPublicKey lib PlainConn = Inr None"
| "PeerPublicKey lib (TlsConn []) = Inl NoPeerCertificate"
| "PeerPublicKey lib (TlsConn (raw # _)) =
     (case tl_parse lib raw of
        Some (Ed25519Key k) \<Rightarrow> Inr (Some k)
      | _ \<Rightarrow> Inl NotEd25519)"

text \<open>The handshake of the peer table over a TLS connection: what it asks the transport for.\<close>

definition over_tls :: "tls_lib \<Rightarrow> (tls_err + net_conn) \<Rightarrow> hs_env \<Rightarrow> hs_env" where
  "over_tls lib r env =
     (case r of
        Inl e \<Rightarrow> env\<lparr>he_tls_ok := False\<rparr>
      | Inr nc \<Rightarrow>
          env\<lparr>he_tls_ok := True, he_peer_key := (case PeerPublicKey lib nc of Inl e \<Rightarrow> None | Inr k \<Rightarrow> Some k)\<rparr>)"

text \<open>Every cached certificate was made for an identity with this peer id.\<close>

definition certs_ok :: "tls_lib \<Rightarrow> (string, tls_cert) gomap \<Rightarrow> bool" where
  "certs_ok lib cache \<longleftrightarrow>
     (\<forall>p cert. gm_get cache p = Some cert \<longrightarrow>
        (\<exists>(ident :: identity) tmpl der. idPeerID ident = p \<and> tl_create lib tmpl (idPublicKey ident) (idPrivateKey ident) = Some der
           \<and> cert = \<lparr>tc_Certificate = [der], tc_PrivateKey = idPrivateKey ident\<rparr>))"

definition sample_tls :: "char \<Rightarrow> tls_lib" where
  "sample_tls k =
     \<lparr>tl_serial = Some ''1'', tl_now = sample_now, tl_create = (\<lambda>t pub priv. Some pub), tl_parse = (\<lambda>raw. Some (Ed25519Key raw)),
      tl_run = (\<lambda>cfg inbound. Some [idPublicKey (sample_ident k)])\<rparr>"

section \<open>Certificates\<close>

lemma certificate_cache:
  assumes "certs_ok lib cache" "certificate lib ident cache = (r, cache')"
  shows "certs_ok lib cache'"
    and "r = Inr cert \<Longrightarrow> ident = Some i \<Longrightarrow> gm_get cache' (idPeerID i) = Some cert"
proof -
  show "certs_ok lib cache'"
    using assms unfolding certs_ok_def
    by (cases ident) (fastforce simp: gm_laws Let_def split: option.splits if_splits)+
  show "gm_get cache' (idPeerID i) = Some cert" if "r = Inr cert" "ident = Some i"
    using assms(2) that by (auto simp: gm_laws Let_def split: option.splits)
qed

lemma Handshake_tls_key:
  assumes "Handshake_tls lib ident inbound cache = (Inr nc, cache')"
  shows "\<exists>raw rest k. nc = TlsConn (raw # rest) \<and> tl_parse lib raw = Some (Ed25519Key k) \<and> PeerPublicKey lib nc = Inr (Some k)"
proof -
  obtain certs where c: "nc = TlsConn certs" "VerifyPeerCertificate lib certs = None"
    using assms by (auto simp: Handshake_tls_def split: prod.splits sum.splits option.splits if_splits)
  then obtain raw rest k where "certs = raw # rest" "tl_parse lib raw = Some (Ed25519Key k)"
    by (cases certs) (auto split: option.splits cert_key.splits)
  then show ?thesis using c(1) by simp
qed

section \<open>Properties\<close>

text \<open>
  C16. TLS and identity are bound together: when a node with TLS adopts a connection, the TLS handshake
  succeeded, the peer presented an Ed25519 certificate, its key is the key of the registered peer, and
  the digest of this key is the peer's id in lower case. A relay that terminates TLS with a key of its own
  cannot pass on the handshake frames of another peer.
\<close>

theorem tls_key_is_peer_identity:
  assumes "pm_tls m" "Handshake_tls lib (Some ident) inbound cache = (r, cache')"
    and "HandshakeAndAdopt uc c (over_tls lib r env) ident nick inbound h m = (Inr h', es, m')"
  shows "\<exists>raw rest k cn. r = Inr (TlsConn (raw # rest)) \<and> tl_parse lib raw = Some (Ed25519Key k)
    \<and> conn_at m' h = Some cn \<and> pi_PublicKey (cn_info cn) = k \<and> DerivePeerID c k = ToLower uc (pi_ID (cn_info cn))
    \<and> gm_get (pm_conns m') (pi_ID (cn_info cn)) = Some h"
proof -
  note ad = adopted_proved [OF assms(3)]
  have ok: "he_tls_ok (over_tls lib r env)" using ad assms(1) by blast
  then obtain nc where nc: "r = Inr nc" by (cases r) (auto simp: over_tls_def)
  then obtain raw rest k where k: "nc = TlsConn (raw # rest)" "tl_parse lib raw = Some (Ed25519Key k)" "PeerPublicKey lib nc = Inr (Some k)"
    using Handshake_tls_key assms(2) by blast
  then have "he_peer_key (over_tls lib r env) = Some (Some k)" using nc by (simp add: over_tls_def)
  then show ?thesis using ad nc k(1,2) by (auto simp: proved_def)
qed

theorem tls_key_is_peer_identity_witness:
  "\<exists>cn. conn_at (snd (snd (HandshakeAndAdopt sample_uc toy_crypto
       (over_tls (sample_tls CHR ''k'') (fst (Handshake_tls (sample_tls CHR ''k'') (Some (sample_ident CHR ''j'')) True gm_empty))
          (sample_env (Some (sample_hello CHR ''k''))))
       (sample_ident CHR ''j'') ''bob'' True 1 (EnableTLS (sample_manager CHR ''j''))))) 1 = Some cn
     \<and> pi_PublicKey (cn_info cn) = idPublicKey (sample_ident CHR ''k'')"
proof -
  let ?lib = "sample_tls CHR ''k''" and ?m = "EnableTLS (sample_manager CHR ''j'')" and ?id = "sample_ident CHR ''j''"
  let ?r = "fst (Handshake_tls ?lib (Some ?id) True gm_empty)"
  let ?env = "over_tls ?lib ?r (sample_env (Some (sample_hello CHR ''k'')))"
  let ?run = "HandshakeAndAdopt sample_uc toy_crypto ?env ?id ''bob'' True 1 ?m"
  have r: "?r = Inr (TlsConn [idPublicKey (sample_ident CHR ''k'')])"
    by (simp add: Handshake_tls_def TLSConfig_def sample_tls_def gm_laws Let_def)
  then have env: "?env = (sample_env (Some (sample_hello CHR ''k'')))\<lparr>he_tls_ok := True, he_peer_key := Some (Some (idPublicKey (sample_ident CHR ''k'')))\<rparr>"
    by (simp add: over_tls_def) (simp add: sample_tls_def)
  obtain i where i: "identityFromHandshake sample_uc toy_crypto sample_now (sample_hello CHR ''k'') = Inr i"
    "mType (sample_hello CHR ''k'') = TypeHello" "pi_ID i = idPeerID (sample_ident CHR ''k'')" "pi_PublicKey i = idPublicKey (sample_ident CHR ''k'')"
    using sample_hello_accepted by blast
  have "make_welcome toy_crypto ?env ?id ''bob'' (wrap 1 True ?m) = Inr (sample_welcome CHR ''j'')"
    using sample_frames(2) [of _ "CHR ''j''"] unfolding env by (simp add: make_welcome_def wrap_def put_conn_def EnableTLS_def)
  moreover have "pi_ID i \<noteq> pm_localID (sample_manager CHR ''j'')"
    unfolding i(3) sample_manager_def NewPeerManager_def sample_ident_def DerivePeerID_def by (simp add: toy_crypto_def hex_encode_inj)
  ultimately have "fst ?run = Inr 1"
    using i unfolding env
    by (simp add: HandshakeAndAdopt_def handshake_def Let_def wrap_def sample_manager_def NewPeerManager_def EnableTLS_def adopt_eq
        adopt_verdict_def conn_at_on conn_at_put gm_laws)
  then have run: "?run = (Inr 1, fst (snd ?run), snd (snd ?run))" by (metis prod.collapse)
  have "pm_tls ?m" by (simp add: EnableTLS_def)
  from tls_key_is_peer_identity [OF this prod.collapse [symmetric] run] show ?thesis
    unfolding r by (auto simp: sample_tls_def)
qed

end
