(* ===== verification/Logger.thy ===== *)
theory Logger
  imports Main
begin

text \<open>
  \<^verbatim>\<open>src/internal/logger/logger.go\<close>: the leveled logger. What it wrote is a string; the time of day is an
  argument. The other theories leave log lines out.
\<close>

datatype level = LevelDebug | LevelInfo | LevelWarn | LevelError

fun Level_String :: "level \<Rightarrow> string" where
  "Level_String LevelDebug = ''DEBUG''"
| "Level_String LevelInfo = ''INFO''"
| "Level_String LevelWarn = ''WARN''"
| "Level_String LevelError = ''ERROR''"

text \<open>\<open>lg_out\<close> is \<open>None\<close> for \<^verbatim>\<open>io.Discard\<close>, which also stands in for a missing writer.\<close>

record logger =
  lg_out :: "string option"
  lg_debug :: bool

definition New_log :: "string option \<Rightarrow> bool \<Rightarrow> logger" where
  "New_log out debug = \<lparr>lg_out = out, lg_debug = debug\<rparr>"

definition NewDefault :: "bool \<Rightarrow> logger" where
  "NewDefault debug = New_log (Some []) debug"

fun logf :: "string \<Rightarrow> level \<Rightarrow> string \<Rightarrow> logger option \<Rightarrow> logger option" where
  "logf ts level msg None = None"
| "logf ts level msg (Some l) =
     (if level = LevelDebug \<and> \<not> lg_debug l then Some l
      else Some (l\<lparr>lg_out := map_option (\<lambda>w. w @ ts @ '' ['' @ Level_String level @ ''] '' @ msg @ [CHR 0x0A]) (lg_out l)\<rparr>))"

definition Debugf :: "string \<Rightarrow> string \<Rightarrow> logger option \<Rightarrow> logger option" where
  "Debugf ts msg = logf ts LevelDebug msg"

definition Infof :: "string \<Rightarrow> string \<Rightarrow> logger option \<Rightarrow> logger option" where
  "Infof ts msg = logf ts LevelInfo msg"

definition Warnf :: "string \<Rightarrow> string \<Rightarrow> logger option \<Rightarrow> logger option" where
  "Warnf ts msg = logf ts LevelWarn msg"

definition Errorf :: "string \<Rightarrow> string \<Rightarrow> logger option \<Rightarrow> logger option" where
  "Errorf ts msg = logf ts LevelError msg"

text \<open>A log only grows, and keeps its setting; without the debug flag, debug lines leave it as it is.\<close>

lemma logf_grows:
  "logf ts level msg (Some l) = Some l' \<Longrightarrow>
     lg_debug l' = lg_debug l \<and> (\<forall>w. lg_out l = Some w \<longrightarrow> (\<exists>x. lg_out l' = Some (w @ x)))"
  by (auto split: if_splits)

lemma Debugf_quiet: "\<not> lg_debug l \<Longrightarrow> Debugf ts msg (Some l) = Some l"
  by (simp add: Debugf_def)

end
