(* ===== verification/Terminal.thy ===== *)
theory Terminal
  imports NodeAuth NodeFrame Logger
begin

text \<open>
  \<^verbatim>\<open>src/internal/ui/terminal.go\<close>: the line-oriented user interface. Its output is one string. A run is a sequence
  of the branches its \<^verbatim>\<open>select\<close> takes: the context ends, an event is taken from the queue of the node,
  a line comes from standard input (or its end); between them the other goroutines change the node.
  The texts of errors are the argument \<open>err_text\<close>.
\<close>

section \<open>Definitions\<close>

record terminal =
  tm_node :: node
  tm_out :: string

definition printf :: "string \<Rightarrow> terminal \<Rightarrow> terminal" where
  "printf s t = t\<lparr>tm_out := tm_out t @ s\<rparr>"

definition tlsLabel :: "bool \<Rightarrow> string" where
  "tlsLabel on = (if on then ''on'' else ''off'')"

definition prompt :: "node \<Rightarrow> string" where
  "prompt n = (if Current (nd_chans n) = [] then ''(none)'' else Current (nd_chans n)) @ ''> ''"

definition printPrompt :: "terminal \<Rightarrow> terminal" where
  "printPrompt t = printf (prompt (tm_node t)) t"

text \<open>The line \<^verbatim>\<open>printEvent\<close> writes before the prompt.\<close>

definition event_line :: "event \<Rightarrow> string" where
  "event_line ev =
     (case ev_Kind ev of
        EventChat \<Rightarrow>
          (case ev_Msg ev of
             Some m \<Rightarrow> if mChannel m \<noteq> [] then [CHR 0x0D] @ mChannel m @ '' '' @ ev_Text ev @ [CHR 0x0A]
                       else [CHR 0x0D] @ ev_Text ev @ [CHR 0x0A]
           | None \<Rightarrow> [CHR 0x0D] @ ev_Text ev @ [CHR 0x0A])
      | EventSystem \<Rightarrow> if ev_Text ev \<noteq> [] then [CHR 0x0D] @ ''* '' @ ev_Text ev @ [CHR 0x0A] else []
      | EventJoin \<Rightarrow> if ev_Text ev \<noteq> [] then [CHR 0x0D] @ ''* '' @ ev_Text ev @ [CHR 0x0A] else []
      | EventLeave \<Rightarrow> if ev_Text ev \<noteq> [] then [CHR 0x0D] @ ''* '' @ ev_Text ev @ [CHR 0x0A] else []
      | EventPeerUp \<Rightarrow> []
      | EventPeerDown \<Rightarrow> [])"

definition printEvent :: "event \<Rightarrow> terminal \<Rightarrow> terminal" where
  "printEvent ev t = printPrompt (printf (event_line ev) t)"

text \<open>What \<^verbatim>\<open>Run\<close> writes first.\<close>

definition banner :: "cmd_env \<Rightarrow> node \<Rightarrow> string" where
  "banner ce n =
     (let nl = [CHR 0x0A]; hint = LANHint (ce_ifaces ce) n in
      version_String (ce_version ce) (ce_commit ce) @ ''  peer='' @ ShortID (nd_ident n) @ ''  nick='' @ Nick n
      @ ''  port='' @ FormatInt (nd_port n) @ ''  tls='' @ tlsLabel (pm_tls (nd_peers n)) @ nl
      @ ''Listening on '' @ ListenAddr n @ nl
      @ ''Data dir: '' @ cfDataDir (nd_cfg n) @ nl
      @ (if hint \<noteq> [] then ''LAN address: '' @ hint @ ''   (other peers: /connect '' @ hint @ '')'' @ nl else [])
      @ (if cfAutoConnect (nd_cfg n)
         then ''LAN mesh: auto-connect verified neighbors''
           @ (if cfReconnect (nd_cfg n) then ''; reconnect known peers'' else []) @ ''.'' @ nl
         else [])
      @ ''Type /help for commands. Chat is sent to the current channel.'' @ nl
      @ ''------------------------------------------------'' @ nl
      @ ''* joined #general'' @ nl)"

datatype sel = SelDone | SelEvent | SelLine cmd_env "string option" | SelOther "node \<Rightarrow> node"

text \<open>
  The loop of \<^verbatim>\<open>Run\<close> on the queue \<open>q\<close> (\<open>None\<close>: the node was closed when it subscribed): whether it
  returned, the events it printed, and the terminal. A \<open>SelEvent\<close> with nothing in the queue does not happen.
\<close>

fun run_loop ::
  "unicode \<Rightarrow> crypto \<Rightarrow> (node_err \<Rightarrow> string) \<Rightarrow> nat option \<Rightarrow> sel list \<Rightarrow> terminal \<Rightarrow> bool \<times> event list \<times> terminal" where
  "run_loop uc c err_text q [] t = (False, [], t)"
| "run_loop uc c err_text q (SelDone # sels) t = (True, [], t)"
| "run_loop uc c err_text q (SelOther f # sels) t = run_loop uc c err_text q sels (t\<lparr>tm_node := f (tm_node t)\<rparr>)"
| "run_loop uc c err_text q (SelEvent # sels) t =
     (case q of
        None \<Rightarrow> (True, [], t)
      | Some i \<Rightarrow>
          if nd_closed (tm_node t) then (True, [], t)
          else
            (case take_event i (tm_node t) of
               (None, n1) \<Rightarrow> run_loop uc c err_text q sels t
             | (Some ev, n1) \<Rightarrow>
                 (case run_loop uc c err_text q sels (printEvent ev (t\<lparr>tm_node := n1\<rparr>)) of
                    (fin, evs, t2) \<Rightarrow> (fin, ev # evs, t2))))"
| "run_loop uc c err_text q (SelLine ce None # sels) t = (True, [], t)"
| "run_loop uc c err_text q (SelLine ce (Some line) # sels) t =
     (case HandleLine uc c ce line (tm_node t) of
        ((quit, err), n1) \<Rightarrow>
          let t1 = t\<lparr>tm_node := n1\<rparr> in
          (case err of
             Some e \<Rightarrow>
               run_loop uc c err_text q sels (printPrompt (printf ([CHR 0x0D] @ ''! '' @ err_text e @ [CHR 0x0A]) t1))
           | None \<Rightarrow> if quit then (True, [], t1) else run_loop uc c err_text q sels (printPrompt t1)))"

definition Run ::
  "unicode \<Rightarrow> crypto \<Rightarrow> (node_err \<Rightarrow> string) \<Rightarrow> cmd_env \<Rightarrow> sel list \<Rightarrow> node \<Rightarrow> bool \<times> event list \<times> terminal" where
  "Run uc c err_text ce sels n =
     (let t = printPrompt \<lparr>tm_node = n, tm_out = banner ce n\<rparr>; (q, n1) = Subscribe n in
      run_loop uc c err_text q sels (t\<lparr>tm_node := n1\<rparr>))"

text \<open>The lines of standard input: the scanner delivers them and then ends, also at a line that is too long.\<close>

definition stdin_sels :: "cmd_env \<Rightarrow> string \<Rightarrow> sel list" where
  "stdin_sels ce raw = map (\<lambda>l. SelLine ce (Some l)) (fst (scan_lines raw)) @ [SelLine ce None]"

text \<open>
  What the other goroutines may do in a run: one of their steps, none of which closes the node (\<^verbatim>\<open>main\<close> does
  that, once \<^verbatim>\<open>Run\<close> has returned).
\<close>

fun sel_ok :: "unicode \<Rightarrow> crypto \<Rightarrow> sel \<Rightarrow> bool" where
  "sel_ok uc c (SelOther f) \<longleftrightarrow> (\<forall>n. node_reach uc c n \<longrightarrow> node_step uc c n (f n) \<and> nd_closed (f n) = nd_closed n)"
| "sel_ok uc c (SelLine ce l) \<longleftrightarrow> env_ok (ce_env ce)"
| "sel_ok uc c _ \<longleftrightarrow> True"

definition events_authentic :: "unicode \<Rightarrow> crypto \<Rightarrow> event list \<Rightarrow> bool" where
  "events_authentic uc c evs \<longleftrightarrow>
     (\<forall>ev \<in> set evs. case ev_Msg ev of None \<Rightarrow> True | Some m \<Rightarrow> IsRoutable (mType m) \<longrightarrow> authentic uc c m)"

text \<open>
  What \<^verbatim>\<open>System\<close> emits, and a text of a chat message that goes on, after a line break, with the prompt and what
  \<^verbatim>\<open>printEvent\<close> writes for a system event.
\<close>

definition system_event :: "string \<Rightarrow> event" where
  "system_event s = \<lparr>ev_Kind = EventSystem, ev_Text = s, ev_Msg = None, ev_Peer = no_info\<rparr>"

definition forged_text :: "node \<Rightarrow> string \<Rightarrow> string \<Rightarrow> string" where
  "forged_text n a s = a @ [CHR 0x0A] @ prompt n @ [CHR 0x0D] @ ''* '' @ s"

section \<open>Runs\<close>

lemma take_event_authentic:
  assumes "node_reach uc c n" "take_event i n = (Some ev, n1)"
  shows "node_reach uc c n1" "events_authentic uc c [ev]"
proof -
  have "node_step uc c n (snd (take_event i n))" by (rule node_step.TakeEvent)
  then show "node_reach uc c n1" using assms by (auto intro: node_reach.Stepped)
  have "ev \<in> set (nd_events n ! i)" "i < length (nd_events n)"
    using assms(2) by (auto simp: take_event_def split: if_splits)
  then show "events_authentic uc c [ev]"
    using cleanD(1) [OF auth.clean_reach [OF assms(1)]]
    by (fastforce simp: events_clean_def events_authentic_def split: option.splits)
qed

lemma terminal_node_simps [simp]:
  "tm_node (printf s t) = tm_node t" "tm_node (printPrompt t) = tm_node t" "tm_node (printEvent ev t) = tm_node t"
  by (simp_all add: printf_def printPrompt_def printEvent_def)

lemma sel_goes_on: "node_reach uc c n \<Longrightarrow> sel_ok uc c (SelOther f) \<Longrightarrow> node_reach uc c (f n) \<and> goes_on n (f n)"
  using step_goes_on [of uc c n "f n"] by (auto intro: node_reach.Stepped)

lemma run_loop_safe:
  assumes "run_loop uc c err_text q sels t = (fin, evs, t')" "node_reach uc c (tm_node t)" "\<forall>s \<in> set sels. sel_ok uc c s"
  shows "node_reach uc c (tm_node t') \<and> goes_on (tm_node t) (tm_node t') \<and> events_authentic uc c evs"
  using assms
proof (induction uc c err_text q sels t arbitrary: fin evs t' rule: run_loop.induct)
  case (3 uc c err_text q f sels t)
  then show ?case using sel_goes_on [of uc c "tm_node t" f] by (auto intro: goes_on_trans)
next
  case (4 uc c err_text q sels t)
  show ?case
  proof (cases "q = None \<or> nd_closed (tm_node t)")
    case True
    then show ?thesis using "4.prems" by (cases q) (auto simp: events_authentic_def)
  next
    case False
    then obtain i where i: "q = Some i" "\<not> nd_closed (tm_node t)" by auto
    obtain ev n1 where ev: "take_event i (tm_node t) = (ev, n1)" by force
    then have fr: "goes_on (tm_node t) n1" using frame_take [of i "tm_node t"] frame_goes_on by simp
    show ?thesis
    proof (cases ev)
      case None
      then show ?thesis using "4.IH"(1) [OF i ev [symmetric] None] "4.prems" i ev by (auto simp: None)
    next
      case (Some e)
      obtain evs2 where r: "run_loop uc c err_text q sels (printEvent e (t\<lparr>tm_node := n1\<rparr>)) = (fin, evs2, t')" "evs = e # evs2"
        using "4.prems"(1) i ev Some by (auto split: prod.splits)
      note tk = take_event_authentic [OF "4.prems"(2) ev [unfolded Some]]
      have "node_reach uc c (tm_node t') \<and> goes_on n1 (tm_node t') \<and> events_authentic uc c evs2"
        using "4.IH"(2) [OF i ev [symmetric] Some r(1)] tk(1) "4.prems"(3) by simp
      then show ?thesis using tk(2) r(2) goes_on_trans [OF fr] by (auto simp: events_authentic_def)
    qed
  qed
next
  case (6 uc c err_text q ce line sels t)
  obtain quit err n1 where h: "HandleLine uc c ce line (tm_node t) = ((quit, err), n1)" by (metis prod.collapse)
  have "node_reach uc c (snd (HandleLine uc c ce line (tm_node t)))"
    using "6.prems"(2,3) node_step.Line [of ce] by (auto intro: node_reach.Stepped)
  then have step: "node_reach uc c n1" "goes_on (tm_node t) n1"
    using frame_HandleLine [of uc c ce line "tm_node t"] h frame_goes_on by simp_all
  show ?case
  proof (cases err)
    case None
    then show ?thesis
      using "6.prems" "6.IH"(1) [OF h [symmetric] refl refl None] step h goes_on_trans [OF step(2)]
      by (cases quit) (auto simp: events_authentic_def)
  next
    case (Some e)
    then show ?thesis using "6.prems" "6.IH"(2) [OF h [symmetric] refl refl Some] step h goes_on_trans [OF step(2)] by auto
  qed
qed (auto simp: events_authentic_def)

lemma Run_safe:
  assumes "Run uc c err_text ce sels n = (fin, evs, t)" "node_reach uc c n" "\<forall>s \<in> set sels. sel_ok uc c s"
  shows "node_reach uc c (tm_node t) \<and> goes_on n (tm_node t) \<and> (nd_closed n \<or> nd_events (tm_node t) \<noteq> [])
    \<and> events_authentic uc c evs"
proof -
  obtain q n1 where sub: "Subscribe n = (q, n1)" by force
  have "node_step uc c n (snd (Subscribe n))" by (rule node_step.NewSubscriber)
  then have r: "node_reach uc c n1" "goes_on n n1" "nd_closed n \<or> nd_events n1 \<noteq> []"
    using assms(2) sub Subscribe_goes_on [of n] by (auto intro: node_reach.Stepped simp: Subscribe_def split: if_splits)
  have "run_loop uc c err_text q sels ((printPrompt \<lparr>tm_node = n, tm_out = banner ce n\<rparr>)\<lparr>tm_node := n1\<rparr>) = (fin, evs, t)"
    using assms(1) sub by (simp add: Run_def Let_def)
  from run_loop_safe [OF this _ assms(3)] have "node_reach uc c (tm_node t)" "goes_on n1 (tm_node t)" "events_authentic uc c evs"
    using r(1) by simp_all
  then show ?thesis using r(2,3) goes_on_trans by (auto simp: goes_on_def)
qed

text \<open>A run ends when its context is done or its input ends.\<close>

lemma run_loop_ends: "SelDone \<in> set sels \<or> (\<exists>ce. SelLine ce None \<in> set sels) \<Longrightarrow> fst (run_loop uc c err_text q sels t)"
proof (induction sels arbitrary: t)
  case (Cons s sels)
  show ?case
  proof (cases s)
    case (SelLine ce l)
    then show ?thesis using Cons by (cases l) (auto simp: case_prod_unfold Let_def split: option.split)
  qed (use Cons in \<open>auto simp: case_prod_unfold split: option.split\<close>)
qed simp

text \<open>Standard input that starts with a line of 64 KiB or more delivers no line at all: the loop ends.\<close>

theorem long_line_ends_run:
  assumes "CHR 0x0A \<notin> set line" "length line \<ge> MaxScanTokenSize"
  shows "run_loop uc c err_text q (stdin_sels ce (line @ [CHR 0x0A] @ rest)) t = (True, [], t)"
proof -
  have "takeWhile (\<lambda>ch. ch \<noteq> CHR 0x0A) (line @ CHR 0x0A # rest) = line" using assms(1) by (subst takeWhile_append2) auto
  then have "scan_lines (line @ [CHR 0x0A] @ rest) = ([], True)"
    using assms(2) by (subst scan_lines.simps) (simp add: Let_def)
  then show ?thesis by (simp add: stdin_sels_def)
qed

section \<open>Properties\<close>

text \<open>
  C29. A chat message can forge lines of the terminal: line breaks in the text of a message pass
  validation and are printed as they are, so that a text of the right shape leaves on the terminal exactly
  what an ordinary message followed by a notice of the system leaves.
\<close>

theorem forged_system_line:
  assumes "Validate uc (Some m) = (None, Some m)" "mType m = TypeChat" "s \<noteq> []"
    and "RuneCount (forged_text (tm_node t) (mText m) s) \<le> MaxTextLen"
  shows "let m' = m\<lparr>mText := forged_text (tm_node t) (mText m) s\<rparr> in
    Validate uc (Some m') = (None, Some m')
    \<and> printEvent (chat_event m' (tm_node t)) t = printEvent (system_event s) (printEvent (chat_event m (tm_node t)) t)"
proof -
  let ?m = "m\<lparr>mText := forged_text (tm_node t) (mText m) s\<rparr>"
  have v: "ValidateEnvelope (Some m) = None" "validate_chat uc m = (None, m)"
    using assms(1,2) by (auto simp: Validate_ok_iff validate_type_def type_defs simp del: Validate.simps)
  have "validate_text ?m = None" using assms(4) by (simp add: validate_text_def forged_text_def)
  moreover have "m\<lparr>mChannel := ch\<rparr> = m \<Longrightarrow> m\<lparr>mText := x, mChannel := ch\<rparr> = m\<lparr>mText := x\<rparr>" for ch x by (cases m) simp
  ultimately have "validate_chat uc ?m = (None, ?m)"
    using v(2) by (auto simp: validate_chat_def validate_text_def Let_def split: if_splits sum.splits)
  then have "Validate uc (Some ?m) = (None, Some ?m)"
    using v(1) assms(2)
    by (simp add: Validate_ok_iff validate_type_def type_defs ValidateEnvelope.simps del: Validate.simps split: if_splits)
  moreover have "printEvent (chat_event ?m (tm_node t)) t = printEvent (system_event s) (printEvent (chat_event m (tm_node t)) t)"
    using assms(3)
    by (simp add: printEvent_def printPrompt_def printf_def event_line_def chat_event_def system_event_def FormatChat_def forged_text_def Let_def)
  ultimately show ?thesis by simp
qed

theorem forged_system_line_witness:
  "let m = zero_message\<lparr>mType := TypeChat, mID := ''1'', mTimestamp := 7, mSender := ''ann'', mChannel := ''#general'', mText := ''hi''\<rparr>;
       t = \<lparr>tm_node = sample_node CHR ''k'', tm_out = []\<rparr>;
       m' = m\<lparr>mText := ''hi'' @ [CHR 0x0A] @ ''#general> '' @ [CHR 0x0D] @ ''* all peers left''\<rparr> in
   Validate sample_uc (Some m') = (None, Some m')
   \<and> printEvent (chat_event m' (tm_node t)) t = printEvent (system_event ''all peers left'') (printEvent (chat_event m (tm_node t)) t)"
proof -
  let ?m = "zero_message\<lparr>mType := TypeChat, mID := ''1'', mTimestamp := 7, mSender := ''ann'', mChannel := ''#general'', mText := ''hi''\<rparr>"
  let ?t = "\<lparr>tm_node = sample_node CHR ''k'', tm_out = []\<rparr>"
  have p: "prompt (sample_node CHR ''k'') = ''#general> ''" by (simp add: prompt_def sample_node_fields)
  have len: "RuneCount ''hi'' \<le> MaxTextLen" "RuneCount (forged_text (tm_node ?t) (mText ?m) ''all peers left'') \<le> MaxTextLen"
    by (simp_all add: forged_text_def p RuneCount_def runes_ascii ascii_def bytes_of_def size_defs)
  have "channel_name ''#general''" by (simp add: channel_name_def)
  then have "validate_chat sample_uc ?m = (None, ?m)"
    using len(1) by (simp add: validate_chat_def validate_text_def NormalizeChannel_id zero_message_def)
  then have "Validate sample_uc (Some ?m) = (None, Some ?m)"
    by (simp add: Validate_ok_iff validate_type_def type_defs zero_message_def size_defs ValidateEnvelope.simps del: Validate.simps)
  from forged_system_line [OF this _ _ len(2)] show ?thesis by (simp add: forged_text_def p)
qed

end
