(* ===== verification/Program.thy ===== *)
theory Program
  imports Terminal
begin

text \<open>
  \<^verbatim>\<open>src/cmd/p2pirc/main.go\<close>: the process, from its arguments to its exit status. What the operating system
  gives it is the record \<open>world\<close>; the branches the terminal takes and the steps of the goroutines that
  \<^verbatim>\<open>Start\<close> launches are the list of selections of the terminal. The list \<open>late\<close> holds the events that goroutines are
  in the middle of emitting when the node closes: they copied the list of queues before and send after it.
\<close>

section \<open>Definitions\<close>

record world =
  w_parse_int :: "string \<Rightarrow> int option"
  w_join :: "string \<Rightarrow> string \<Rightarrow> string"
  w_home :: "string option"
  w_fs :: "string \<Rightarrow> file_read"
  w_id :: id_env
  w_now :: "nat \<Rightarrow> int"
  w_key :: "string option"
  w_peers_json :: "string \<Rightarrow> dir_record list option"
  w_listen :: "config \<Rightarrow> int option"
  w_multicast :: bool
  w_err_text :: "node_err \<Rightarrow> string"
  w_gateway :: upnp_env
  w_cmd :: cmd_env

datatype run_err = RunConfig cfg_err | RunIdentity id_file_err | RunStart node_err

text \<open>
  How far \<^verbatim>\<open>run\<close> got: it returned an error, it printed the version, the terminal is still running, it panicked
  while the node closed, or it returned and the node was closed. The last three carry the events shown and the
  terminal as it was last, the last one also the closed node, what closing it left in the identity file (\<open>None\<close>: the
  file was not replaced) and the requests it sent to the gateway.
\<close>

datatype outcome =
    Refused run_err | ShowedVersion string | Running "event list" terminal | Panicked "event list" terminal
  | Finished "event list" terminal node "string option" "http_req list"

definition closing_file :: "nenv \<Rightarrow> node \<Rightarrow> string option" where
  "closing_file env n =
     (if nd_closed n then None else snd (snd (Save_id (e_id_files env) (e_clock env 0) (nd_ident (save_dir env n)))))"

definition late_panic :: "event list \<Rightarrow> node \<Rightarrow> node \<Rightarrow> bool" where
  "late_panic late n n1 \<longleftrightarrow> list_ex (\<lambda>ev. send_all ev (emit_snapshot n) n1 = None) late"

definition run :: "unicode \<Rightarrow> crypto \<Rightarrow> world \<Rightarrow> sel list \<Rightarrow> event list \<Rightarrow> string list \<Rightarrow> outcome" where
  "run uc c w sels late args =
     (case Parse_config uc (w_parse_int w) (w_join w) (w_home w) (w_fs w) args of
        Inl e \<Rightarrow> Refused (RunConfig e)
      | Inr cfg \<Rightarrow>
          if cfShowVersion cfg then ShowedVersion (version_String (ce_version (w_cmd w)) (ce_commit (w_cmd w)) @ [CHR 0x0A])
          else
            (case LoadOrCreate c (w_id w) (w_now w 0) (w_now w 1) (w_key w) (cfDataDir cfg) of
               Inl e \<Rightarrow> Refused (RunIdentity e)
             | Inr ident \<Rightarrow>
                 (case Start (w_join w) (Load_dir (w_join w) (w_peers_json w) (w_fs w) (cfDataDir cfg)) (ce_ifaces (w_cmd w))
                         (w_listen w cfg) (w_multicast w) (Some cfg) (Some ident) of
                    Inl e \<Rightarrow> Refused (RunStart e)
                  | Inr n \<Rightarrow>
                      (case Run uc c (w_err_text w) (w_cmd w) sels n of
                         (fin, evs, t) \<Rightarrow>
                           if \<not> fin then Running evs t
                           else
                             (case Close_node (w_gateway w) (ce_env (w_cmd w)) (tm_node t) of
                                (reqs, n1) \<Rightarrow>
                                  if late_panic late (tm_node t) n1 then Panicked evs t
                                  else Finished evs t n1 (closing_file (ce_env (w_cmd w)) (tm_node t)) reqs)))))"


text \<open>The terminal and the events of a process that came as far as its terminal.\<close>

fun session :: "outcome \<Rightarrow> (event list \<times> terminal) option" where
  "session (Running evs t) = Some (evs, t)"
| "session (Panicked evs t) = Some (evs, t)"
| "session (Finished evs t n file reqs) = Some (evs, t)"
| "session _ = None"

text \<open>
  What a process relies on: signatures by the key it loads or makes verify, the key it makes has the
  length of a private key, the directory file it loads is one that the program wrote, and ranging over a map
  visits its keys once.
\<close>

definition world_ok :: "unicode \<Rightarrow> crypto \<Rightarrow> world \<Rightarrow> bool" where
  "world_ok uc c w \<longleftrightarrow>
     pred_option (\<lambda>k. length k = PrivateKeySize) (w_key w) \<and> ranges_ok (w_gateway w)
     \<and> (\<forall>dir i. LoadOrCreate c (w_id w) (w_now w 0) (w_now w 1) (w_key w) dir = Inr i \<longrightarrow> key_ok c (idPrivateKey i))
     \<and> (\<forall>dir d. Load_dir (w_join w) (w_peers_json w) (w_fs w) dir = Inr d \<longrightarrow> dir_inv uc d)"



text \<open>
  What a restart relies on: encoding and decoding an identity record keeps its keys and its peer id, which are hex
  digits. Other fields need not survive: the JSON encoder replaces what is not valid UTF-8 in a nickname.
\<close>

definition json_keeps_keys :: "id_env \<Rightarrow> id_env \<Rightarrow> bool" where
  "json_keeps_keys env env' \<longleftrightarrow>
     (\<forall>rec data. ie_marshal env rec = Some data \<longrightarrow> ascii (frPeerID rec @ frPublicKey rec @ frPrivateKey rec) \<longrightarrow>
        (\<exists>rec'. ie_unmarshal env' (data @ [CHR 0x0A]) = Some rec' \<and> frPeerID rec' = frPeerID rec
           \<and> frPublicKey rec' = frPublicKey rec \<and> frPrivateKey rec' = frPrivateKey rec))"

text \<open>Examples: an empty home directory.\<close>

definition sample_world :: world where
  "sample_world =
     \<lparr>w_parse_int = (\<lambda>s. None), w_join = (@), w_home = Some ''/home/ann'', w_fs = (\<lambda>p. FileMissing),
      w_id = sample_files, w_now = (\<lambda>i. 7), w_key = Some (replicate 64 CHR ''k''), w_peers_json = (\<lambda>s. None),
      w_listen = (\<lambda>cfg. Some 7777), w_multicast = True, w_err_text = (\<lambda>e. ''error''),
      w_gateway = sample_gateway [] 200, w_cmd = sample_cmd_env\<rparr>"

definition sample_config :: config where
  "sample_config = flag_defaults\<lparr>cfDataDir := ''/home/ann.p2pirc''\<rparr>"

definition sample_end :: "event list \<Rightarrow> bool \<times> event list \<times> terminal \<Rightarrow> outcome" where
  "sample_end late res =
     (case res of
        (fin, evs, t) \<Rightarrow>
          if \<not> fin then Running evs t
          else
            (case Close_node (sample_gateway [] 200) sample_nenv (tm_node t) of
               (reqs, n1) \<Rightarrow>
                 if late_panic late (tm_node t) n1 then Panicked evs t
                 else Finished evs t n1 (closing_file sample_nenv (tm_node t)) reqs))"

definition sample_restart :: world where
  "sample_restart = sample_world\<lparr>w_id := sample_files\<lparr>ie_fs := (\<lambda>p. FileData (''stored'' @ [CHR 0x0A]))\<rparr>\<rparr>"

section \<open>Loading, starting and closing\<close>

lemma LoadOrCreate_ok:
  assumes "pred_option (\<lambda>k. length k = PrivateKeySize) key" "LoadOrCreate c env now1 now2 key dir = Inr i"
  shows "id_ok c i"
proof -
  have keys: "id_ok c j = id_ok c i" if "id_keys j = id_keys i" for i j using that by (simp add: id_ok_def id_keys_def)
  have "Generate c now1 key = Inr j \<Longrightarrow> id_ok c j" for j
    using Generate_ok assms(1) by (cases key) (auto simp: Generate_def)
  then have "Generate c now1 key = Inr j \<Longrightarrow> Save_id env now2 j = (None, i, x) \<Longrightarrow> id_ok c i" for j x
    using keys id_keys_save [of env now2 j] by (metis fst_conv snd_conv)
  then show ?thesis
    using assms(2) by (auto simp: LoadOrCreate_def dest: fromRecord_ok split: if_splits file_read.splits sum.splits option.splits prod.splits)
qed

lemma Start_frame:
  "Start fjoin dir ifaces listened multicast (Some cfg) (Some ident) = Inr n \<Longrightarrow>
     \<not> nd_closed n \<and> id_keys (nd_ident n) = id_keys ident \<and> nd_cfg n = cfg"
  by (auto simp: Start_def Let_def refreshAdvertise_def id_keys_def split: if_splits option.splits)





lemma run_session:
  assumes "session (run uc c w sels late args) = Some (evs, t)" "world_ok uc c w" "\<forall>s \<in> set sels. sel_ok uc c s"
  obtains ident where "LoadOrCreate c (w_id w) (w_now w 0) (w_now w 1) (w_key w) (cfDataDir (nd_cfg (tm_node t))) = Inr ident"
    "node_reach uc c (tm_node t)" "events_authentic uc c evs" "\<not> nd_closed (tm_node t)" "nd_events (tm_node t) \<noteq> []"
    "id_keys (nd_ident (tm_node t)) = id_keys ident"
    "run uc c w sels late args \<in> {Running evs t, Panicked evs t,
       Finished evs t (snd (Close_node (w_gateway w) (ce_env (w_cmd w)) (tm_node t))) (closing_file (ce_env (w_cmd w)) (tm_node t))
         (fst (Close_node (w_gateway w) (ce_env (w_cmd w)) (tm_node t)))}"
    "run uc c w sels late args = Running evs t
     \<or> (run uc c w sels late args = Panicked evs t
        \<longleftrightarrow> late_panic late (tm_node t) (snd (Close_node (w_gateway w) (ce_env (w_cmd w)) (tm_node t))))"
proof -
  let ?cfg = "Parse_config uc (w_parse_int w) (w_join w) (w_home w) (w_fs w) args"
  let ?dir = "\<lambda>cfg. Load_dir (w_join w) (w_peers_json w) (w_fs w) (cfDataDir cfg)"
  obtain cfg ident n where cfg: "?cfg = Inr cfg" "\<not> cfShowVersion cfg"
    and id: "LoadOrCreate c (w_id w) (w_now w 0) (w_now w 1) (w_key w) (cfDataDir cfg) = Inr ident"
    and st: "Start (w_join w) (?dir cfg) (ce_ifaces (w_cmd w)) (w_listen w cfg) (w_multicast w) (Some cfg) (Some ident) = Inr n"
    using assms(1) by (auto simp: run_def split: sum.splits if_splits)
  obtain fin evs0 t0 where r: "Run uc c (w_err_text w) (w_cmd w) sels n = (fin, evs0, t0)" by (metis prod_cases3)
  obtain reqs n1 where cl: "Close_node (w_gateway w) (ce_env (w_cmd w)) (tm_node t0) = (reqs, n1)" by force
  have "id_ok c ident" "key_ok c (idPrivateKey ident)" "\<And>d. ?dir cfg = Inr d \<Longrightarrow> dir_inv uc d"
    using assms(2) id LoadOrCreate_ok unfolding world_ok_def by blast+
  from node_reach.Started [OF st this] have reach: "node_reach uc c n" .
  have res: "run uc c w sels late args =
      (if \<not> fin then Running evs0 t0
       else if late_panic late (tm_node t0) n1 then Panicked evs0 t0
       else Finished evs0 t0 n1 (closing_file (ce_env (w_cmd w)) (tm_node t0)) reqs)"
    unfolding run_def cfg(1) id st r sum.case using cfg(2) by (simp add: cl)
  note safe = Run_safe [OF r reach assms(3)]
  have k: "\<not> nd_closed (tm_node t0) \<and> id_keys (nd_ident (tm_node t0)) = id_keys ident \<and> nd_cfg (tm_node t0) = cfg"
    using Start_frame [OF st] safe by (simp add: goes_on_def constants_def)
  have "evs0 = evs" "t0 = t" using res assms(1) by (simp_all split: if_splits)
  then show thesis using that [of ident] id safe k res cl Start_frame [OF st] by (auto split: if_splits)
qed

lemma closing_file_loads:
  assumes "id_ok c (nd_ident n)" "closing_file env n = Some bytes"
    and json: "json_keeps_keys (e_id_files env) env'"
    and stored: "ie_fs env' (Path_id (ie_join env') dir) = FileData bytes"
    and load: "LoadOrCreate c env' now1 now2 key dir = Inr i"
  shows "id_keys i = id_keys (nd_ident n)"
proof -
  let ?i = "nd_ident n"
  obtain i1 where save: "Save_id (e_id_files env) (e_clock env 0) ?i = (None, i1, Some bytes)"
    using assms(2) by (auto simp: closing_file_def save_dir_def Save_id_def Let_def split: if_splits option.splits prod.splits)
  obtain rec data where rec: "toRecord (ie_rfc3339 (e_id_files env)) (e_clock env 0) ?i = (rec, i1)"
    and data: "ie_marshal (e_id_files env) rec = Some data" "bytes = data @ [CHR 0x0A]"
    using save by (auto simp: Save_id_def split: if_splits option.splits prod.splits)
  have f: "frPeerID rec = idPeerID ?i" "frPublicKey rec = hex_encode (idPublicKey ?i)" "frPrivateKey rec = hex_encode (idPrivateKey ?i)"
    using rec by (auto simp: toRecord_def Let_def split: if_splits)
  have "ascii (frPeerID rec @ frPublicKey rec @ frPrivateKey rec)"
    using assms(1) ascii_hex_encode by (auto simp: f id_ok_def DerivePeerID_def ascii_def)
  then obtain rec' where rec': "ie_unmarshal env' bytes = Some rec'" "frPeerID rec' = frPeerID rec"
    "frPublicKey rec' = frPublicKey rec" "frPrivateKey rec' = frPrivateKey rec"
    using json data unfolding json_keeps_keys_def by blast
  then have "fromRecord c (ie_parse3339 env') rec' = Inr i"
    using load stored by (auto simp: LoadOrCreate_def split: if_splits sum.splits)
  then show ?thesis
    using rec'(2-4) f assms(1) length_ed_public [of "idPrivateKey ?i"]
    by (auto simp: fromRecord_def id_ok_def id_keys_def hex_decode_encode Let_def split: if_splits)
qed

section \<open>An example\<close>

lemma sample_loads:
  "LoadOrCreate toy_crypto (w_id sample_world) 7 7 (Some (replicate 64 CHR ''k'')) dir = Inr ((sample_ident CHR ''k'')\<lparr>idCreatedAt := 7\<rparr>)"
  "LoadOrCreate toy_crypto (w_id sample_restart) 7 7 (Some (replicate 64 CHR ''k'')) dir = Inr ((sample_ident CHR ''k'')\<lparr>idCreatedAt := 7\<rparr>)"
  by (simp_all add: LoadOrCreate_def sample_world_def sample_restart_def sample_files_def Generate_def Save_id_def toRecord_def sample_record_def
      sample_ident_def ed_public_def fromRecord_def hex_decode_encode key_size_defs drop_replicate Let_def)

lemma sample_worlds:
  "w \<in> {sample_world, sample_restart} \<Longrightarrow> world_ok uc toy_crypto w"
  "w \<in> {sample_world, sample_restart} \<Longrightarrow>
     \<exists>n. Start (@) (Load_dir (@) (w_peers_json w) (w_fs w) dir) None (Some 7777) True (Some sample_config) (Some i) = Inr n \<and> nd_ident n = i
       \<and> nd_cfg n = sample_config \<and> \<not> nd_closed n"
proof -
  assume w: "w \<in> {sample_world, sample_restart}"
  have "dir_inv uc d" if "Load_dir (w_join w) (w_peers_json w) (w_fs w) dir = Inr d" for dir d
    using that w by (auto simp: Load_dir_def sample_world_def sample_restart_def dir_inv_def New_dir_def gm_laws Let_def)
  moreover have "key_ok toy_crypto (idPrivateKey i)" if "LoadOrCreate toy_crypto (w_id w) (w_now w 0) (w_now w 1) (w_key w) dir = Inr i" for dir i
  proof -
    have "w_now w = (\<lambda>i. 7)" "w_key w = Some (replicate 64 CHR ''k'')" using w by (auto simp: sample_world_def sample_restart_def)
    then have "i = (sample_ident CHR ''k'')\<lparr>idCreatedAt := 7\<rparr>" using that w sample_loads by auto
    then show ?thesis using sample_ident_ok(2) by simp
  qed
  moreover have "pred_option (\<lambda>k. length k = PrivateKeySize) (w_key w)"
    using w by (auto simp: sample_world_def sample_restart_def key_size_defs)
  moreover have "ranges_ok (w_gateway w)"
    using w by (auto simp: sample_world_def sample_restart_def sample_gateway_def ranges_ok_def)
  ultimately show "world_ok uc toy_crypto w" unfolding world_ok_def by blast
  show "\<exists>n. Start (@) (Load_dir (@) (w_peers_json w) (w_fs w) dir) None (Some 7777) True (Some sample_config) (Some i) = Inr n
      \<and> nd_ident n = i \<and> nd_cfg n = sample_config \<and> \<not> nd_closed n"
    by (simp add: Start_def sample_config_def flag_defaults_def Default_def refreshAdvertise_def Let_def)
qed

lemma sample_run:
  assumes w: "w \<in> {sample_world, sample_restart}"
  obtains n where "run uc toy_crypto w sels late [] =
      sample_end late (Run uc toy_crypto (w_err_text w) sample_cmd_env sels n)"
    "nd_ident n = (sample_ident CHR ''k'')\<lparr>idCreatedAt := 7\<rparr>" "nd_cfg n = sample_config" "\<not> nd_closed n"
proof -
  have world: "w_parse_int w = (\<lambda>s. None)" "w_join w = (@)" "w_home w = Some ''/home/ann''" "w_fs w = (\<lambda>p. FileMissing)"
    "w_now w = (\<lambda>i. 7)" "w_key w = Some (replicate 64 CHR ''k'')" "w_listen w = (\<lambda>cfg. Some 7777)" "w_multicast w = True" "w_cmd w = sample_cmd_env"
    "w_gateway w = sample_gateway [] 200"
    using w by (auto simp: sample_world_def sample_restart_def)
  have cfg: "Parse_config uc (\<lambda>s. None) (@) (Some ''/home/ann'') (\<lambda>p. FileMissing) [] = Inr sample_config" "\<not> cfShowVersion sample_config"
    by (simp_all add: Parse_config_def sample_config_def flag_defaults_def Default_def DefaultDataDir_def applyFile_def applyLan_def DefaultPort_def
        DefaultMaxPeers_def)
  have id: "LoadOrCreate toy_crypto (w_id w) 7 7 (Some (replicate 64 CHR ''k'')) (cfDataDir sample_config)
      = Inr ((sample_ident CHR ''k'')\<lparr>idCreatedAt := 7\<rparr>)"
    using w sample_loads by blast
  obtain n where n: "Start (@) (Load_dir (@) (w_peers_json w) (w_fs w) (cfDataDir sample_config)) None (Some 7777) True (Some sample_config)
      (Some ((sample_ident CHR ''k'')\<lparr>idCreatedAt := 7\<rparr>)) = Inr n"
    "nd_ident n = (sample_ident CHR ''k'')\<lparr>idCreatedAt := 7\<rparr>" "nd_cfg n = sample_config" "\<not> nd_closed n"
    using sample_worlds(2) [OF w] by blast
  have env: "ce_ifaces sample_cmd_env = None" "ce_env sample_cmd_env = sample_nenv" by (simp_all add: sample_cmd_env_def)
  show thesis
  proof (rule that [OF _ n(2-4)])
    show "run uc toy_crypto w sels late [] =
      sample_end late (Run uc toy_crypto (w_err_text w) sample_cmd_env sels n)"
      unfolding run_def world env cfg(1) sum.case id n(1) [unfolded world(4)] sample_end_def using cfg(2) by simp
  qed
qed

section \<open>Properties\<close>



text \<open>
  C18. A restart keeps the identity: when closing a process left an identity file and a later process finds that
  file in its data directory, both have the same keys and the same peer id, whatever the user did in
  between (a change of the nickname included). Of JSON it relies on this only: encoding and decoding a record
  keeps its peer id and its keys, which are hex digits.
\<close>

theorem restart_keeps_identity:
  assumes "run uc c w sels late args = Finished evs t n (Some bytes) reqs" "world_ok uc c w" "\<forall>s \<in> set sels. sel_ok uc c s"
    and "session (run uc c w' sels' late' args') = Some (evs', t')" "world_ok uc c w'" "\<forall>s \<in> set sels'. sel_ok uc c s"
    and json: "json_keeps_keys (e_id_files (ce_env (w_cmd w))) (w_id w')"
    and stored: "ie_fs (w_id w') (Path_id (ie_join (w_id w')) (cfDataDir (nd_cfg (tm_node t')))) = FileData bytes"
  shows "id_keys (nd_ident (tm_node t')) = id_keys (nd_ident n)"
proof -
  have "session (run uc c w sels late args) = Some (evs, t)" using assms(1) by simp
  then obtain ident0 where t: "node_reach uc c (tm_node t)"
    and r: "run uc c w sels late args \<in> {Running evs t, Panicked evs t,
       Finished evs t (snd (Close_node (w_gateway w) (ce_env (w_cmd w)) (tm_node t))) (closing_file (ce_env (w_cmd w)) (tm_node t))
         (fst (Close_node (w_gateway w) (ce_env (w_cmd w)) (tm_node t)))}"
    using assms(2,3) by (rule run_session)
  have res: "closing_file (ce_env (w_cmd w)) (tm_node t) = Some bytes" "n = snd (Close_node (w_gateway w) (ce_env (w_cmd w)) (tm_node t))"
    using r unfolding assms(1) by simp_all
  have id: "id_ok c (nd_ident (tm_node t))" using node_invD(7) [OF reach_inv [OF t]] .
  obtain ident where t1: "LoadOrCreate c (w_id w') (w_now w' 0) (w_now w' 1) (w_key w') (cfDataDir (nd_cfg (tm_node t'))) = Inr ident"
    "id_keys (nd_ident (tm_node t')) = id_keys ident"
    using assms(4-6) by (rule run_session)
  have "id_keys ident = id_keys (nd_ident (tm_node t))"
    by (rule closing_file_loads [OF id res(1) json stored t1(1)])
  then show ?thesis using t1(2) constants_Close res(2) by (simp add: constants_def)
qed

theorem restart_keeps_identity_witness:
  "\<exists>t n t' n' r r'. run sample_uc toy_crypto sample_world [SelDone] [] [] = Finished [] t n (Some (''stored'' @ [CHR 0x0A])) r
     \<and> run sample_uc toy_crypto sample_restart [SelDone] [] [] = Finished [] t' n' (Some (''stored'' @ [CHR 0x0A])) r'
     \<and> id_keys (nd_ident (tm_node t')) = id_keys (nd_ident n)"
proof -
  have run: "\<exists>t n1 r. run sample_uc toy_crypto w [SelDone] [] [] = Finished [] t n1 (Some (''stored'' @ [CHR 0x0A])) r
      \<and> nd_cfg (tm_node t) = sample_config"
    if w: "w \<in> {sample_world, sample_restart}" for w
  proof (rule sample_run [OF w, of sample_uc "[SelDone]" "[]"])
    fix n
    assume r: "run sample_uc toy_crypto w [SelDone] [] [] = sample_end [] (Run sample_uc toy_crypto (w_err_text w) sample_cmd_env [SelDone] n)"
      and n: "nd_ident n = (sample_ident CHR ''k'')\<lparr>idCreatedAt := 7\<rparr>" "nd_cfg n = sample_config" "\<not> nd_closed n"
    have "closing_file sample_nenv (snd (Subscribe n)) = Some (''stored'' @ [CHR 0x0A])"
      using n by (simp add: closing_file_def Subscribe_def save_dir_def sample_nenv_def sample_files_def Save_id_def toRecord_def sample_record_def
          sample_ident_def)
    moreover have "nd_cfg (snd (Subscribe n)) = sample_config"
      using n by (simp add: Subscribe_def)
    ultimately show ?thesis using r by (simp add: Run_def case_prod_unfold Let_def sample_end_def late_panic_def)
  qed
  from run [of sample_world] obtain t n r
    where t: "run sample_uc toy_crypto sample_world [SelDone] [] [] = Finished [] t n (Some (''stored'' @ [CHR 0x0A])) r"
    by auto
  from run [of sample_restart] obtain t' n' r'
    where t': "run sample_uc toy_crypto sample_restart [SelDone] [] [] = Finished [] t' n' (Some (''stored'' @ [CHR 0x0A])) r'"
    by auto
  have files: "json_keeps_keys (e_id_files (ce_env (w_cmd sample_world))) (w_id sample_restart)"
    by (auto simp: json_keeps_keys_def sample_world_def sample_restart_def sample_cmd_env_def sample_nenv_def sample_files_def split: if_splits)
  have stored: "ie_fs (w_id sample_restart) p = FileData (''stored'' @ [CHR 0x0A])" for p by (simp add: sample_restart_def)
  have ok: "world_ok sample_uc toy_crypto sample_world" "world_ok sample_uc toy_crypto sample_restart" by (simp_all add: sample_worlds)
  have sels: "\<forall>s \<in> set [SelDone]. sel_ok sample_uc toy_crypto s" by simp
  have ses: "session (run sample_uc toy_crypto sample_restart [SelDone] [] []) = Some ([], t')" unfolding t' by simp
  have "id_keys (nd_ident (tm_node t')) = id_keys (nd_ident n)"
    by (rule restart_keeps_identity [OF t ok(1) sels ses ok(2) sels files stored])
  then show ?thesis using t t' by blast
qed

end
