(* ===== verification/Spec2Isabelle.thy ===== *)
theory Spec2Isabelle
  imports Router Limiter Backoff Channels Chat Stun Handshake Directory Discovery Config Node Connect Commands
    NodeInv NodeAuth NodeChat NodeFrame Codec Wire Upnp Tls Logger Terminal Program
begin

text \<open>
  \<^bold>\<open>RainIRC\<close>: a serverless chat program. Every process is a node that listens for TCP connections,
  keeps a table of peers, floods signed messages through them and shows the chat of the channels its user
  joined. This development models the program and proves what makes its parts, and a whole node, correct.

  \<^bold>\<open>The parts and how they interact.\<close> A \<^emph>\<open>message\<close> (\<^verbatim>\<open>src/internal/protocol\<close>) is validated, checked for its
  age, signed and verified. A \<^emph>\<open>connection\<close> (\<^verbatim>\<open>src/internal/peer\<close>) starts with a handshake of signed
  frames; the \<^emph>\<open>peer table\<close> keeps one connection per peer id, calls the node's hooks when a peer comes,
  is replaced or goes, and broadcasts messages. The \<^emph>\<open>router\<close> (\<^verbatim>\<open>src/internal/router\<close>) drops what is
  invalid, old or known, hands the rest to the node and forwards it to all other peers. The \<^emph>\<open>node\<close>
  (\<^verbatim>\<open>src/internal/node\<close>) verifies the signature of what a peer sends, applies the \<^emph>\<open>rate limiter\<close>, calls
  the router, and updates \<^emph>\<open>channels\<close>, \<^emph>\<open>directory\<close> (the peers it knows, with aliases) and the event queues
  of its subscribers. It dials peers named by the user, by the directory or by \<^emph>\<open>discovery\<close> (multicast
  announcements), with a \<^emph>\<open>backoff\<close> after failures, and learns its own addresses from the interfaces, \<^emph>\<open>STUN\<close> and
  \<^emph>\<open>UPnP\<close>. The \<^emph>\<open>codec\<close> frames messages as lines, \<^emph>\<open>TLS\<close> wraps the connections. Commands of the user are lines that
  \<^verbatim>\<open>chat.Parse\<close> splits; the \<^emph>\<open>terminal\<close> reads them and prints the events of the node, and \<^verbatim>\<open>main\<close> puts a process together
  from its arguments, its files, a node and a terminal.

  \<^bold>\<open>Theories.\<close> (paths below \<^verbatim>\<open>src/internal\<close>)
  \<^item> \<open>Prelude\<close>: maps of Go with their iteration order as an argument (\<open>gomap\<close>), folds, results of reading a file.
    \<open>GoStrings\<close>: the functions of \<^verbatim>\<open>strings\<close>, \<^verbatim>\<open>strconv\<close>, \<^verbatim>\<open>unicode/utf8\<close> and \<^verbatim>\<open>encoding/hex\<close> the program calls, on byte
    strings; case mapping beyond ASCII is the argument \<open>unicode\<close>. \<open>GoNet\<close>: \<^verbatim>\<open>net.SplitHostPort\<close>, \<^verbatim>\<open>net.JoinHostPort\<close>,
    \<^verbatim>\<open>strconv.Atoi\<close>, IP addresses.
  \<^item> \<open>Protocol\<close> (\<^verbatim>\<open>protocol/message.go\<close>): record \<open>message\<close>, its constructors, \<open>NormalizeChannel\<close>, \<open>Validate\<close>, \<open>Fresh\<close>
    with the wrap-around of \<^verbatim>\<open>time.Unix\<close> and the saturation of \<^verbatim>\<open>Time.Sub\<close>. Timestamps are 64-bit words, times are
    nanoseconds of type \<open>int\<close>. \<open>Sign\<close> (\<^verbatim>\<open>protocol/sign.go\<close>) and \<open>Identity\<close> (\<^verbatim>\<open>identity/identity.go\<close>): the signed
    payload, signing and verifying, peer ids, the identity file. Ed25519 and SHA-256 are the record \<open>crypto\<close>; what is
    assumed of them is named (\<open>sha_ok\<close>, \<open>key_ok\<close>, \<open>own_key\<close>).
  \<^item> \<open>Seen\<close>, \<open>Router\<close> (\<^verbatim>\<open>router/\<close>): the duplicate cache, and \<open>Handle\<close>, whose calls of handler and sender are values of
    the type \<open>effect\<close>. \<open>Limiter\<close> (\<^verbatim>\<open>limiter/\<close>), \<open>Backoff\<close> (\<^verbatim>\<open>backoff/\<close>, durations as 64-bit words), \<open>Channels\<close>
    (\<^verbatim>\<open>channel/\<close>), \<open>Chat\<close> (\<^verbatim>\<open>chat/\<close>), \<open>Netutil\<close> (\<^verbatim>\<open>netutil/\<close>), \<open>Stun\<close> (\<^verbatim>\<open>stun/\<close>, over bytes of type \<open>8 word\<close>),
    \<open>Directory\<close> (\<^verbatim>\<open>directory/\<close>), \<open>Discovery\<close> (\<^verbatim>\<open>discovery/\<close>), \<open>Config\<close> (\<^verbatim>\<open>config/\<close>), \<open>Upnp\<close> (\<^verbatim>\<open>upnp/\<close>, with the requests
    each call makes), \<open>Tls\<close> (\<^verbatim>\<open>transport/\<close>, over the record \<open>tls_lib\<close> for \<^verbatim>\<open>crypto/tls\<close> and \<^verbatim>\<open>crypto/x509\<close>), \<open>Logger\<close> (\<^verbatim>\<open>logger/\<close>).
  \<^item> \<open>Codec\<close> (\<^verbatim>\<open>protocol/codec.go\<close>): a stream is the string of its bytes; \<open>readLineLimited\<close> takes it in the chunks a
    \<^verbatim>\<open>bufio\<close> buffer of any size gives. \<open>Wire\<close> joins it with the node.
  \<^item> \<open>Peer\<close> and \<open>Handshake\<close> (\<^verbatim>\<open>peer/peer.go\<close>): connections live in a store indexed by handles, so that two
    connections of one peer are distinct objects; one step per turn of the read and write goroutines; the hooks are
    values of the type \<open>peer_event\<close>.
  \<^item> \<open>Node\<close> (\<^verbatim>\<open>node/node.go\<close>, \<^verbatim>\<open>handlers.go\<close>), \<open>Connect\<close> (\<^verbatim>\<open>node/connect.go\<close>, \<^verbatim>\<open>nat.go\<close>), \<open>Commands\<close>
    (\<^verbatim>\<open>node/commands.go\<close>, \<^verbatim>\<open>version/version.go\<close>): the composition, every operation a function on the record \<open>node\<close>
    that performs the calls between the components.
  \<^item> \<open>NodeInv\<close>, \<open>NodeAuth\<close>, \<open>NodeChat\<close>, \<open>NodeFrame\<close>: the step relation \<open>node_step\<close> (one constructor per goroutine turn,
    input line and timer), the reachable states and the theorems on them; what no operation changes.
  \<^item> \<open>Terminal\<close> (\<^verbatim>\<open>ui/terminal.go\<close>) and \<open>Program\<close> (\<^verbatim>\<open>cmd/p2pirc/main.go\<close>): a run of the terminal is a list of the branches
    its \<^verbatim>\<open>select\<close> takes, with the steps of the other goroutines in between; a process goes from its arguments to its
    exit status, with what the operating system gives it as the record \<open>world\<close>.

  \<^bold>\<open>Interfaces.\<close> Locales state what a client needs of a provider and are interpreted on the model's own
  definitions: the map of Go (\<open>go_map\<close> in \<open>Prelude\<close>), a component that keeps an invariant or simulates an abstract
  machine over every history of its operations (\<open>component\<close>, \<open>simulation\<close>; interpreted by the directory and the
  channels), the duplicate cache for the router (\<open>seen_cache\<close> in \<open>Seen\<close>), and a policy on messages that the node's
  operations keep (\<open>policy\<close> in \<open>NodeAuth\<close>, interpreted with the signature check).

  \<^bold>\<open>What is shown.\<close>
  \<^item> A node, in every reachable state: only messages with a valid signature of the sender's key are shown,
    kept in a history or forwarded; the invariants of all components hold together; a line of chat reaches
    the neighbours in the channel.
  \<^item> A process, from its arguments to its exit: its terminal shows only authentic messages, it exits with its node
    closed, and a restart has the same keys and peer id.
  \<^item> Routing: exactly which messages are handled, no id is handled twice while the cache remembers it, the
    cache is bounded and remembers.
  \<^item> Signatures and identities: what verification guarantees, that an honest signature verifies, for which
    messages the payload is injective; identity and directory files are read back.
  \<^item> Peers: only a peer that proved possession of its key enters the table, two honest nodes complete the
    handshake, both ends keep the same one of two crossing sessions, table and hooks stay consistent; over TLS the
    id is that of the certificate's key. What one end of a connection writes the other reads, in order, and the
    chunked line reader equals a reference on the whole stream.
  \<^item> Limits: the rate limiter passes exactly what a sliding window allows and stays bounded, the retry delays
    double up to their cap.
  \<^item> The smaller parts: channels refine an abstract log, the STUN client accepts its own reply and reads it back,
    the address filter equals a loop-free reference, aliases stay unique, pruning of neighbours ends and keeps the
    newest, settings of the command line prevail, commands are parsed back, a gateway's service is found in its
    description and a port mapping is reported exactly when it was granted.
  \<^item> Behaviour that is hardly intended, proved as such: a signature can be moved between messages with newlines,
    a channel not in normal form breaks a forwarded signature, ids that differ in case count as different
    peers, an unsigned datagram displaces a verified neighbour, an oversized line is dropped silently, one message
    can close the connections it is forwarded to, a chat text can forge lines of the terminal, an input line of
    64 KiB ends the program, a mapping without external address is advertised as \<^verbatim>\<open>0.0.0.0\<close>.

  \<^bold>\<open>Arguments and bounds.\<close> Clock readings, random bytes, iteration orders of maps, choices of \<^verbatim>\<open>select\<close>, JSON,
  rendered times, files and the answers of the network are arguments (records \<open>nenv\<close>, \<open>hs_env\<close>, \<open>dial_env\<close>, \<open>cmd_env\<close>,
  \<open>id_env\<close>, \<open>upnp_env\<close>, \<open>tls_lib\<close>, \<open>world\<close>); theorems hold for all of them, under named conditions where the code relies on one. All functions are
  total; the one loop whose end is not structural (pruning in \<open>Discovery\<close>) is a partial function, proved to return.
  Lengths are bytes, as in Go. Values of type \<^verbatim>\<open>int\<close> that cannot overflow (counters, limits, ports) are \<open>int\<close> or \<open>nat\<close>.

  \<^bold>\<open>Granularity.\<close> One call of an operation is one step: the locks of the code make most operations atomic; a
  handshake, a dial and the hooks it triggers are taken as one step too, and the goroutines of one \<^verbatim>\<open>dialFirst\<close>
  follow each other in any order.

  \<^bold>\<open>Not modelled.\<close> Sockets, the scheduling of goroutines and tickers (when a step runs is a choice of the step
  sequence), deadlines (a timeout is a failed read, write or handshake of the arguments) and the log lines of the
  components; the logger itself is modelled. JSON, TLS, certificates, Ed25519 and SHA-256 are arguments with the laws
  the theorems name.
\<close>

end
